(* ===== verification/Prelude.thy ===== *)
theory Prelude
  imports Main "HOL-Library.Word" "HOL-Library.Char_ord" "HOL-Library.List_Lexorder"
begin

text \<open>
  Shared vocabulary of the development: byte strings (\<open>std::string\<close> is a list of \<open>char\<close>,
  one per byte), the C and C++ library routines the server calls on them (\<open>find\<close>, \<open>substr\<close>,
  \<open>trim\<close>, \<open>tolower\<close>, \<open>strtoul\<close>, \<open>atoi\<close>, number printing), and the collections of simp
  rules the component theories extend. A position is a natural number and \<open>npos\<close> is
  \<^term>\<open>None\<close>.
\<close>

named_theorems str_simps \<open>facts about the string routines\<close>

section \<open>Searching\<close>

text \<open>\<open>std::string::find(char)\<close>: the least position of the character.\<close>

fun find_char :: "char \<Rightarrow> string \<Rightarrow> nat option" where
  "find_char c [] = None"
| "find_char c (x # xs) = (if x = c then Some 0 else map_option Suc (find_char c xs))"

text \<open>\<open>std::search\<close> and \<open>std::string::find(string)\<close>: the least position where the pattern starts.\<close>

fun find_str :: "string \<Rightarrow> string \<Rightarrow> nat option" where
  "find_str p [] = (if p = [] then Some 0 else None)"
| "find_str p (x # xs) =
     (if take (length p) (x # xs) = p then Some 0 else map_option Suc (find_str p xs))"

definition contains :: "string \<Rightarrow> string \<Rightarrow> bool" where
  "contains p s \<longleftrightarrow> find_str p s \<noteq> None"

text \<open>\<open>text.rfind(prefix, 0) == 0\<close>, the code's idiom for a prefix test.\<close>

definition starts_with :: "string \<Rightarrow> string \<Rightarrow> bool" where
  "starts_with p s \<longleftrightarrow> take (length p) s = p"

definition CRLF :: string where
  "CRLF = [CHR 0x0D, CHR 0x0A]"

definition DQ :: string where
  "DQ = [CHR 0x22]"

lemma length_CRLF [simp]: "length CRLF = 2"
  by (simp add: CRLF_def)

lemma drop_CRLF [simp]: "drop (Suc (Suc 0)) (CRLF @ r) = r"
  by (simp add: CRLF_def)

lemma CRLF_not_Nil [simp]: "CRLF \<noteq> []"
  by (simp add: CRLF_def)

lemma find_char_None_iff [str_simps]: "find_char c s = None \<longleftrightarrow> c \<notin> set s"
  by (induction s) auto

lemma find_char_Some_iff:
  "find_char c s = Some n \<longleftrightarrow> n < length s \<and> s ! n = c \<and> c \<notin> set (take n s)"
proof (induction s arbitrary: n)
  case Nil
  then show ?case by simp
next
  case (Cons x xs)
  then show ?case by (cases n) auto
qed

lemma find_char_append_new [str_simps]: "c \<notin> set a \<Longrightarrow> find_char c (a @ c # b) = Some (length a)"
  by (induction a) auto

lemma find_char_append_Some: "find_char c a = Some n \<Longrightarrow> find_char c (a @ b) = Some n"
  by (auto simp: find_char_Some_iff nth_append)

lemma find_char_less: "find_char c s = Some n \<Longrightarrow> n < length s"
  by (simp add: find_char_Some_iff)

lemma find_char_split:
  assumes "find_char c l = Some n"
  shows "takeWhile (\<lambda>x. x \<noteq> c) l = take n l" "dropWhile (\<lambda>x. x \<noteq> c) l = drop n l"
proof -
  have "\<And>x. x \<in> set (take n l) \<Longrightarrow> x \<noteq> c" and "n < length l" "l ! n = c"
    using assms by (auto simp: find_char_Some_iff)
  then have "takeWhile (\<lambda>x. x \<noteq> c) (take n l @ drop n l) = take n l"
    "dropWhile (\<lambda>x. x \<noteq> c) (take n l @ drop n l) = drop n l"
    by (simp_all add: takeWhile_append2 dropWhile_append2 Cons_nth_drop_Suc [symmetric])
  then show "takeWhile (\<lambda>x. x \<noteq> c) l = take n l" "dropWhile (\<lambda>x. x \<noteq> c) l = drop n l" by simp_all
qed

lemma find_str_SomeD:
  "find_str p s = Some n \<Longrightarrow> n + length p \<le> length s \<and> take (length p) (drop n s) = p"
proof (induction s arbitrary: n)
  case Nil
  then show ?case by (auto split: if_splits)
next
  case (Cons x xs)
  show ?case
  proof (cases "take (length p) (x # xs) = p")
    case True
    then have "length p \<le> length (x # xs)"
      by (metis length_take min.cobounded1)
    with Cons.prems True show ?thesis by simp
  next
    case False
    with Cons show ?thesis by auto
  qed
qed

lemma find_str_append_Some: "find_str p s = Some n \<Longrightarrow> find_str p (s @ t) = Some n"
proof (induction s arbitrary: n)
  case Nil
  then show ?case by (cases t) (auto split: if_splits)
next
  case (Cons x xs)
  show ?case
  proof (cases "take (length p) (x # xs) = p")
    case True
    then have "length p \<le> length (x # xs)"
      by (metis length_take min.cobounded1)
    with True have "take (length p) (x # xs @ t) = p"
      by (metis append_Cons append.right_neutral diff_is_0_eq take0 take_append)
    with True Cons.prems show ?thesis by simp
  next
    case False
    with Cons.prems obtain m where m: "find_str p xs = Some m" "n = Suc m" by auto
    from find_str_SomeD [OF m(1)] have "length p \<le> length (x # xs)" by simp
    with False have "take (length p) (x # xs @ t) \<noteq> p"
      by (metis append_Cons append.right_neutral diff_is_0_eq take0 take_append)
    with m Cons.IH show ?thesis by simp
  qed
qed

text \<open>A match that appears only after an extension ends inside the extension.\<close>

lemma find_str_append_new:
  "find_str p s = None \<Longrightarrow> find_str p (s @ t) = Some n \<Longrightarrow> length s < n + length p"
proof (induction s arbitrary: n)
  case Nil
  then show ?case by (auto split: if_splits)
next
  case (Cons x xs)
  show ?case
  proof (cases "take (length p) (x # xs @ t) = p")
    case True
    with Cons.prems have "n = 0" by simp
    moreover have "length (x # xs) < length p"
    proof (rule ccontr)
      assume "\<not> ?thesis"
      with True have "take (length p) (x # xs) = p"
        by (metis append_Cons linorder_not_le nat_le_linear take_append append.right_neutral
            diff_is_0_eq take0)
      with Cons.prems(1) show False by simp
    qed
    ultimately show ?thesis by simp
  next
    case False
    with Cons show ?thesis by (auto split: if_splits)
  qed
qed

lemma find_str_CRLF_line:
  "CHR 0x0D \<notin> set l \<Longrightarrow> find_str CRLF (l @ CRLF @ r) = Some (length l)"
proof (induction l)
  case Nil
  then show ?case by (simp add: CRLF_def)
next
  case (Cons x xs)
  then have "take (length CRLF) ((x # xs) @ CRLF @ r) \<noteq> CRLF" by (auto simp: CRLF_def)
  with Cons show ?case by simp
qed

text \<open>A reader of a message head: lines up to the first empty one, then the rest.\<close>

function read_head :: "string \<Rightarrow> (string list \<times> string) option" where
  "read_head s = (case find_str CRLF s of
     None \<Rightarrow> None
   | Some n \<Rightarrow>
       if n = 0 then Some ([], drop 2 s)
       else map_option (\<lambda>(ls, r). (take n s # ls, r)) (read_head (drop (n + 2) s)))"
  by pat_completeness auto
termination
  by (relation "measure length") (auto simp: CRLF_def dest!: find_str_SomeD)

declare read_head.simps [simp del]

lemma read_head_empty: "read_head (CRLF @ r) = Some ([], r)"
proof -
  have "find_str CRLF (CRLF @ r) = Some 0" using find_str_CRLF_line [of "[]" r] by simp
  then show ?thesis by (simp add: read_head.simps [of "CRLF @ r"] numeral_2_eq_2)
qed

lemma read_head_line:
  assumes "CHR 0x0D \<notin> set l" "l \<noteq> []"
  shows "read_head (l @ CRLF @ r) = map_option (\<lambda>(ls, q). (l # ls, q)) (read_head r)"
  using assms find_str_CRLF_line [OF assms(1), of r]
  by (simp add: read_head.simps [of "l @ CRLF @ r"])

lemma read_head_lines:
  "\<forall>l \<in> set ls. CHR 0x0D \<notin> set l \<and> l \<noteq> [] \<Longrightarrow>
     read_head (concat (map (\<lambda>l. l @ CRLF) ls) @ CRLF @ r) = Some (ls, r)"
  by (induction ls) (simp_all add: read_head_empty read_head_line)

text \<open>What the reader has taken apart is what there was.\<close>

lemma read_head_text:
  "read_head s = Some (ls, r) \<Longrightarrow>
     s = concat (map (\<lambda>l. l @ CRLF) ls) @ CRLF @ r \<and> (\<forall>l \<in> set ls. l \<noteq> [])"
proof (induction s arbitrary: ls r rule: read_head.induct)
  case (1 s)
  obtain n where n: "find_str CRLF s = Some n"
    using "1.prems" by (cases "find_str CRLF s") (simp_all add: read_head.simps [of s])
  have cut: "s = take n s @ CRLF @ drop (n + 2) s"
  proof -
    have "take 2 (drop n s) = CRLF" using find_str_SomeD [OF n] by simp
    then show ?thesis by (metis append_take_drop_id drop_drop add.commute)
  qed
  show ?case
  proof (cases "n = 0")
    case True
    then show ?thesis using "1.prems" n cut by (simp add: read_head.simps [of s] numeral_2_eq_2)
  next
    case False
    then obtain ls' where l: "read_head (drop (n + 2) s) = Some (ls', r)" "ls = take n s # ls'"
      using "1.prems" n by (auto simp: read_head.simps [of s])
    have "s \<noteq> []" using n False by (cases s) (auto split: if_splits)
    then show ?thesis using "1.IH" [OF n False l(1)] l(2) cut False by simp
  qed
qed

lemma starts_with_append [str_simps]: "starts_with p (p @ s)"
  by (simp add: starts_with_def)

lemma starts_with_iff: "starts_with p s \<longleftrightarrow> (\<exists>r. s = p @ r)"
  by (metis append_eq_conv_conj append_take_drop_id starts_with_def)

lemma contains_append: "contains p s \<Longrightarrow> contains p (s @ t)"
  by (auto simp: contains_def dest: find_str_append_Some)

lemma contains_Cons: "contains p xs \<Longrightarrow> contains p (x # xs)"
  by (auto simp: contains_def)

lemma contains_appendL: "contains p t \<Longrightarrow> contains p (s @ t)"
  by (induction s) (auto intro: contains_Cons)

lemma contains_self: "contains p (p @ t)"
proof (cases "p @ t")
  case Nil
  then show ?thesis by (simp add: contains_def)
next
  case (Cons x xs)
  then have "take (length p) (x # xs) = p" by (metis append_eq_conv_conj)
  then show ?thesis by (simp add: Cons contains_def)
qed

section \<open>Cutting\<close>

text \<open>\<open>substr(pos, len)\<close>; every call of the code has \<open>pos <= size()\<close>, so it never throws.\<close>

definition substr :: "string \<Rightarrow> nat \<Rightarrow> nat \<Rightarrow> string" where
  "substr s pos len = take len (drop pos s)"

definition substr_from :: "string \<Rightarrow> nat \<Rightarrow> string" where
  "substr_from s pos = drop pos s"

definition is_blank :: "char \<Rightarrow> bool" where
  "is_blank c \<longleftrightarrow> c = CHR '' '' \<or> c = CHR 0x09"

fun find_first_not_blank :: "string \<Rightarrow> nat option" where
  "find_first_not_blank [] = None"
| "find_first_not_blank (x # xs) =
     (if is_blank x then map_option Suc (find_first_not_blank xs) else Some 0)"

definition find_last_not_blank :: "string \<Rightarrow> nat option" where
  "find_last_not_blank s = map_option (\<lambda>n. length s - Suc n) (find_first_not_blank (rev s))"

definition trim :: "string \<Rightarrow> string" where
  "trim text = (case find_first_not_blank text of
     None \<Rightarrow> []
   | Some begin \<Rightarrow> (case find_last_not_blank text of
       None \<Rightarrow> []
     | Some e \<Rightarrow> substr text begin (e - begin + 1)))"

lemma find_first_not_blank_split:
  "\<forall>x \<in> set l. is_blank x \<Longrightarrow> \<not> is_blank c \<Longrightarrow> find_first_not_blank (l @ c # r) = Some (length l)"
  by (induction l) auto

lemma find_first_not_blank_None: "find_first_not_blank s = None \<longleftrightarrow> (\<forall>x \<in> set s. is_blank x)"
  by (induction s) auto

lemma dropWhile_Nil_iff: "dropWhile P s = [] \<longleftrightarrow> (\<forall>x \<in> set s. P x)"
  by (induction s) auto

lemma dropWhile_hd_False: "dropWhile P s = [] \<or> \<not> P (hd (dropWhile P s))"
  by (induction s) auto

lemma trim_blank: "\<forall>x \<in> set s. is_blank x \<Longrightarrow> trim s = []"
  by (simp add: trim_def find_first_not_blank_None [THEN iffD2])

lemma trim_split:
  assumes "\<forall>x \<in> set l. is_blank x" "\<forall>x \<in> set r. is_blank x"
    and "m \<noteq> []" "\<not> is_blank (hd m)" "\<not> is_blank (last m)"
  shows "trim (l @ m @ r) = m"
proof -
  have "find_first_not_blank (l @ hd m # tl m @ r) = Some (length l)"
    using assms by (intro find_first_not_blank_split) auto
  then have f: "find_first_not_blank (l @ m @ r) = Some (length l)"
    using assms(3) by (simp flip: append_Cons)
  have "find_first_not_blank (rev r @ last m # rev (butlast m) @ rev l) = Some (length (rev r))"
    using assms by (intro find_first_not_blank_split) auto
  moreover have "rev (l @ m @ r) = rev r @ last m # rev (butlast m) @ rev l"
    by (subst (1) append_butlast_last_id [OF assms(3), symmetric]) simp
  ultimately have "find_first_not_blank (rev (l @ m @ r)) = Some (length r)"
    by (simp only: length_rev)
  then have "find_last_not_blank (l @ m @ r) = Some (length l + length m - 1)"
    by (simp only: find_last_not_blank_def) simp
  moreover have "length l + length m - 1 - length l + 1 = length m"
    using assms(3) by (cases m) auto
  ultimately show ?thesis
    using f by (simp add: trim_def substr_def)
qed

text \<open>Every string is blanks, then its trimmed middle, then blanks.\<close>

lemma trim_decomp:
  obtains l r where "s = l @ trim s @ r" "\<forall>x \<in> set l. is_blank x" "\<forall>x \<in> set r. is_blank x"
    "trim s = [] \<or> (\<not> is_blank (hd (trim s)) \<and> \<not> is_blank (last (trim s)))"
proof (cases "\<forall>x \<in> set s. is_blank x")
  case True
  then show ?thesis using that [of s "[]"] by (simp add: trim_blank)
next
  case False
  define l where "l = takeWhile is_blank s"
  define d where "d = dropWhile is_blank s"
  define r where "r = rev (takeWhile is_blank (rev d))"
  define m where "m = rev (dropWhile is_blank (rev d))"
  have s: "s = l @ m @ r"
    unfolding l_def r_def m_def by (metis d_def rev_append rev_rev_ident takeWhile_dropWhile_id)
  have bl: "\<forall>x \<in> set l. is_blank x" "\<forall>x \<in> set r. is_blank x"
    by (auto simp: l_def r_def dest: set_takeWhileD)
  have dn: "d \<noteq> []" using False by (simp add: d_def dropWhile_Nil_iff)
  have "\<not> is_blank (hd d)" using dn dropWhile_hd_False [of is_blank s] unfolding d_def by blast
  then have "\<not> (\<forall>x \<in> set (rev d). is_blank x)" using dn by (metis hd_in_set set_rev)
  then have mn: "m \<noteq> []" by (simp add: m_def dropWhile_Nil_iff)
  have hm: "hd m = hd d"
    using mn by (metis hd_append2 m_def r_def rev_append rev_rev_ident takeWhile_dropWhile_id)
  have lm: "\<not> is_blank (last m)"
    using mn dropWhile_hd_False [of is_blank "rev d"] unfolding m_def last_rev
    by (metis rev.simps(1))
  have "trim s = m"
    unfolding s using bl mn lm hm \<open>\<not> is_blank (hd d)\<close> by (intro trim_split) auto
  then show ?thesis using that [of l r] s bl hm lm \<open>\<not> is_blank (hd d)\<close> by auto
qed

lemma trim_Nil [simp]: "trim [] = []"
  by (simp add: trim_def)

lemma trim_id: "s = [] \<or> (\<not> is_blank (hd s) \<and> \<not> is_blank (last s)) \<Longrightarrow> trim s = s"
  using trim_split [of "[]" "[]" s] by (cases "s = []") auto

lemma trim_trim [simp]: "trim (trim s) = trim s"
  by (rule trim_decomp [of s]) (metis trim_id)

lemma set_trim: "set (trim s) \<subseteq> set s"
  by (rule trim_decomp [of s]) (metis Un_iff set_append subsetI)

section \<open>Characters\<close>

definition is_digit :: "char \<Rightarrow> bool" where
  "is_digit c \<longleftrightarrow> 48 \<le> (of_char c :: nat) \<and> (of_char c :: nat) \<le> 57"

text \<open>\<open>isspace\<close> and \<open>tolower\<close> of the C locale; the program never calls \<open>setlocale\<close>.\<close>

definition is_space :: "char \<Rightarrow> bool" where
  "is_space c \<longleftrightarrow> (of_char c :: nat) = 32 \<or> (9 \<le> (of_char c :: nat) \<and> (of_char c :: nat) \<le> 13)"

definition to_lower :: "char \<Rightarrow> char" where
  "to_lower c = (let n = (of_char c :: nat) in if 65 \<le> n \<and> n \<le> 90 then char_of (n + 32) else c)"

definition toLower :: "string \<Rightarrow> string" where
  "toLower text = map to_lower text"

lemma to_lower_idem [simp]: "to_lower (to_lower c) = to_lower c"
proof -
  have "(of_char c :: nat) < 256" by (rule nat_of_char_less_256)
  then show ?thesis by (auto simp: to_lower_def Let_def of_char_of take_bit_eq_mod)
qed

lemma toLower_idem [simp]: "toLower (toLower s) = toLower s"
  by (simp add: toLower_def)

lemma toLower_Nil [simp]: "toLower [] = []"
  by (simp add: toLower_def)

lemma toLower_append [simp]: "toLower (a @ b) = toLower a @ toLower b"
  by (simp add: toLower_def)

lemma length_toLower [simp]: "length (toLower s) = length s"
  by (simp add: toLower_def)

lemma toLower_eq_Nil [simp]: "toLower s = [] \<longleftrightarrow> s = []"
  by (simp add: toLower_def)

lemma is_blank_to_lower [simp]: "is_blank (to_lower c) = is_blank c"
proof -
  have d: "(of_char c :: nat) < 256" by (rule nat_of_char_less_256)
  have eq: "c = d \<longleftrightarrow> (of_char c :: nat) = of_char d" for c d :: char
    by simp
  show ?thesis
    unfolding is_blank_def eq
    using d by (auto simp: to_lower_def Let_def of_char_of take_bit_eq_mod split: if_splits)
qed

lemma is_blank_toLower_set: "(\<forall>x \<in> set (toLower s). is_blank x) \<longleftrightarrow> (\<forall>x \<in> set s. is_blank x)"
  by (simp add: toLower_def)

lemma trim_toLower: "trim (toLower s) = toLower (trim s)"
proof (rule trim_decomp [of s])
  fix l r
  assume s: "s = l @ trim s @ r"
    and bl: "\<forall>x \<in> set l. is_blank x" "\<forall>x \<in> set r. is_blank x"
    and m: "trim s = [] \<or> (\<not> is_blank (hd (trim s)) \<and> \<not> is_blank (last (trim s)))"
  have eq: "toLower s = toLower l @ toLower (trim s) @ toLower r"
    by (metis s toLower_append)
  show "trim (toLower s) = toLower (trim s)"
  proof (cases "trim s = []")
    case True
    then have "\<forall>x \<in> set s. is_blank x" using s bl by (metis Un_iff append_Nil set_append)
    then show ?thesis using True by (simp add: trim_blank is_blank_toLower_set)
  next
    case False
    then have "trim (toLower l @ toLower (trim s) @ toLower r) = toLower (trim s)"
      using bl m by (intro trim_split)
        (simp_all add: is_blank_toLower_set, simp_all add: toLower_def hd_map last_map)
    then show ?thesis using eq by simp
  qed
qed

section \<open>Numbers\<close>

text \<open>
  \<open>std::to_string\<close> and stream output of integers, and the reverse direction:
  \<open>strtoul(.., 10)\<close> with its saturation at \<open>ULONG_MAX\<close>, and \<open>atoi\<close> as glibc has it:
  \<open>strtol\<close>, then truncated to a 32-bit \<open>int\<close>. The strings the code passes are C strings
  (\<open>c_str()\<close>); a NUL byte is no digit, so the digits stop there too.
\<close>

definition digit_char :: "nat \<Rightarrow> char" where
  "digit_char d = char_of (48 + d)"

definition digit_val :: "char \<Rightarrow> nat" where
  "digit_val c = of_char c - 48"

fun string_of_nat :: "nat \<Rightarrow> string" where
  "string_of_nat n =
     (if n < 10 then [digit_char n] else string_of_nat (n div 10) @ [digit_char (n mod 10)])"

declare string_of_nat.simps [simp del]

definition string_of_int :: "int \<Rightarrow> string" where
  "string_of_int i =
     (if i < 0 then CHR ''-'' # string_of_nat (nat (- i)) else string_of_nat (nat i))"

fun digits_value :: "nat \<Rightarrow> string \<Rightarrow> nat" where
  "digits_value a [] = a"
| "digits_value a (c # cs) = digits_value (10 * a + digit_val c) cs"

definition nat_of_digits :: "string \<Rightarrow> nat" where
  "nat_of_digits s = digits_value 0 s"

definition isDigitString :: "string \<Rightarrow> bool" where
  "isDigitString text \<longleftrightarrow> text \<noteq> [] \<and> list_all is_digit text"

text \<open>Optional white space and sign, then the digits: the common part of \<open>strtol\<close> and \<open>strtoul\<close>.\<close>

definition split_sign :: "string \<Rightarrow> bool \<times> string" where
  "split_sign s = (case dropWhile is_space s of
     [] \<Rightarrow> (False, [])
   | c # cs \<Rightarrow> if c = CHR ''-'' then (True, cs) else if c = CHR ''+'' then (False, cs)
              else (False, c # cs))"

definition strtoul :: "string \<Rightarrow> nat" where
  "strtoul s = (let (neg, r) = split_sign s; v = nat_of_digits (takeWhile is_digit r) in
     if 2 ^ 64 \<le> v then 2 ^ 64 - 1 else if neg then (2 ^ 64 - v) mod 2 ^ 64 else v)"

definition strtol :: "string \<Rightarrow> int" where
  "strtol s = (let (neg, r) = split_sign s; v = int (nat_of_digits (takeWhile is_digit r)) in
     if neg then max (- (2 ^ 63)) (- v) else min (2 ^ 63 - 1) v)"

definition to_int32 :: "int \<Rightarrow> int" where
  "to_int32 i = (i + 2 ^ 31) mod 2 ^ 32 - 2 ^ 31"

definition atoi :: "string \<Rightarrow> int" where
  "atoi s = to_int32 (strtol s)"

lemma digit_char_digit: "d < 10 \<Longrightarrow> is_digit (digit_char d) \<and> digit_val (digit_char d) = d"
  by (simp add: digit_char_def is_digit_def digit_val_def of_char_of)

lemma digits_value_append: "digits_value a (s @ t) = digits_value (digits_value a s) t"
  by (induction s arbitrary: a) auto

lemma string_of_nat_digits: "list_all is_digit (string_of_nat n)"
proof (induction n rule: string_of_nat.induct)
  case (1 n)
  then show ?case
    by (subst string_of_nat.simps) (auto simp: digit_char_digit)
qed

lemma string_of_nat_nonempty [simp]: "string_of_nat n \<noteq> []"
  by (subst string_of_nat.simps) simp

lemma nat_of_digits_string_of_nat [simp]: "nat_of_digits (string_of_nat n) = n"
proof (induction n rule: string_of_nat.induct)
  case (1 n)
  then show ?case
    by (subst string_of_nat.simps)
       (auto simp: digit_char_digit nat_of_digits_def digits_value_append)
qed

lemma string_of_nat_inj: "string_of_nat m = string_of_nat n \<Longrightarrow> m = n"
  by (metis nat_of_digits_string_of_nat)

lemma string_of_nat_no_sign: "string_of_nat n \<noteq> CHR ''-'' # s"
proof
  assume "string_of_nat n = CHR ''-'' # s"
  then show False using string_of_nat_digits [of n] by (simp add: is_digit_def)
qed

lemma string_of_int_inj: "string_of_int i = string_of_int j \<Longrightarrow> i = j"
  using string_of_nat_no_sign string_of_nat_no_sign [THEN not_sym]
  by (auto simp: string_of_int_def eq_nat_nat_iff dest!: string_of_nat_inj split: if_splits)

lemma string_of_nat_length: "n < 10 ^ k \<Longrightarrow> 0 < k \<Longrightarrow> length (string_of_nat n) \<le> k"
proof (induction n arbitrary: k rule: string_of_nat.induct)
  case (1 n)
  show ?case
  proof (cases "n < 10")
    case True
    then show ?thesis using 1 by (subst string_of_nat.simps) simp
  next
    case False
    from "1.prems" obtain j where k: "k = Suc j" by (cases k) auto
    with False "1.prems" have "0 < j" by (cases j) auto
    note k = k this
    have "n div 10 < 10 ^ j" using "1.prems" k by (simp add: less_mult_imp_div_less mult.commute)
    then show ?thesis using "1.IH" [OF False, of j] k False by (subst string_of_nat.simps) simp
  qed
qed

lemma isDigitString_string_of_nat [simp]: "isDigitString (string_of_nat n)"
  by (simp add: isDigitString_def string_of_nat_digits)

lemma is_digit_props:
  "is_digit c \<Longrightarrow> \<not> is_space c \<and> c \<noteq> CHR ''-'' \<and> c \<noteq> CHR ''+'' \<and> \<not> is_blank c"
  by (auto simp: is_digit_def is_space_def is_blank_def)

lemma split_sign_digit: "is_digit c \<Longrightarrow> split_sign (c # cs) = (False, c # cs)"
  using is_digit_props [of c] by (simp add: split_sign_def)

lemma takeWhile_list_all: "list_all P s \<Longrightarrow> takeWhile P s = s"
  by (induction s) auto

lemma strtoul_digits: "isDigitString s \<Longrightarrow> strtoul s = min (nat_of_digits s) (2 ^ 64 - 1)"
  by (cases s) (auto simp: strtoul_def isDigitString_def split_sign_digit takeWhile_list_all Let_def)

lemma strtoul_le: "strtoul s \<le> 2 ^ 64 - 1"
proof -
  have "(2 ^ 64 - v) mod 2 ^ 64 \<le> 2 ^ 64 - (1::nat)" for v :: nat
    by (metis Suc_diff_1 less_Suc_eq_le mod_less_divisor zero_less_numeral zero_less_power)
  then show ?thesis by (auto simp: strtoul_def Let_def split: prod.splits)
qed

lemma to_int32_id: "- (2 ^ 31) \<le> i \<Longrightarrow> i < 2 ^ 31 \<Longrightarrow> to_int32 i = i"
  by (simp add: to_int32_def)

lemma to_int32_range: "- (2 ^ 31) \<le> to_int32 i \<and> to_int32 i < 2 ^ 31"
  using pos_mod_bound [of "2 ^ 32" "i + 2 ^ 31"] pos_mod_sign [of "2 ^ 32" "i + 2 ^ 31"]
  by (simp add: to_int32_def)

lemma atoi_digits:
  "isDigitString s \<Longrightarrow> nat_of_digits s < 2 ^ 31 \<Longrightarrow> atoi s = int (nat_of_digits s)"
  by (cases s) (auto simp: atoi_def strtol_def isDigitString_def split_sign_digit
      takeWhile_list_all to_int32_def)

lemma strtoul_string_of_nat: "n < 2 ^ 64 \<Longrightarrow> strtoul (string_of_nat n) = n"
  by (simp add: strtoul_digits)

lemma split_sign_minus: "split_sign (CHR ''-'' # s) = (True, s)"
  by (simp add: split_sign_def is_space_def)

lemma strtol_string_of_int: "- (2 ^ 63) \<le> i \<Longrightarrow> i < 2 ^ 63 \<Longrightarrow> strtol (string_of_int i) = i"
proof (cases "i < 0")
  case True
  assume "- (2 ^ 63) \<le> i"
  then show ?thesis using True
    by (simp add: string_of_int_def strtol_def split_sign_minus string_of_nat_digits takeWhile_list_all)
next
  case False
  assume "i < 2 ^ 63"
  obtain c cs where c: "string_of_nat (nat i) = c # cs" by (cases "string_of_nat (nat i)") auto
  then have d: "is_digit c" "list_all is_digit cs" using string_of_nat_digits [of "nat i"] by simp_all
  have "nat_of_digits (c # cs) = nat i" by (simp flip: c)
  then show ?thesis using False d \<open>i < 2 ^ 63\<close>
    by (simp add: string_of_int_def strtol_def c split_sign_digit takeWhile_list_all)
qed

lemma atoi_string_of_int: "- (2 ^ 31) \<le> i \<Longrightarrow> i < 2 ^ 31 \<Longrightarrow> atoi (string_of_int i) = i"
  by (simp add: atoi_def strtol_string_of_int to_int32_id)

section \<open>C division\<close>

text \<open>\<open>/\<close> and \<open>%\<close> on signed integers truncate towards zero.\<close>

definition c_div :: "int \<Rightarrow> int \<Rightarrow> int" where
  "c_div a b = sgn a * sgn b * (\<bar>a\<bar> div \<bar>b\<bar>)"

definition c_rem :: "int \<Rightarrow> int \<Rightarrow> int" where
  "c_rem a b = a - c_div a b * b"

lemma c_div_nonneg: "0 \<le> a \<Longrightarrow> 0 < b \<Longrightarrow> c_div a b = a div b"
  by (cases "a = 0") (simp_all add: c_div_def)

lemma c_div_neg: "a \<le> 0 \<Longrightarrow> 0 < b \<Longrightarrow> c_div a b = - ((- a) div b)"
  by (cases "a = 0") (simp_all add: c_div_def)

section \<open>UTF-8\<close>

text \<open>The encoding of the source files, for the texts in them that are not ASCII, by code points.\<close>

definition utf8 :: "nat \<Rightarrow> string" where
  "utf8 n =
     (if n < 0x80 then [char_of n]
      else if n < 0x800 then [char_of (0xC0 + n div 0x40), char_of (0x80 + n mod 0x40)]
      else if n < 0x10000 then
        [char_of (0xE0 + n div 0x1000), char_of (0x80 + n div 0x40 mod 0x40), char_of (0x80 + n mod 0x40)]
      else
        [char_of (0xF0 + n div 0x40000), char_of (0x80 + n div 0x1000 mod 0x40),
         char_of (0x80 + n div 0x40 mod 0x40), char_of (0x80 + n mod 0x40)])"

definition utf8_text :: "nat list \<Rightarrow> string" where
  "utf8_text ns = concat (map utf8 ns)"

end
