(* ===== verification/Net_Buffer.thy ===== *)
theory Net_Buffer
  imports Prelude
begin

text \<open>
  \<open>net/Buffer\<close>: a linear byte buffer with a read and a write index. The vector is a list of
  bytes; the readable bytes are the ones between the indices. The abstract view is a FIFO of
  bytes (\<open>contents\<close>), stated as the locale \<open>byte_fifo\<close>, which the parser and the connection
  rely on and which \<open>Buffer\<close> provides through compaction and growth.
\<close>

record net_buffer =
  bufferData :: string
  readIndex :: nat
  writeIndex :: nat

definition kInitialSize :: nat where
  "kInitialSize = 1024"

definition kPrependSize :: nat where
  "kPrependSize = 8"

definition NUL :: char where
  "NUL = CHR 0x00"

definition buffer_new :: "nat \<Rightarrow> net_buffer" where
  "buffer_new initialSize =
     \<lparr>bufferData = replicate (kPrependSize + initialSize) NUL,
      readIndex = kPrependSize, writeIndex = kPrependSize\<rparr>"

definition readableBytes :: "net_buffer \<Rightarrow> nat" where
  "readableBytes b = writeIndex b - readIndex b"

definition writableBytes :: "net_buffer \<Rightarrow> nat" where
  "writableBytes b = length (bufferData b) - writeIndex b"

definition prependableBytes :: "net_buffer \<Rightarrow> nat" where
  "prependableBytes b = readIndex b"

text \<open>The bytes from \<open>peek()\<close> on, \<open>readableBytes()\<close> many.\<close>

definition contents :: "net_buffer \<Rightarrow> string" where
  "contents b = take (readableBytes b) (drop (readIndex b) (bufferData b))"

definition retrieveAll :: "net_buffer \<Rightarrow> net_buffer" where
  "retrieveAll b = b\<lparr>readIndex := kPrependSize, writeIndex := kPrependSize\<rparr>"

definition retrieve :: "net_buffer \<Rightarrow> nat \<Rightarrow> net_buffer" where
  "retrieve b len =
     (if readableBytes b \<le> len then retrieveAll b else b\<lparr>readIndex := readIndex b + len\<rparr>)"

definition retrieveAsString :: "net_buffer \<Rightarrow> nat \<Rightarrow> string \<times> net_buffer" where
  "retrieveAsString b len =
     (let n = min len (readableBytes b) in (take n (contents b), retrieve b n))"

definition retrieveAllAsString :: "net_buffer \<Rightarrow> string \<times> net_buffer" where
  "retrieveAllAsString b = retrieveAsString b (readableBytes b)"

text \<open>\<open>vector::resize\<close> (new bytes are zero) and \<open>std::copy\<close> into the vector at an index.\<close>

definition vector_resize :: "string \<Rightarrow> nat \<Rightarrow> string" where
  "vector_resize xs n = take n xs @ replicate (n - length xs) NUL"

definition copy_at :: "string \<Rightarrow> nat \<Rightarrow> string \<Rightarrow> string" where
  "copy_at xs i d = take i xs @ d @ drop (i + length d) xs"

definition makeSpace :: "net_buffer \<Rightarrow> nat \<Rightarrow> net_buffer" where
  "makeSpace b len =
     (if writableBytes b + prependableBytes b < len + kPrependSize
      then b\<lparr>bufferData := vector_resize (bufferData b) (writeIndex b + len)\<rparr>
      else let readable = readableBytes b in
        b\<lparr>bufferData := copy_at (bufferData b) kPrependSize (contents b),
          readIndex := kPrependSize, writeIndex := kPrependSize + readable\<rparr>)"

definition ensureWritableBytes :: "net_buffer \<Rightarrow> nat \<Rightarrow> net_buffer" where
  "ensureWritableBytes b len = (if writableBytes b < len then makeSpace b len else b)"

definition hasWritten :: "net_buffer \<Rightarrow> nat \<Rightarrow> net_buffer" where
  "hasWritten b len = b\<lparr>writeIndex := writeIndex b + len\<rparr>"

definition buffer_append :: "net_buffer \<Rightarrow> string \<Rightarrow> net_buffer" where
  "buffer_append b d =
     (let b' = ensureWritableBytes b (length d) in
      hasWritten (b'\<lparr>bufferData := copy_at (bufferData b') (writeIndex b') d\<rparr>) (length d))"

text \<open>
  \<open>readFd\<close>: \<open>readv\<close> into the free space and a 64 KiB stack area. What the kernel returns is an
  argument: an errno, or the bytes read, at most \<open>readFd_capacity\<close> of them. The result is the
  return value, the saved errno and the buffer.
\<close>

definition extraSize :: nat where
  "extraSize = 65536"

definition readFd_capacity :: "net_buffer \<Rightarrow> nat" where
  "readFd_capacity b =
     writableBytes b + (if writableBytes b < extraSize then extraSize else 0)"

definition readFd :: "net_buffer \<Rightarrow> int + string \<Rightarrow> int \<times> int option \<times> net_buffer" where
  "readFd b r = (case r of
     Inl errno \<Rightarrow> (-1, Some errno, b)
   | Inr d \<Rightarrow>
       let n = length d; writable = writableBytes b;
         b' = b\<lparr>bufferData := copy_at (bufferData b) (writeIndex b) (take writable d)\<rparr> in
       if n \<le> writable then (int n, None, b'\<lparr>writeIndex := writeIndex b' + n\<rparr>)
       else (int n, None,
             buffer_append (b'\<lparr>writeIndex := length (bufferData b')\<rparr>) (drop writable d)))"

text \<open>The index invariant.\<close>

definition buffer_valid :: "net_buffer \<Rightarrow> bool" where
  "buffer_valid b \<longleftrightarrow>
     kPrependSize \<le> readIndex b \<and> readIndex b \<le> writeIndex b \<and>
     writeIndex b \<le> length (bufferData b)"

section \<open>The contract: a FIFO of bytes\<close>

datatype fifo_op = Push string | Pop nat

locale byte_fifo =
  fixes valid :: "'b \<Rightarrow> bool"
    and bytes :: "'b \<Rightarrow> string"
    and push :: "'b \<Rightarrow> string \<Rightarrow> 'b"
    and pop :: "'b \<Rightarrow> nat \<Rightarrow> 'b"
    and size_of :: "'b \<Rightarrow> nat"
  assumes valid_push: "valid b \<Longrightarrow> valid (push b d)"
    and valid_pop: "valid b \<Longrightarrow> valid (pop b n)"
    and bytes_push: "valid b \<Longrightarrow> bytes (push b d) = bytes b @ d"
    and bytes_pop: "valid b \<Longrightarrow> bytes (pop b n) = drop n (bytes b)"
    and size_of_bytes: "valid b \<Longrightarrow> size_of b = length (bytes b)"
begin

lemma size_push: "valid b \<Longrightarrow> size_of (push b d) = size_of b + length d"
  by (simp add: size_of_bytes valid_push bytes_push)

lemma size_pop: "valid b \<Longrightarrow> size_of (pop b n) = size_of b - n"
  by (simp add: size_of_bytes valid_pop bytes_pop)

lemma pop_push: "valid b \<Longrightarrow> n \<le> size_of b \<Longrightarrow> bytes (pop (push b d) n) = bytes (pop b n) @ d"
  by (simp add: size_of_bytes valid_push bytes_push bytes_pop)

text \<open>What goes in comes out, in order: the stream law for any run of pushes and pops.\<close>

fun run :: "'b \<Rightarrow> fifo_op list \<Rightarrow> string \<times> 'b" where
  "run b [] = ([], b)"
| "run b (Push d # ops) = run (push b d) ops"
| "run b (Pop n # ops) =
     (let (out, b') = run (pop b n) ops in (take n (bytes b) @ out, b'))"

fun pushed :: "fifo_op list \<Rightarrow> string" where
  "pushed [] = []"
| "pushed (Push d # ops) = d @ pushed ops"
| "pushed (Pop n # ops) = pushed ops"

lemma stream_law: "valid b \<Longrightarrow> fst (run b ops) @ bytes (snd (run b ops)) = bytes b @ pushed ops"
proof (induction b ops rule: run.induct)
  case (1 b)
  then show ?case by simp
next
  case (2 b d ops)
  then show ?case by (simp add: valid_push bytes_push)
next
  case (3 b n ops)
  then have "fst (run (pop b n) ops) @ bytes (snd (run (pop b n) ops)) = drop n (bytes b) @ pushed ops"
    by (simp add: valid_pop bytes_pop)
  then show ?case by (simp add: case_prod_beta)
qed

end

section \<open>Buffer keeps the contract\<close>

lemmas buffer_defs =
  readableBytes_def writableBytes_def prependableBytes_def contents_def buffer_valid_def

lemma buffer_new_valid [simp]: "buffer_valid (buffer_new n)"
  by (simp add: buffer_new_def buffer_valid_def)

lemma contents_new [simp]: "contents (buffer_new n) = []"
  by (simp add: buffer_new_def buffer_defs)

lemma length_contents: "buffer_valid b \<Longrightarrow> length (contents b) = readableBytes b"
  by (auto simp: buffer_defs min_def)

lemma retrieve_valid: "buffer_valid b \<Longrightarrow> buffer_valid (retrieve b n)"
  by (auto simp: retrieve_def retrieveAll_def buffer_defs)

lemma contents_retrieve: "buffer_valid b \<Longrightarrow> contents (retrieve b n) = drop n (contents b)"
  by (auto simp: retrieve_def retrieveAll_def buffer_defs drop_take add.commute)

lemma makeSpace_props:
  assumes v: "buffer_valid b" and w: "writableBytes b < len"
  shows "buffer_valid (makeSpace b len)" "contents (makeSpace b len) = contents b"
    "len \<le> writableBytes (makeSpace b len)"
proof -
  let ?grow = "writableBytes b + prependableBytes b < len + kPrependSize"
  have lc: "length (contents b) = writeIndex b - readIndex b"
    using v length_contents [OF v] by (simp add: readableBytes_def)
  show "buffer_valid (makeSpace b len)"
    using v w lc
    by (auto simp: makeSpace_def vector_resize_def copy_at_def buffer_valid_def
        readableBytes_def writableBytes_def)
  show "contents (makeSpace b len) = contents b"
  proof (cases ?grow)
    case True
    then show ?thesis using v w
      by (auto simp: makeSpace_def vector_resize_def buffer_defs drop_take)
  next
    case False
    moreover have "kPrependSize \<le> length (bufferData b)" using v by (simp add: buffer_defs)
    ultimately show ?thesis using v lc
      by (auto simp: makeSpace_def copy_at_def Let_def readableBytes_def contents_def buffer_valid_def)
  qed
  show "len \<le> writableBytes (makeSpace b len)"
    using v w lc
    by (auto simp: makeSpace_def vector_resize_def copy_at_def buffer_valid_def Let_def
        readableBytes_def writableBytes_def prependableBytes_def)
qed

lemma ensureWritableBytes_props:
  assumes "buffer_valid b"
  shows "buffer_valid (ensureWritableBytes b len)"
    "contents (ensureWritableBytes b len) = contents b"
    "len \<le> writableBytes (ensureWritableBytes b len)"
  using makeSpace_props [of b len] assms by (auto simp: ensureWritableBytes_def)

lemma write_at_end:
  assumes "buffer_valid b" "length d \<le> writableBytes b"
  shows "buffer_valid (b\<lparr>bufferData := copy_at (bufferData b) (writeIndex b) d,
           writeIndex := writeIndex b + length d\<rparr>)"
    "contents (b\<lparr>bufferData := copy_at (bufferData b) (writeIndex b) d,
           writeIndex := writeIndex b + length d\<rparr>) = contents b @ d"
  using assms by (auto simp: copy_at_def buffer_defs drop_take)

lemma buffer_append_props:
  assumes "buffer_valid b"
  shows "buffer_valid (buffer_append b d)" "contents (buffer_append b d) = contents b @ d"
  using ensureWritableBytes_props [OF assms, of "length d"]
    write_at_end [of "ensureWritableBytes b (length d)" d]
  by (simp_all add: buffer_append_def Let_def hasWritten_def)

interpretation nb: byte_fifo buffer_valid contents buffer_append retrieve readableBytes
  by unfold_locales
    (simp_all add: buffer_append_props retrieve_valid contents_retrieve length_contents)

lemma retrieveAsString_eq:
  assumes "buffer_valid b"
  shows "retrieveAsString b n = (take n (contents b), retrieve b (min n (readableBytes b)))"
    "contents (snd (retrieveAsString b n)) = drop n (contents b)"
    "buffer_valid (snd (retrieveAsString b n))"
  using assms nb.size_of_bytes [OF assms]
  by (auto simp: retrieveAsString_def Let_def contents_retrieve retrieve_valid min_def)

lemma readFd_contents:
  assumes "buffer_valid b"
  shows "\<exists>b'. readFd b (Inr d) = (int (length d), None, b') \<and> buffer_valid b' \<and>
      contents b' = contents b @ d"
proof (cases "length d \<le> writableBytes b")
  case True
  then show ?thesis
    using write_at_end [OF assms True] by (simp add: readFd_def Let_def)
next
  case False
  let ?w = "writableBytes b"
  let ?b = "b\<lparr>bufferData := copy_at (bufferData b) (writeIndex b) (take ?w d)\<rparr>"
  have l: "length (take ?w d) = ?w" using False by simp
  have e: "length (bufferData ?b) = writeIndex b + length (take ?w d)"
    using assms l by (auto simp: copy_at_def buffer_defs)
  note p = write_at_end [OF assms, of "take ?w d"]
  have "buffer_valid (?b\<lparr>writeIndex := length (bufferData ?b)\<rparr>)"
    "contents (?b\<lparr>writeIndex := length (bufferData ?b)\<rparr>) = contents b @ take ?w d"
    using p l e by simp_all
  then show ?thesis
    using False buffer_append_props [of "?b\<lparr>writeIndex := length (bufferData ?b)\<rparr>" "drop ?w d"]
    by (simp add: readFd_def Let_def)
qed

text \<open>What one call can really deliver.\<close>

lemma readFd_valid_contents:
  assumes "buffer_valid b" "length d \<le> readFd_capacity b"
  shows "\<exists>b'. readFd b (Inr d) = (int (length d), None, b') \<and> buffer_valid b' \<and>
      contents b' = contents b @ d"
  by (rule readFd_contents [OF assms(1)])

lemma readFd_valid: "buffer_valid b \<Longrightarrow> readFd b r = (n, err, b') \<Longrightarrow> buffer_valid b'"
proof (cases r)
  case (Inr d)
  assume "buffer_valid b" "readFd b r = (n, err, b')"
  with readFd_contents [of b d] Inr show ?thesis by auto
qed (simp add: readFd_def)

end
