(* ===== verification/Ordered_Map.thy ===== *)
theory Ordered_Map
  imports Prelude
begin

text \<open>
  \<open>std::map\<close>: a finite map kept in the order of its keys, which is the order a range-for over
  it visits. The model is the list of the entries, strictly sorted by key. The interface the
  rest of the development relies on is the locale \<open>kv_map\<close>; the sorted list interprets it.
\<close>

type_synonym ('k, 'v) omap = "('k \<times> 'v) list"

definition om_empty :: "('k, 'v) omap" where
  "om_empty = []"

definition om_get :: "('k, 'v) omap \<Rightarrow> 'k \<Rightarrow> 'v option" where
  "om_get m = map_of m"

text \<open>\<open>m[k] = v\<close>: replaces the value of a present key, otherwise inserts in key order.\<close>

fun om_put :: "'k::linorder \<Rightarrow> 'v \<Rightarrow> ('k, 'v) omap \<Rightarrow> ('k, 'v) omap" where
  "om_put k v [] = [(k, v)]"
| "om_put k v ((k', v') # m) =
     (if k < k' then (k, v) # (k', v') # m
      else if k = k' then (k, v) # m
      else (k', v') # om_put k v m)"

text \<open>\<open>m.erase(k)\<close>.\<close>

fun om_erase :: "'k \<Rightarrow> ('k, 'v) omap \<Rightarrow> ('k, 'v) omap" where
  "om_erase k [] = []"
| "om_erase k ((k', v') # m) = (if k = k' then m else (k', v') # om_erase k m)"

definition om_valid :: "('k::linorder, 'v) omap \<Rightarrow> bool" where
  "om_valid m \<longleftrightarrow> sorted_wrt (<) (map fst m)"

section \<open>The interface\<close>

locale kv_map =
  fixes empty :: "'m"
    and get :: "'m \<Rightarrow> 'k \<Rightarrow> 'v option"
    and put :: "'k \<Rightarrow> 'v \<Rightarrow> 'm \<Rightarrow> 'm"
    and erase :: "'k \<Rightarrow> 'm \<Rightarrow> 'm"
    and valid :: "'m \<Rightarrow> bool"
  assumes valid_empty: "valid empty"
    and valid_put: "valid m \<Longrightarrow> valid (put k v m)"
    and valid_erase: "valid m \<Longrightarrow> valid (erase k m)"
    and get_empty: "get empty k = None"
    and get_put: "valid m \<Longrightarrow> get (put k v m) = (get m)(k \<mapsto> v)"
    and get_erase: "valid m \<Longrightarrow> get (erase k m) = (get m)(k := None)"
begin

lemma get_put_same: "valid m \<Longrightarrow> get (put k v m) k = Some v"
  by (simp add: get_put)

lemma get_put_other: "valid m \<Longrightarrow> k' \<noteq> k \<Longrightarrow> get (put k v m) k' = get m k'"
  by (simp add: get_put)

text \<open>A sequence of assignments: the last one to a key decides its value.\<close>

lemma valid_puts: "valid m \<Longrightarrow> valid (fold (\<lambda>(k, v). put k v) kvs m)"
  by (induction kvs arbitrary: m) (auto intro: valid_put)

lemma get_puts: "valid m \<Longrightarrow> get (fold (\<lambda>(k, v). put k v) kvs m) = get m ++ map_of (rev kvs)"
proof (induction kvs arbitrary: m)
  case Nil
  then show ?case by simp
next
  case (Cons p kvs)
  obtain k v where p: "p = (k, v)" by (cases p)
  have "get (fold (\<lambda>(k, v). put k v) kvs (put k v m)) = (get m)(k \<mapsto> v) ++ map_of (rev kvs)"
    using Cons.IH [OF valid_put [OF Cons.prems]] by (simp only: get_put [OF Cons.prems])
  then show ?case by (simp add: p)
qed

lemma dom_puts:
  "valid m \<Longrightarrow> dom (get (fold (\<lambda>(k, v). put k v) kvs m)) = dom (get m) \<union> fst ` set kvs"
  by (simp add: get_puts dom_map_of_conv_image_fst Un_commute)

end

section \<open>The sorted list provides it\<close>

lemma set_om_put: "fst ` set (om_put k v m) = insert k (fst ` set m)"
  by (induction k v m rule: om_put.induct) auto

lemma om_valid_Nil [simp]: "om_valid []"
  by (simp add: om_valid_def)

lemma om_valid_Cons [simp]:
  "om_valid ((k, v) # m) \<longleftrightarrow> (\<forall>k' \<in> fst ` set m. k < k') \<and> om_valid m"
  by (auto simp: om_valid_def)

lemma om_valid_put: "om_valid m \<Longrightarrow> om_valid (om_put k v m)"
proof (induction k v m rule: om_put.induct)
  case (2 k v k' v' m)
  then show ?case by (auto simp: set_om_put)
qed simp

lemma om_get_put: "om_get (om_put k v m) = (om_get m)(k \<mapsto> v)"
  by (induction k v m rule: om_put.induct) (auto simp: om_get_def)

lemma set_om_erase: "fst ` set (om_erase k m) \<subseteq> fst ` set m"
  by (induction k m rule: om_erase.induct) auto

lemma om_valid_erase: "om_valid m \<Longrightarrow> om_valid (om_erase k m)"
proof (induction k m rule: om_erase.induct)
  case (2 k k' v' m)
  then show ?case using set_om_erase [of k m] by (fastforce dest: subsetD)
qed simp

lemma om_get_erase: "om_valid m \<Longrightarrow> om_get (om_erase k m) = (om_get m)(k := None)"
proof (induction k m rule: om_erase.induct)
  case (1 k)
  then show ?case by (simp add: om_get_def)
next
  case (2 k k' v' m)
  have "map_of m k' = None" if "k = k'"
    using 2 by (auto simp: map_of_eq_None_iff)
  with 2 show ?case by (auto simp: om_get_def fun_eq_iff)
qed

interpretation om: kv_map om_empty om_get om_put om_erase om_valid
  by unfold_locales
    (simp_all add: om_empty_def om_valid_put om_valid_erase om_get_put om_get_erase,
     simp add: om_get_def)

lemma om_get_None_iff: "om_get m k = None \<longleftrightarrow> k \<notin> fst ` set m"
  by (simp add: om_get_def map_of_eq_None_iff)

lemma om_get_in_set: "om_valid m \<Longrightarrow> om_get m k = Some v \<longleftrightarrow> (k, v) \<in> set m"
proof -
  assume "om_valid m"
  then have "distinct (map fst m)"
    by (auto simp: om_valid_def strict_sorted_iff)
  then show ?thesis by (simp add: om_get_def)
qed

lemma om_put_absent_length: "om_get m k = None \<Longrightarrow> length (om_put k v m) = Suc (length m)"
  by (induction k v m rule: om_put.induct) (auto simp: om_get_def split: if_splits)

lemma om_put_present_length:
  "om_valid m \<Longrightarrow> om_get m k = Some w \<Longrightarrow> length (om_put k v m) = length m"
proof (induction k v m rule: om_put.induct)
  case (2 k v k' v' m)
  then show ?case by (force simp: om_get_def dest: map_of_SomeD split: if_splits)
qed (simp add: om_get_def)

end
