(* ===== verification/Http_Request.thy ===== *)
theory Http_Request
  imports Ordered_Map
begin

text \<open>
  \<open>http/HttpRequest\<close>: the request record, its setters and its header map. Header keys are
  trimmed and lower-cased on insertion, so look-ups are case-insensitive.
\<close>

datatype http_method = kInvalid | kGet | kPost | kHead

record http_request =
  rq_method :: http_method
  rq_path :: string
  rq_query :: string
  rq_version :: string
  rq_body :: string
  rq_headers :: "(string, string) omap"
  rq_keepAlive :: bool

definition HttpRequest_new :: http_request where
  "HttpRequest_new =
     \<lparr>rq_method = kInvalid, rq_path = ''/'', rq_query = [], rq_version = ''HTTP/1.0'',
      rq_body = [], rq_headers = om_empty, rq_keepAlive = False\<rparr>"

definition methodFromString :: "string \<Rightarrow> http_method" where
  "methodFromString text =
     (if text = ''GET'' then kGet
      else if text = ''POST'' then kPost
      else if text = ''HEAD'' then kHead
      else kInvalid)"

definition methodToString :: "http_method \<Rightarrow> string" where
  "methodToString m = (case m of
     kGet \<Rightarrow> ''GET'' | kPost \<Rightarrow> ''POST'' | kHead \<Rightarrow> ''HEAD'' | _ \<Rightarrow> ''INVALID'')"

definition setPath :: "string \<Rightarrow> http_request \<Rightarrow> http_request" where
  "setPath target r =
     (let r1 = (case find_char (CHR ''?'') target of
          None \<Rightarrow> r\<lparr>rq_path := target, rq_query := []\<rparr>
        | Some pos \<Rightarrow> r\<lparr>rq_path := substr target 0 pos, rq_query := substr_from target (pos + 1)\<rparr>)
      in if rq_path r1 = [] then r1\<lparr>rq_path := ''/''\<rparr> else r1)"

definition addHeader :: "string \<Rightarrow> string \<Rightarrow> http_request \<Rightarrow> http_request" where
  "addHeader key val r = r\<lparr>rq_headers := om_put (toLower (trim key)) (trim val) (rq_headers r)\<rparr>"

definition hasHeader :: "http_request \<Rightarrow> string \<Rightarrow> bool" where
  "hasHeader r key \<longleftrightarrow> om_get (rq_headers r) (toLower key) \<noteq> None"

definition getHeader :: "http_request \<Rightarrow> string \<Rightarrow> string" where
  "getHeader r key = (case om_get (rq_headers r) (toLower key) of None \<Rightarrow> [] | Some v \<Rightarrow> v)"

definition request_valid :: "http_request \<Rightarrow> bool" where
  "request_valid r \<longleftrightarrow>
     om_valid (rq_headers r) \<and>
     (\<forall>(k, v) \<in> set (rq_headers r). toLower (trim k) = k \<and> trim v = v) \<and>
     rq_path r \<noteq> []"

section \<open>Methods\<close>

lemma methodFromString_ToString: "m \<noteq> kInvalid \<Longrightarrow> methodFromString (methodToString m) = m"
  by (cases m) (simp_all add: methodFromString_def methodToString_def)

lemma methodFromString_valid:
  "methodFromString t \<noteq> kInvalid \<longleftrightarrow> t \<in> {''GET'', ''POST'', ''HEAD''}"
  by (auto simp: methodFromString_def)

lemma methodToString_From: "methodFromString t \<noteq> kInvalid \<Longrightarrow> methodToString (methodFromString t) = t"
  by (auto simp: methodFromString_def methodToString_def)

section \<open>Target\<close>

lemma setPath_split:
  assumes "CHR ''?'' \<notin> set p" "p \<noteq> []"
  shows "setPath (p @ CHR ''?'' # q) r = r\<lparr>rq_path := p, rq_query := q\<rparr>"
    "setPath p r = r\<lparr>rq_path := p, rq_query := []\<rparr>"
  using assms
  by (simp_all add: setPath_def find_char_append_new find_char_None_iff [THEN iffD2]
      substr_def substr_from_def)

lemma setPath_nonempty: "rq_path (setPath t r) \<noteq> []"
  by (simp add: setPath_def Let_def)

lemma setPath_frame [simp]:
  "rq_method (setPath t r) = rq_method r" "rq_headers (setPath t r) = rq_headers r"
  "rq_body (setPath t r) = rq_body r" "rq_keepAlive (setPath t r) = rq_keepAlive r"
  "rq_version (setPath t r) = rq_version r"
  by (simp_all add: setPath_def Let_def split: option.split)

text \<open>The path holds no question mark: everything from the first one on is the query.\<close>

lemma setPath_no_query_mark: "CHR ''?'' \<notin> set (rq_path (setPath t r))"
  by (auto simp: setPath_def Let_def substr_def find_char_None_iff find_char_Some_iff
      split: option.split)

section \<open>Headers\<close>

lemma addHeader_get:
  "om_get (rq_headers (addHeader k v r)) = (om_get (rq_headers r))(toLower (trim k) \<mapsto> trim v)"
  by (simp add: addHeader_def om_get_put)

lemma getHeader_addHeader:
  "getHeader (addHeader k v r) k' =
     (if toLower k' = toLower (trim k) then trim v else getHeader r k')"
  by (simp add: getHeader_def addHeader_get)

lemma hasHeader_addHeader:
  "hasHeader (addHeader k v r) k' \<longleftrightarrow> toLower k' = toLower (trim k) \<or> hasHeader r k'"
  by (simp add: hasHeader_def addHeader_get)

lemma getHeader_case: "toLower k = toLower k' \<Longrightarrow> getHeader r k = getHeader r k'"
  by (simp add: getHeader_def)

lemma set_om_put_subset: "set (om_put k v m) \<subseteq> insert (k, v) (set m)"
  by (induction k v m rule: om_put.induct) auto

lemma addHeader_valid: "request_valid r \<Longrightarrow> request_valid (addHeader k v r)"
  using set_om_put_subset [of "toLower (trim k)" "trim v" "rq_headers r"]
  by (auto simp: request_valid_def addHeader_def om_valid_put trim_toLower dest!: subsetD)

lemma addHeader_frame [simp]:
  "rq_method (addHeader k v r) = rq_method r" "rq_path (addHeader k v r) = rq_path r"
  "rq_query (addHeader k v r) = rq_query r" "rq_version (addHeader k v r) = rq_version r"
  "rq_body (addHeader k v r) = rq_body r" "rq_keepAlive (addHeader k v r) = rq_keepAlive r"
  by (simp_all add: addHeader_def)

lemma HttpRequest_new_valid [simp]: "request_valid HttpRequest_new"
  by (simp add: request_valid_def HttpRequest_new_def om_empty_def)

end
