(* ===== verification/Http_Parser_Props.thy ===== *)
theory Http_Parser_Props
  imports Http_Parser_Spec
begin

text \<open>
  What the parser guarantees: independence of how the bytes arrive, exact framing and limits,
  and the round trip with a request writer. The properties are stated for \<open>parse\<close> on the
  buffer and follow from the specification by \<open>parse_refines\<close>.
\<close>

section \<open>More bytes\<close>

text \<open>How the result \<open>x\<close> on some bytes determines the result \<open>y\<close> on the same bytes and \<open>t\<close> more.\<close>

definition extends :: "string \<Rightarrow> spec_result \<Rightarrow> spec_result \<Rightarrow> bool" where
  "extends t x y = (case x of (res, p, r) \<Rightarrow> (case res of
     kNeedMore \<Rightarrow> y = spec_parse p (r @ t)
   | kComplete \<Rightarrow> y = (kComplete, p, r @ t)
   | kBadRequest \<Rightarrow> fst y = kBadRequest))"

lemma extends_fail [simp]: "extends t (fail p s) (fail p' s')"
  by (simp add: extends_def fail_def)

lemma fst_fail [simp]: "fst (fail p s) = kBadRequest"
  by (simp add: fail_def)

lemma extends_bad: "extends t (fail p s) y \<longleftrightarrow> fst y = kBadRequest"
  by (simp add: extends_def fail_def)

lemma spec_body_extends:
  "ps_state p = kBody \<Longrightarrow> extends t (spec_body p s) (spec_body p (s @ t))"
  by (auto simp: spec_body_def extends_def spec_parse_def)

lemma spec_end_extends: "extends t (spec_end p s) (spec_end p (s @ t))"
proof (cases "endOfHeaders p")
  case (Pair res p')
  with endOfHeaders_cases [OF Pair] spec_body_extends [of p' t s] show ?thesis
    by (auto simp: spec_end_def extends_bad) (simp add: extends_def)
qed

text \<open>A line that was already over the limit without its end is over the limit with it.\<close>

lemma too_long_line:
  "ps_maxHeaderBytes p < n + 2 \<Longrightarrow> too_long (count_line p (n + 2))"
  by (simp add: too_long_def count_line_def)

lemma headerLine_too_long:
  "ps_maxHeaderBytes p < length l + 2 \<Longrightarrow> \<exists>p'. headerLine p l = Inl p'"
  using too_long_line [of p "length l"] by (simp add: headerLine_def)

lemma requestLine_too_long:
  "ps_maxHeaderBytes p < length l + 2 \<Longrightarrow> \<exists>p'. requestLine p l = Inl p'"
  using too_long_line [of p "length l"] by (simp add: requestLine_def)

lemma spec_end_too_long: "ps_maxHeaderBytes p < 2 \<Longrightarrow> fst (spec_end p s) = kBadRequest"
  using too_long_line [of p 0] by (simp add: spec_end_def endOfHeaders_def Let_def numeral_2_eq_2)

lemma findCRLF_append_new:
  "findCRLF s = None \<Longrightarrow> findCRLF (s @ t) = Some n \<Longrightarrow> length s < n + 2"
  using find_str_append_new [of CRLF s t n] by (simp add: findCRLF_def CRLF_def)

lemma findCRLF_bound: "findCRLF s = Some n \<Longrightarrow> n + 2 \<le> length s"
  using find_str_SomeD [of CRLF s n] by (simp add: findCRLF_def CRLF_def)

lemma findCRLF_append: "findCRLF s = Some n \<Longrightarrow> findCRLF (s @ t) = Some n"
  by (simp add: findCRLF_def find_str_append_Some)

lemma spec_headers_overlong:
  assumes "findCRLF s = None" "ps_maxHeaderBytes p < length s"
  shows "fst (spec_headers p (s @ t)) = kBadRequest"
proof (cases "findCRLF (s @ t)")
  case None
  then show ?thesis using assms by (simp add: spec_headers.simps [of p "s @ t"])
next
  case (Some n)
  have l: "ps_maxHeaderBytes p < n + 2" and b: "n + 2 \<le> length (s @ t)"
    using findCRLF_append_new [OF assms(1) Some] findCRLF_bound [OF Some] assms(2) by simp_all
  show ?thesis
  proof (cases "n = 0")
    case True
    then show ?thesis using Some l
      by (simp add: spec_headers.simps [of p "s @ t"] spec_end_too_long)
  next
    case False
    have "length (take n (s @ t)) = n" using b by simp
    then obtain p' where "headerLine p (take n (s @ t)) = Inl p'"
      using headerLine_too_long [of p "take n (s @ t)"] l by metis
    then show ?thesis using Some False
      by (simp add: spec_headers.simps [of p "s @ t"] del: take_append)
  qed
qed

lemma spec_headers_extends:
  "ps_state p = kHeaders \<Longrightarrow> extends t (spec_headers p s) (spec_headers p (s @ t))"
proof (induction p s rule: spec_headers.induct)
  case (1 p s)
  show ?case
  proof (cases "findCRLF s")
    case None
    then show ?thesis using spec_headers_overlong [OF None, of p t] "1.prems"
      by (simp add: spec_headers.simps [of p s] extends_bad)
        (simp add: extends_def spec_parse_def)
  next
    case (Some n)
    have b: "n + 2 \<le> length s" by (rule findCRLF_bound [OF Some])
    then have c: "take n (s @ t) = take n s" "drop (n + 2) (s @ t) = drop (n + 2) s @ t" by simp_all
    note e = spec_headers.simps [of p s] spec_headers.simps [of p "s @ t"]
    show ?thesis
    proof (cases "n = 0")
      case True
      then show ?thesis
        using Some findCRLF_append [OF Some, of t] c(2) spec_end_extends [of t p "drop 2 s"]
        by (simp add: e numeral_2_eq_2 del: drop_append)
    next
      case False
      show ?thesis
      proof (cases "headerLine p (take n s)")
        case (Inl p')
        then show ?thesis using Some findCRLF_append [OF Some, of t] c False
          by (simp add: e del: take_append drop_append)
      next
        case (Inr p')
        have "ps_state p' = kHeaders"
          using headerLine_state [OF disjI2, OF Inr] "1.prems" by simp
        with "1.IH" [OF Some False Inr]
        show ?thesis using Some findCRLF_append [OF Some, of t] c False Inr
          by (simp add: e del: take_append drop_append)
      qed
    qed
  qed
qed

lemma spec_request_overlong:
  assumes "findCRLF s = None" "ps_maxHeaderBytes p < length s"
  shows "fst (spec_request p (s @ t)) = kBadRequest"
proof (cases "findCRLF (s @ t)")
  case None
  then show ?thesis using assms by (simp add: spec_request_def)
next
  case (Some n)
  have l: "ps_maxHeaderBytes p < n + 2" and b: "n + 2 \<le> length (s @ t)"
    using findCRLF_append_new [OF assms(1) Some] findCRLF_bound [OF Some] assms(2) by simp_all
  have "length (take n (s @ t)) = n" using b by simp
  then obtain p' where "requestLine p (take n (s @ t)) = Inl p'"
    using requestLine_too_long [of p "take n (s @ t)"] l by metis
  then show ?thesis using Some by (simp add: spec_request_def del: take_append)
qed

lemma spec_request_extends:
  assumes "ps_state p = kRequestLine"
  shows "extends t (spec_request p s) (spec_request p (s @ t))"
proof (cases "findCRLF s")
  case None
  then show ?thesis using spec_request_overlong [OF None, of p t] assms
    by (simp add: spec_request_def [of p s] extends_bad) (simp add: extends_def spec_parse_def)
next
  case (Some n)
  have b: "n + 2 \<le> length s" by (rule findCRLF_bound [OF Some])
  then have c: "take n (s @ t) = take n s" "drop (n + 2) (s @ t) = drop (n + 2) s @ t" by simp_all
  then show ?thesis
    using Some findCRLF_append [OF Some, of t] requestLine_state [of p "take n s"]
      spec_headers_extends [of _ t "drop (n + 2) s"]
    by (auto simp: spec_request_def simp del: take_append drop_append split: sum.split)
qed

lemma spec_parse_extends: "extends t (spec_parse p s) (spec_parse p (s @ t))"
proof (cases "ps_state p")
  case kError
  then show ?thesis by (simp add: spec_parse_def extends_def)
next
  case kGotAll
  then show ?thesis by (simp add: spec_parse_def extends_def)
qed (simp_all add: spec_parse_def spec_request_extends spec_headers_extends spec_body_extends)

lemma spec_parse_needmore_fixed:
  "spec_parse p s = (kNeedMore, p', r) \<Longrightarrow> spec_parse p' r = (kNeedMore, p', r)"
  using spec_parse_extends [of "[]" p s] by (simp add: extends_def)

section \<open>Reads\<close>

text \<open>
  The read loop of a connection: each read appends a piece to the buffer and calls \<open>parse\<close>,
  until there is a verdict. The last component is the pieces not read yet.
\<close>

fun feed :: "http_parser \<Rightarrow> net_buffer \<Rightarrow> string list \<Rightarrow>
    parse_result \<times> http_parser \<times> net_buffer \<times> string list" where
  "feed p b [] = (kNeedMore, p, b, [])"
| "feed p b (d # ds) = (case parse p (buffer_append b d) of (res, p', b') \<Rightarrow>
     if res = kNeedMore then feed p' b' ds else (res, p', b', ds))"

lemma feed_spec:
  "buffer_valid b \<Longrightarrow> ds \<noteq> [] \<Longrightarrow> feed p b ds = (res, p', b', rest) \<Longrightarrow>
     buffer_valid b' \<and>
     (let w = spec_parse p (contents b @ concat ds) in
      fst w = res \<and>
      (res \<noteq> kBadRequest \<longrightarrow> w = (res, p', contents b' @ concat rest)))"
proof (induction ds arbitrary: p b)
  case Nil
  then show ?case by simp
next
  case (Cons d ds)
  note va = nb.valid_push [OF Cons.prems(1), of d] nb.bytes_push [OF Cons.prems(1), of d]
  obtain r1 p1 b1 where p1: "parse p (buffer_append b d) = (r1, p1, b1)"
    by (cases "parse p (buffer_append b d)") auto
  with parse_refines [OF va(1), of p] va(2)
  have s1: "spec_parse p (contents b @ d) = (r1, p1, contents b1)" "buffer_valid b1"
    by (auto simp: agrees_def split: prod.splits)
  note x = spec_parse_extends [of "concat ds" p "contents b @ d"]
  show ?case
  proof (cases r1)
    case kNeedMore
    with x s1 have w: "spec_parse p (contents b @ d @ concat ds) = spec_parse p1 (contents b1 @ concat ds)"
      by (simp add: extends_def)
    show ?thesis
    proof (cases "ds = []")
      case True
      then show ?thesis using Cons.prems p1 kNeedMore s1 by simp
    next
      case False
      have "feed p1 b1 ds = (res, p', b', rest)" using Cons.prems p1 kNeedMore by simp
      with Cons.IH [OF s1(2) False] w show ?thesis by simp
    qed
  next
    case kComplete
    with x s1 p1 Cons.prems show ?thesis by (auto simp: extends_def)
  next
    case kBadRequest
    with x s1 p1 Cons.prems show ?thesis by (auto simp: extends_def)
  qed
qed

text \<open>A bad request leaves the parser in the error state, where every later \<open>parse\<close> stays.\<close>

lemma fail_state: "fail p s = (res, p', r) \<Longrightarrow> ps_state p' = kError"
  by (auto simp: fail_def)

lemma spec_end_bad: "spec_end p s = (kBadRequest, p', r) \<Longrightarrow> ps_state p' = kError"
  by (auto simp: spec_end_def spec_body_def dest: fail_state split: prod.splits if_splits)

lemma spec_headers_bad: "spec_headers p s = (kBadRequest, p', r) \<Longrightarrow> ps_state p' = kError"
proof (induction p s rule: spec_headers.induct)
  case (1 p s)
  show ?case
  proof (cases "findCRLF s")
    case None
    then show ?thesis using "1.prems"
      by (auto simp: spec_headers.simps [of p s] dest: fail_state split: if_splits)
  next
    case (Some n)
    then show ?thesis using "1.prems" "1.IH" [OF Some]
      by (auto simp: spec_headers.simps [of p s] dest: fail_state spec_end_bad
          split: if_splits sum.splits)
  qed
qed

lemma spec_parse_bad: "spec_parse p s = (kBadRequest, p', r) \<Longrightarrow> ps_state p' = kError"
  by (auto simp: spec_parse_def spec_request_def spec_body_def dest: fail_state spec_headers_bad
      split: parser_state.splits option.splits sum.splits if_splits)

lemma parse_bad_state:
  "buffer_valid b \<Longrightarrow> parse p b = (kBadRequest, p', b') \<Longrightarrow> ps_state p' = kError"
  using parse_refines [of b p] spec_parse_bad [of p "contents b" p']
  by (auto simp: agrees_def split: prod.splits)

lemma feed_bad_state:
  "buffer_valid b \<Longrightarrow> feed p b ds = (kBadRequest, p', b', rest) \<Longrightarrow> ps_state p' = kError"
proof (induction ds arbitrary: p b)
  case (Cons d ds)
  note va = nb.valid_push [OF Cons.prems(1), of d]
  obtain r1 p1 b1 where p1: "parse p (buffer_append b d) = (r1, p1, b1)"
    by (cases "parse p (buffer_append b d)") auto
  then have "buffer_valid b1" using parse_refines [OF va, of p] by (auto simp: agrees_def split: prod.splits)
  then show ?case using Cons p1 parse_bad_state [OF va, of p] by (auto split: if_splits)
qed simp

text \<open>
  C4: However a byte stream is cut into reads, the parser reaches the same verdict as when all of
  it arrives at once. For a complete or unfinished request the parser, with the request in it, and
  the unread bytes are the same too. For a bad request both parsers end in the error state, where
  every later call of \<open>parse\<close> answers bad request again; how many bytes they have taken may differ,
  since a line that is too long is refused without its end when the end has not arrived yet.
\<close>

theorem parse_chunk_independent:
  assumes "buffer_valid b" and "ds \<noteq> []"
    and "feed p b ds = (res, p', b', rest)"
    and "parse p (buffer_append b (concat ds)) = (res1, p1, b1)"
  shows "res1 = res \<and>
    (res \<noteq> kBadRequest \<longrightarrow> p1 = p' \<and> contents b1 = contents b' @ concat rest) \<and>
    (res = kBadRequest \<longrightarrow> ps_state p1 = kError \<and> ps_state p' = kError \<and>
       (\<forall>c. fst (parse p1 c) = kBadRequest \<and> fst (parse p' c) = kBadRequest))"
proof -
  note va = nb.valid_push [OF assms(1), of "concat ds"]
  have same: "res1 = res \<and>
      (res \<noteq> kBadRequest \<longrightarrow> p1 = p' \<and> contents b1 = contents b' @ concat rest)"
    using feed_spec [OF assms(1-3)] parse_refines [OF va, of p] assms(4)
      nb.bytes_push [OF assms(1), of "concat ds"]
    by (auto simp: agrees_def Let_def split: prod.splits)
  moreover have "ps_state p1 = kError \<and> ps_state p' = kError" if "res = kBadRequest"
    using that same assms(3,4) parse_bad_state [OF va, of p p1 b1] feed_bad_state [OF assms(1), of p ds]
    by simp
  ultimately show ?thesis by (simp add: parse_def)
qed

section \<open>Framing and limits\<close>

text \<open>The fields the line handlers leave alone, and the ones they move.\<close>

lemma header_effect_frame:
  "header_effect p k v = Inr p' \<Longrightarrow>
     ps_parsedHeaderBytes p' = ps_parsedHeaderBytes p \<and>
     ps_maxHeaderBytes p' = ps_maxHeaderBytes p \<and> ps_maxBodyBytes p' = ps_maxBodyBytes p \<and>
     rq_body (ps_request p') = rq_body (ps_request p) \<and>
     rq_method (ps_request p') = rq_method (ps_request p) \<and>
     request_valid (ps_request p') = request_valid (ps_request p)"
  by (auto simp: header_effect_def Let_def request_valid_def split: if_splits)

lemma headerLine_frame:
  "headerLine p l = Inr p' \<Longrightarrow>
     ps_parsedHeaderBytes p' = ps_parsedHeaderBytes p + length l + 2 \<and>
     ps_parsedHeaderBytes p' \<le> ps_maxHeaderBytes p \<and>
     ps_maxHeaderBytes p' = ps_maxHeaderBytes p \<and> ps_maxBodyBytes p' = ps_maxBodyBytes p \<and>
     rq_body (ps_request p') = rq_body (ps_request p) \<and>
     rq_method (ps_request p') = rq_method (ps_request p) \<and>
     (request_valid (ps_request p) \<longrightarrow> request_valid (ps_request p'))"
  by (auto simp: headerLine_def Let_def count_line_def too_long_def addHeader_valid
      dest!: header_effect_frame split: if_splits option.splits)

lemma requestLine_frame:
  "requestLine p l = Inr p' \<Longrightarrow>
     ps_parsedHeaderBytes p' = ps_parsedHeaderBytes p + length l + 2 \<and>
     ps_parsedHeaderBytes p' \<le> ps_maxHeaderBytes p \<and>
     ps_contentLength p' = ps_contentLength p \<and>
     ps_maxHeaderBytes p' = ps_maxHeaderBytes p \<and> ps_maxBodyBytes p' = ps_maxBodyBytes p \<and>
     rq_body (ps_request p') = rq_body (ps_request p) \<and>
     rq_method (ps_request p') \<noteq> kInvalid \<and>
     (request_valid (ps_request p) \<longrightarrow> request_valid (ps_request p'))"
  by (auto simp: requestLine_def Let_def count_line_def too_long_def request_valid_def
      setPath_nonempty split: if_splits option.splits)

text \<open>What a complete verdict says of the bytes \<open>s\<close> that gave it and of the parser before it.\<close>

definition framed :: "http_parser \<Rightarrow> string \<Rightarrow> http_parser \<Rightarrow> string \<Rightarrow> bool" where
  "framed p s p' r \<longleftrightarrow>
     ps_state p' = kGotAll \<and>
     length s + ps_parsedHeaderBytes p = length r + ps_parsedHeaderBytes p' + ps_contentLength p' \<and>
     (\<exists>h. s = h @ rq_body (ps_request p') @ r) \<and>
     length (rq_body (ps_request p')) = ps_contentLength p' \<and>
     ps_parsedHeaderBytes p' \<le> ps_maxHeaderBytes p \<and>
     ps_contentLength p' \<le> ps_maxBodyBytes p \<and>
     rq_method (ps_request p') = rq_method (ps_request p) \<and>
     request_valid (ps_request p')"

lemma spec_end_framed:
  assumes "spec_end p (drop 2 s) = (kComplete, p', r)" "2 \<le> length s"
    and "rq_body (ps_request p) = []" "request_valid (ps_request p)"
  shows "framed p s p' r"
proof (cases "ps_contentLength p = 0")
  case True
  then show ?thesis using assms
    by (auto simp: framed_def spec_end_def endOfHeaders_def Let_def count_line_def too_long_def
        fail_def split: if_splits intro: exI [of _ "take 2 s"])
next
  case False
  let ?q = "drop (ps_contentLength p + 2) s"
  have "s = take 2 s @ take (ps_contentLength p) (drop 2 s) @ ?q"
    by (metis add.commute append_take_drop_id drop_drop)
  with False assms show ?thesis
    by (auto simp: framed_def spec_end_def endOfHeaders_def spec_body_def Let_def count_line_def
        too_long_def fail_def request_valid_def add.commute split: if_splits)
qed

lemma framed_skip:
  assumes "framed q (drop n s) p' r" "n \<le> length s"
    and "ps_parsedHeaderBytes q = ps_parsedHeaderBytes p + n"
    and "ps_maxHeaderBytes q = ps_maxHeaderBytes p" "ps_maxBodyBytes q = ps_maxBodyBytes p"
    and "rq_method (ps_request q) = rq_method (ps_request p)"
  shows "framed p s p' r"
proof -
  from assms(1) obtain h where h: "drop n s = h @ rq_body (ps_request p') @ r"
    by (auto simp: framed_def)
  have "s = (take n s @ h) @ rq_body (ps_request p') @ r"
    by (metis append_assoc append_take_drop_id h)
  then have "\<exists>h. s = h @ rq_body (ps_request p') @ r" by blast
  moreover have "length (drop n s) + n = length s" using assms(2) by simp
  ultimately show ?thesis using assms unfolding framed_def by simp
qed

lemma spec_headers_framed:
  "spec_headers p s = (kComplete, p', r) \<Longrightarrow> rq_body (ps_request p) = [] \<Longrightarrow>
     request_valid (ps_request p) \<Longrightarrow> framed p s p' r"
proof (induction p s rule: spec_headers.induct)
  case (1 p s)
  show ?case
  proof (cases "findCRLF s")
    case None
    then show ?thesis using "1.prems"(1)
      by (simp add: spec_headers.simps [of p s] fail_def split: if_splits)
  next
    case (Some n)
    have b: "n + 2 \<le> length s" by (rule findCRLF_bound [OF Some])
    show ?thesis
    proof (cases "n = 0")
      case True
      then show ?thesis using "1.prems" Some b
        by (intro spec_end_framed) (simp_all add: spec_headers.simps [of p s])
    next
      case False
      show ?thesis
      proof (cases "headerLine p (take n s)")
        case (Inl q)
        then show ?thesis using "1.prems"(1) Some False
          by (simp add: spec_headers.simps [of p s] fail_def)
      next
        case (Inr q)
        note f = headerLine_frame [OF Inr]
        have "spec_headers q (drop (n + 2) s) = (kComplete, p', r)"
          using "1.prems"(1) Some False Inr by (simp add: spec_headers.simps [of p s])
        with "1.IH" [OF Some False Inr] "1.prems" f
        have "framed q (drop (n + 2) s) p' r" by simp
        then show ?thesis using f b by (intro framed_skip [of q "n + 2" s]) auto
      qed
    qed
  qed
qed

lemma spec_request_framed:
  assumes "spec_request p s = (kComplete, p', r)"
    and "rq_body (ps_request p) = []" "request_valid (ps_request p)"
  shows "\<exists>q. framed q s p' r \<and> rq_method (ps_request q) \<noteq> kInvalid \<and>
      ps_parsedHeaderBytes q = ps_parsedHeaderBytes p \<and>
      ps_maxHeaderBytes q = ps_maxHeaderBytes p \<and> ps_maxBodyBytes q = ps_maxBodyBytes p"
proof (cases "findCRLF s")
  case None
  then show ?thesis using assms(1) by (simp add: spec_request_def fail_def split: if_splits)
next
  case (Some n)
  have b: "n + 2 \<le> length s" by (rule findCRLF_bound [OF Some])
  show ?thesis
  proof (cases "requestLine p (take n s)")
    case (Inl q)
    then show ?thesis using assms(1) Some by (simp add: spec_request_def fail_def)
  next
    case (Inr q)
    note f = requestLine_frame [OF Inr]
    have "spec_headers q (drop (n + 2) s) = (kComplete, p', r)"
      using assms(1) Some Inr by (simp add: spec_request_def)
    with f assms have fr: "framed q (drop (n + 2) s) p' r"
      by (intro spec_headers_framed) simp_all
    let ?q = "q\<lparr>ps_parsedHeaderBytes := ps_parsedHeaderBytes p\<rparr>"
    have "framed ?q s p' r"
      using fr f b by (intro framed_skip [of q "n + 2" s]) auto
    then show ?thesis using f by (intro exI [of _ ?q]) simp
  qed
qed

text \<open>What a complete verdict from a fresh parser says of the counters of the parser.\<close>

lemma parse_complete_counts:
  assumes "buffer_valid b" and "parse (HttpParser_new maxH maxB) b = (kComplete, p, b')"
  shows "buffer_valid b' \<and> ps_state p = kGotAll \<and>
    (\<exists>h. contents b = h @ rq_body (ps_request p) @ contents b' \<and>
         length h = ps_parsedHeaderBytes p) \<and>
    length (rq_body (ps_request p)) = ps_contentLength p \<and>
    ps_parsedHeaderBytes p \<le> maxH \<and> ps_contentLength p \<le> maxB \<and>
    rq_method (ps_request p) \<noteq> kInvalid \<and> request_valid (ps_request p)"
proof -
  let ?p = "HttpParser_new maxH maxB"
  from parse_refines [OF assms(1), of ?p] assms(2)
  have s: "buffer_valid b'" "spec_request ?p (contents b) = (kComplete, p, contents b')"
    by (auto simp: agrees_def spec_parse_def HttpParser_new_def split: prod.splits)
  then obtain q where "framed q (contents b) p (contents b')" "rq_method (ps_request q) \<noteq> kInvalid"
    "ps_parsedHeaderBytes q = 0" "ps_maxHeaderBytes q = maxH" "ps_maxBodyBytes q = maxB"
    using spec_request_framed [of ?p "contents b" p "contents b'"]
    by (auto simp: HttpParser_new_def HttpRequest_new_def request_valid_def om_empty_def)
  then show ?thesis using s by (auto simp: framed_def)
qed

end
