(* ===== verification/Http_Framing.thy ===== *)
theory Http_Framing
  imports Http_Parser_Props
begin

text \<open>
  What a complete request is, read off the bytes alone: the lines up to the first empty one, the
  fields of these lines, and the body that the fields announce. The parser's counters do not
  occur here; \<open>parse_complete_framing\<close> shows that a complete verdict is about exactly these bytes.
\<close>

section \<open>A head as a list of lines\<close>

text \<open>The name of a field line is what stands before the colon, in small letters, the value what follows it.\<close>

definition field :: "string \<Rightarrow> string \<times> string" where
  "field l = (toLower (trim (takeWhile (\<lambda>c. c \<noteq> CHR '':'') l)),
     trim (drop 1 (dropWhile (\<lambda>c. c \<noteq> CHR '':'') l)))"

text \<open>Of fields with one name the last counts.\<close>

definition head_fields :: "string list \<Rightarrow> string \<rightharpoonup> string" where
  "head_fields ls = map_of (rev (map field ls))"

text \<open>A length that does not fit into 64 bits is read as the largest number that does.\<close>

definition announced :: "string option \<Rightarrow> nat" where
  "announced v = (case v of None \<Rightarrow> 0 | Some d \<Rightarrow> min (nat_of_digits d) (2 ^ 64 - 1))"

definition declared_length :: "string list \<Rightarrow> nat" where
  "declared_length ls = announced (head_fields ls ''content-length'')"

lemma head_fields_Nil [simp]: "head_fields [] = Map.empty"
  by (simp add: head_fields_def)

lemma head_fields_Cons: "head_fields (l # ls) = [fst (field l) \<mapsto> snd (field l)] ++ head_fields ls"
  by (simp add: head_fields_def)

section \<open>The parser on these lines\<close>

text \<open>The length the parser goes by is the one its table of headers announces.\<close>

definition length_ok :: "http_parser \<Rightarrow> bool" where
  "length_ok p \<longleftrightarrow> ps_contentLength p = announced (om_get (rq_headers (ps_request p)) ''content-length'')"

lemma headerLine_field:
  assumes "headerLine p l = Inr q"
  shows "om_get (rq_headers (ps_request q)) = (om_get (rq_headers (ps_request p)))(fst (field l) \<mapsto> snd (field l))"
    and "length_ok p \<Longrightarrow> length_ok q" and "CHR '':'' \<in> set l" and "fst (field l) \<noteq> []"
proof -
  obtain n where n: "find_char (CHR '':'') l = Some n"
    using assms by (auto simp: headerLine_def Let_def split: if_splits option.splits)
  have f: "fst (field l) = toLower (trim (substr l 0 n))" "snd (field l) = trim (substr_from l (n + 1))"
    by (simp_all add: field_def find_char_split [OF n] substr_def substr_from_def)
  let ?p = "count_line p (length l + 2)"
  have e: "header_effect (?p\<lparr>ps_request := addHeader (trim (substr l 0 n)) (snd (field l)) (ps_request ?p)\<rparr>)
      (trim (substr l 0 n)) (snd (field l)) = Inr q" and k: "trim (substr l 0 n) \<noteq> []"
    using assms n by (auto simp: headerLine_def f Let_def split: if_splits)
  show "om_get (rq_headers (ps_request q)) = (om_get (rq_headers (ps_request p)))(fst (field l) \<mapsto> snd (field l))"
    using e by (auto simp: header_effect_def count_line_def addHeader_get Let_def f split: if_splits)
  show "length_ok q" if "length_ok p"
    using e that
    by (auto simp: header_effect_def count_line_def addHeader_get Let_def f length_ok_def announced_def
        strtoul_digits split: if_splits)
  show "CHR '':'' \<in> set l" using n nth_mem by (fastforce simp: find_char_Some_iff)
  show "fst (field l) \<noteq> []" using k by (simp add: f)
qed

text \<open>A complete verdict \<open>p', r\<close> about the field lines \<open>ls\<close> and what follows them.\<close>

definition framed_fields :: "http_parser \<Rightarrow> string list \<Rightarrow> string \<Rightarrow> http_parser \<Rightarrow> string \<Rightarrow> bool" where
  "framed_fields p ls rest p' r \<longleftrightarrow>
     om_get (rq_headers (ps_request p')) = om_get (rq_headers (ps_request p)) ++ head_fields ls \<and>
     length_ok p' \<and> ps_contentLength p' \<le> length rest \<and>
     rq_body (ps_request p') = take (ps_contentLength p') rest \<and> r = drop (ps_contentLength p') rest \<and>
     (\<forall>l \<in> set ls. CHR '':'' \<in> set l \<and> fst (field l) \<noteq> [])"

lemma spec_end_fields:
  "spec_end p rest = (kComplete, p', r) \<Longrightarrow> rq_body (ps_request p) = [] \<Longrightarrow> length_ok p \<Longrightarrow>
     framed_fields p [] rest p' r"
  by (auto simp: spec_end_def endOfHeaders_def spec_body_def Let_def count_line_def fail_def
      framed_fields_def length_ok_def split: if_splits)

lemma spec_headers_fields:
  "spec_headers p s = (kComplete, p', r) \<Longrightarrow> rq_body (ps_request p) = [] \<Longrightarrow> length_ok p \<Longrightarrow>
     \<exists>ls rest. read_head s = Some (ls, rest) \<and> framed_fields p ls rest p' r"
proof (induction p s rule: spec_headers.induct)
  case (1 p s)
  obtain n where n: "findCRLF s = Some n"
    using "1.prems"(1) by (auto simp: spec_headers.simps [of p s] fail_def split: option.splits if_splits)
  show ?case
  proof (cases "n = 0")
    case True
    then have "framed_fields p [] (drop 2 s) p' r"
      using "1.prems" n by (intro spec_end_fields) (simp_all add: spec_headers.simps [of p s])
    then show ?thesis using True n by (simp add: read_head.simps [of s] findCRLF_def)
  next
    case False
    then obtain q where q: "headerLine p (take n s) = Inr q"
      using "1.prems"(1) n by (auto simp: spec_headers.simps [of p s] fail_def split: sum.splits)
    note h = headerLine_field [OF q]
    have "spec_headers q (drop (n + 2) s) = (kComplete, p', r)"
      using "1.prems"(1) n False q by (simp add: spec_headers.simps [of p s])
    with "1.IH" [OF n False q] headerLine_frame [OF q] h(2) "1.prems" obtain ls rest where
      l: "read_head (drop (n + 2) s) = Some (ls, rest)" "framed_fields q ls rest p' r" by auto
    have "framed_fields p (take n s # ls) rest p' r"
      using l(2) h by (auto simp: framed_fields_def head_fields_Cons map_add_assoc)
    then show ?thesis using l(1) n False by (simp add: read_head.simps [of s] findCRLF_def)
  qed
qed

text \<open>The request line: the method stands before the first blank.\<close>

lemma requestLine_method:
  assumes "requestLine p l = Inr q"
  shows "starts_with (methodToString (rq_method (ps_request q)) @ '' '') l"
    and "rq_headers (ps_request q) = rq_headers (ps_request p)"
proof -
  obtain n where n: "find_char (CHR '' '') l = Some n"
    using assms by (auto simp: requestLine_def Let_def split: if_splits option.splits)
  have m: "rq_method (ps_request q) = methodFromString (take n l)" "methodFromString (take n l) \<noteq> kInvalid"
    using assms n by (auto simp: requestLine_def substr_def Let_def split: if_splits option.splits)
  have "take n l @ '' '' = take (Suc n) l"
    using n by (simp add: find_char_Some_iff take_Suc_conv_app_nth)
  then show "starts_with (methodToString (rq_method (ps_request q)) @ '' '') l"
    by (metis m methodToString_From starts_with_append append_take_drop_id)
  show "rq_headers (ps_request q) = rq_headers (ps_request p)"
    using assms by (auto simp: requestLine_def count_line_def Let_def split: if_splits option.splits)
qed

text \<open>
  C5: Framing, measured on the bytes alone. When a fresh parser reports a complete request, the
  unread bytes have a head: lines up to the first empty one (\<open>read_head\<close>), a request line that
  begins with one of the three methods and field lines that each have a colon after a name. The
  request holds exactly these fields, the last of each name; its body is as many of the bytes after
  the head as the last Content-Length field announces (none without such a field); all of them had
  arrived, and the buffer keeps exactly what follows the body, which is where the next request
  starts. Head and body are within the configured limits.
\<close>

theorem parse_complete_framing:
  assumes "buffer_valid b" and "parse (HttpParser_new maxH maxB) b = (kComplete, p, b')"
  shows "\<exists>line ls rest. read_head (contents b) = Some (line # ls, rest) \<and>
    starts_with (methodToString (rq_method (ps_request p)) @ '' '') line \<and>
    rq_method (ps_request p) \<noteq> kInvalid \<and>
    (\<forall>l \<in> set ls. CHR '':'' \<in> set l \<and> fst (field l) \<noteq> []) \<and>
    om_get (rq_headers (ps_request p)) = head_fields ls \<and>
    declared_length ls \<le> length rest \<and>
    rq_body (ps_request p) = take (declared_length ls) rest \<and>
    buffer_valid b' \<and> contents b' = drop (declared_length ls) rest \<and>
    length (contents b) \<le> maxH + length rest \<and> declared_length ls \<le> maxB \<and>
    ps_state p = kGotAll \<and> request_valid (ps_request p) \<and>
    ps_contentLength p = declared_length ls \<and>
    ps_parsedHeaderBytes p + length rest = length (contents b)"
proof -
  let ?p = "HttpParser_new maxH maxB" and ?s = "contents b"
  have s: "spec_request ?p ?s = (kComplete, p, contents b')"
    using parse_refines [OF assms(1), of ?p] assms(2)
    by (auto simp: agrees_def spec_parse_def HttpParser_new_def split: prod.splits)
  then obtain n q where q: "findCRLF ?s = Some n" "requestLine ?p (take n ?s) = Inr q"
    "spec_headers q (drop (n + 2) ?s) = (kComplete, p, contents b')"
    by (auto simp: spec_request_def fail_def split: option.splits sum.splits if_splits)
  note f = requestLine_frame [OF q(2)] and m = requestLine_method [OF q(2)]
  have n0: "n \<noteq> 0" using q(2) by (cases n) (auto simp: requestLine_def Let_def split: if_splits)
  have new: "rq_body (ps_request ?p) = []" "rq_headers (ps_request ?p) = om_empty" "ps_contentLength ?p = 0"
    "request_valid (ps_request ?p)" "om_get (om_empty :: (string, string) omap) = Map.empty"
    by (simp_all add: HttpParser_new_def HttpRequest_new_def request_valid_def om_empty_def om_get_def fun_eq_iff)
  have "length_ok q" using f m(2) new by (simp add: length_ok_def announced_def)
  then obtain ls rest where h: "read_head (drop (n + 2) ?s) = Some (ls, rest)"
    and fr: "framed_fields q ls rest p (contents b')"
    using spec_headers_fields [OF q(3)] f new by auto
  have body: "framed q (drop (n + 2) ?s) p (contents b')"
    using spec_headers_framed [OF q(3)] f new by simp
  have len: "ps_contentLength p = declared_length ls"
    using fr m(2) new by (simp add: framed_fields_def length_ok_def declared_length_def)
  note c = parse_complete_counts [OF assms]
  have hd: "read_head ?s = Some (take n ?s # ls, rest)"
    using h q(1) n0 by (simp add: read_head.simps [of ?s] findCRLF_def)
  have meth: "rq_method (ps_request p) = rq_method (ps_request q)"
    using body by (simp add: framed_def)
  have "length ?s = ps_parsedHeaderBytes p + length rest"
  proof -
    have "length ?s = ps_parsedHeaderBytes p + ps_contentLength p + length (contents b')"
      using c by (metis add.assoc length_append)
    then show ?thesis using fr by (simp add: framed_fields_def)
  qed
  then show ?thesis
    using hd m meth fr len c new
    by (intro exI [of _ "take n ?s"] exI [of _ ls] exI [of _ rest]) (simp add: framed_fields_def)
qed

end
