(* ===== verification/Http_Roundtrip.thy ===== *)
theory Http_Roundtrip
  imports Http_Framing
begin

text \<open>
  The parser against a request writer: the text of a request in the wire format of HTTP/1.1 is
  parsed back to that request, and what follows it stays in the buffer.
\<close>

definition write_header :: "string \<times> string \<Rightarrow> string" where
  "write_header h = (case h of (k, v) \<Rightarrow> k @ '': '' @ v @ CRLF)"

definition write_headers :: "(string \<times> string) list \<Rightarrow> string" where
  "write_headers hs = concat (map write_header hs)"

definition length_header :: "string \<Rightarrow> (string \<times> string) list" where
  "length_header body =
     (if body = [] then [] else [(''Content-Length'', string_of_nat (length body))])"

definition write_head ::
    "http_method \<Rightarrow> string \<Rightarrow> string \<Rightarrow> (string \<times> string) list \<Rightarrow> string" where
  "write_head m target version hs =
     methodToString m @ '' '' @ target @ '' '' @ version @ CRLF @ write_headers hs @ CRLF"

definition write_request ::
    "http_method \<Rightarrow> string \<Rightarrow> string \<Rightarrow> (string \<times> string) list \<Rightarrow> string \<Rightarrow> string" where
  "write_request m target version hs body =
     write_head m target version (hs @ length_header body) @ body"

definition built_request ::
    "http_method \<Rightarrow> string \<Rightarrow> string \<Rightarrow> (string \<times> string) list \<Rightarrow> string \<Rightarrow> http_request" where
  "built_request m target version hs body =
     (fold (\<lambda>(k, v). addHeader k v) (hs @ length_header body)
       ((setPath target (HttpRequest_new\<lparr>rq_method := m\<rparr>))
          \<lparr>rq_version := version, rq_keepAlive := (version = ''HTTP/1.1'')\<rparr>))
     \<lparr>rq_body := body\<rparr>"

text \<open>What the writer accepts: names and values that the wire format can carry.\<close>

definition plain_header :: "string \<times> string \<Rightarrow> bool" where
  "plain_header h = (case h of (k, v) \<Rightarrow>
     k \<noteq> [] \<and> \<not> is_blank (hd k) \<and> \<not> is_blank (last k) \<and>
     CHR '':'' \<notin> set k \<and> CHR 0x0D \<notin> set k \<and>
     toLower k \<noteq> ''content-length'' \<and> toLower k \<noteq> ''connection'' \<and>
     CHR 0x0D \<notin> set v \<and> trim v = v)"

definition plain_target :: "string \<Rightarrow> bool" where
  "plain_target t \<longleftrightarrow> CHR '' '' \<notin> set t \<and> CHR 0x0D \<notin> set t"

section \<open>One line\<close>

lemma trim_Cons_blank: "is_blank c \<Longrightarrow> trim (c # s) = trim s"
proof (rule trim_decomp [of s])
  fix l r
  assume c: "is_blank c" and s: "s = l @ trim s @ r"
    and bl: "\<forall>x \<in> set l. is_blank x" "\<forall>x \<in> set r. is_blank x"
    and m: "trim s = [] \<or> \<not> is_blank (hd (trim s)) \<and> \<not> is_blank (last (trim s))"
  show "trim (c # s) = trim s"
  proof (cases "trim s = []")
    case True
    then have "\<forall>x \<in> set s. is_blank x" using s bl by (metis Un_iff append_Nil set_append)
    with c True show ?thesis using trim_blank [of "c # s"] by simp
  next
    case False
    with m c bl have "trim ((c # l) @ trim s @ r) = trim s" by (intro trim_split) auto
    then show ?thesis using s by simp
  qed
qed

lemma headerLine_plain:
  assumes "k \<noteq> []" "\<not> is_blank (hd k)" "\<not> is_blank (last k)" "CHR '':'' \<notin> set k" "trim v = v"
    and "ps_parsedHeaderBytes p + length k + length v + 4 \<le> ps_maxHeaderBytes p"
  shows "headerLine p (k @ '': '' @ v) =
    header_effect ((count_line p (length k + length v + 4))
      \<lparr>ps_request := addHeader k v (ps_request p)\<rparr>) k v"
proof -
  have "find_char (CHR '':'') (k @ CHR '':'' # CHR '' '' # v) = Some (length k)"
    using assms(4) by (rule find_char_append_new)
  moreover have "trim k = k" using assms(1-3) by (intro trim_id) simp
  moreover have "trim (CHR '' '' # v) = v" using assms(5) by (simp add: trim_Cons_blank is_blank_def)
  ultimately show ?thesis
    using assms(1,6)
    by (simp add: headerLine_def too_long_def count_line_def Let_def substr_def substr_from_def
        numeral_eq_Suc)
qed

lemma findCRLF_line: "CHR 0x0D \<notin> set l \<Longrightarrow> findCRLF (l @ CRLF @ r) = Some (length l)"
  by (simp add: findCRLF_def find_str_CRLF_line)

lemma drop_line: "drop (length l + 2) (l @ CRLF @ r) = r"
  by (simp add: CRLF_def)

lemma spec_headers_line:
  assumes "CHR 0x0D \<notin> set l" "l \<noteq> []" "headerLine p l = Inr p'"
  shows "spec_headers p (l @ CRLF @ r) = spec_headers p' r"
  using assms findCRLF_line [OF assms(1), of r] drop_line [of l r]
  by (simp add: spec_headers.simps [of p "l @ CRLF @ r"] del: drop_append)

lemma spec_headers_empty_line: "spec_headers p (CRLF @ r) = spec_end p r"
  using findCRLF_line [of "[]" r] drop_line [of "[]" r]
  by (simp add: spec_headers.simps [of p "CRLF @ r"] numeral_2_eq_2)

section \<open>All headers\<close>

definition after_plain :: "http_parser \<Rightarrow> (string \<times> string) list \<Rightarrow> http_parser" where
  "after_plain p hs =
     (count_line p (length (write_headers hs)))
       \<lparr>ps_request := fold (\<lambda>(k, v). addHeader k v) hs (ps_request p)\<rparr>"

lemma write_headers_simps [simp]:
  "write_headers [] = []"
  "write_headers ((k, v) # hs) = k @ '': '' @ v @ CRLF @ write_headers hs"
  "write_headers (hs @ hs') = write_headers hs @ write_headers hs'"
  by (simp_all add: write_headers_def write_header_def)

lemma spec_headers_plain:
  "\<forall>h \<in> set hs. plain_header h \<Longrightarrow>
     ps_parsedHeaderBytes p + length (write_headers hs) \<le> ps_maxHeaderBytes p \<Longrightarrow>
     spec_headers p (write_headers hs @ r) = spec_headers (after_plain p hs) r"
proof (induction hs arbitrary: p)
  case Nil
  then show ?case by (simp add: after_plain_def count_line_def)
next
  case (Cons h hs)
  obtain k v where h: "h = (k, v)" by (cases h)
  let ?q = "(count_line p (length k + length v + 4))\<lparr>ps_request := addHeader k v (ps_request p)\<rparr>"
  have kv: "plain_header (k, v)" using Cons.prems h by simp
  have "headerLine p (k @ '': '' @ v) = header_effect ?q k v"
    using kv Cons.prems h by (intro headerLine_plain) (auto simp: plain_header_def)
  also have "\<dots> = Inr ?q" using kv by (simp add: header_effect_def plain_header_def)
  finally have l: "headerLine p (k @ '': '' @ v) = Inr ?q" .
  have "spec_headers p ((k @ '': '' @ v) @ CRLF @ write_headers hs @ r)
      = spec_headers ?q (write_headers hs @ r)"
    using kv l by (intro spec_headers_line) (auto simp: plain_header_def)
  also have "\<dots> = spec_headers (after_plain ?q hs) r"
    using Cons.prems h by (intro Cons.IH) (auto simp: count_line_def)
  also have "after_plain ?q hs = after_plain p (h # hs)"
    by (simp add: after_plain_def count_line_def h)
  finally show ?case by (simp add: h)
qed

text \<open>The length header, when there is a body.\<close>

lemma toLower_Content_Length: "toLower ''Content-Length'' = ''content-length''"
  by code_simp

lemma contentLength_same: "ps_contentLength q = n \<Longrightarrow> q\<lparr>ps_contentLength := n\<rparr> = q"
  by (cases q) simp

lemma spec_headers_length:
  assumes "body \<noteq> []" "length body < 2 ^ 64"
    and "ps_parsedHeaderBytes p + length (write_headers (length_header body)) \<le> ps_maxHeaderBytes p"
  shows "spec_headers p (write_headers (length_header body) @ r) =
    spec_headers ((after_plain p (length_header body))\<lparr>ps_contentLength := length body\<rparr>) r"
proof -
  let ?k = "''Content-Length''" and ?v = "string_of_nat (length body)"
  let ?q = "(count_line p (length ?k + length ?v + 4))\<lparr>ps_request := addHeader ?k ?v (ps_request p)\<rparr>"
  have dg: "\<forall>c \<in> set ?v. is_digit c"
    using string_of_nat_digits [of "length body"] by (simp add: list_all_iff)
  then have nb: "\<forall>c \<in> set ?v. \<not> is_blank c \<and> c \<noteq> CHR 0x0D"
    by (force simp: is_digit_def is_blank_def)
  then have "trim ?v = ?v" by (intro trim_id) auto
  then have "headerLine p (?k @ '': '' @ ?v) = header_effect ?q ?k ?v"
    using assms by (intro headerLine_plain) (simp_all add: length_header_def is_blank_def)
  also have "\<dots> = Inr (?q\<lparr>ps_contentLength := length body\<rparr>)"
    using assms(2) by (simp add: header_effect_def toLower_Content_Length strtoul_digits)
  finally have l: "headerLine p (?k @ '': '' @ ?v) = Inr (?q\<lparr>ps_contentLength := length body\<rparr>)" .
  have "spec_headers p ((?k @ '': '' @ ?v) @ CRLF @ r) =
      spec_headers (?q\<lparr>ps_contentLength := length body\<rparr>) r"
    using nb l by (intro spec_headers_line) auto
  moreover have "(after_plain p (length_header body))\<lparr>ps_contentLength := length body\<rparr>
      = ?q\<lparr>ps_contentLength := length body\<rparr>"
    using assms(1) by (simp add: length_header_def after_plain_def count_line_def)
  ultimately show ?thesis using assms(1) by (simp add: length_header_def)
qed

section \<open>The request line\<close>

lemma requestLine_write:
  assumes "m \<noteq> kInvalid" "plain_target t" "version = ''HTTP/1.1'' \<or> version = ''HTTP/1.0''"
    and "ps_parsedHeaderBytes p + length (methodToString m @ '' '' @ t @ '' '' @ version) + 2
      \<le> ps_maxHeaderBytes p"
  shows "requestLine p (methodToString m @ '' '' @ t @ '' '' @ version) =
    Inr ((count_line p (length (methodToString m @ '' '' @ t @ '' '' @ version) + 2))
      \<lparr>ps_request := (setPath t ((ps_request p)\<lparr>rq_method := m\<rparr>))
          \<lparr>rq_version := version, rq_keepAlive := (version = ''HTTP/1.1'')\<rparr>,
       ps_state := kHeaders\<rparr>)"
proof -
  let ?m = "methodToString m" and ?sp = "CHR '' ''"
  have "?sp \<notin> set ?m" by (cases m) (simp_all add: methodToString_def)
  then have f: "find_char ?sp (?m @ ?sp # t @ ?sp # version) = Some (length ?m)"
    by (rule find_char_append_new)
  have "find_char ?sp (t @ ?sp # version) = Some (length t)"
    using assms(2) by (intro find_char_append_new) (simp add: plain_target_def)
  then have g: "find_char_from ?sp (?m @ ?sp # t @ ?sp # version) (length ?m + 1)
      = Some (length ?m + 1 + length t)"
    by (simp add: find_char_from_def)
  have v: "trim version = version" using assms(3) by (intro trim_id) (auto simp: is_blank_def)
  have mm: "methodFromString ?m = m" using assms(1) by (rule methodFromString_ToString)
  show ?thesis
    using f g v mm assms(1,3,4)
    by (auto simp: requestLine_def too_long_def count_line_def Let_def substr_def substr_from_def)
qed

lemma spec_request_line:
  assumes "CHR 0x0D \<notin> set l" "requestLine p l = Inr p'"
  shows "spec_request p (l @ CRLF @ r) = spec_headers p' r"
  using assms findCRLF_line [OF assms(1), of r] drop_line [of l r]
  by (simp add: spec_request_def del: drop_append)

section \<open>The round trip\<close>

lemma length_write_head:
  "length (write_head m t version hs) =
     length (methodToString m @ '' '' @ t @ '' '' @ version) + 2 + length (write_headers hs) + 2"
  by (simp add: write_head_def)

lemma method_no_CR: "CHR 0x0D \<notin> set (methodToString m)"
  by (cases m) (simp_all add: methodToString_def)

lemma fold_addHeader_body [simp]:
  "rq_body (fold (\<lambda>(k, v). addHeader k v) hs r) = rq_body r"
  by (induction hs arbitrary: r) (auto simp: case_prod_beta)

lemma spec_headers_all:
  assumes "\<forall>h \<in> set hs. plain_header h" "length body < 2 ^ 64" "ps_contentLength p = 0"
    and "ps_parsedHeaderBytes p + length (write_headers (hs @ length_header body)) \<le> ps_maxHeaderBytes p"
  shows "spec_headers p (write_headers (hs @ length_header body) @ r) =
    spec_headers ((after_plain p (hs @ length_header body))\<lparr>ps_contentLength := length body\<rparr>) r"
proof (cases "body = []")
  case True
  have "ps_contentLength (after_plain p hs) = 0"
    using assms(3) by (simp add: after_plain_def count_line_def)
  then have "(after_plain p hs)\<lparr>ps_contentLength := 0\<rparr> = after_plain p hs"
    by (rule contentLength_same)
  then show ?thesis using True assms spec_headers_plain [of hs p r]
    by (simp add: length_header_def)
next
  case False
  have "spec_headers p (write_headers hs @ write_headers (length_header body) @ r) =
      spec_headers (after_plain p hs) (write_headers (length_header body) @ r)"
    using assms by (intro spec_headers_plain) auto
  also have "\<dots> = spec_headers ((after_plain (after_plain p hs) (length_header body))
      \<lparr>ps_contentLength := length body\<rparr>) r"
    using assms False by (intro spec_headers_length) (auto simp: after_plain_def count_line_def)
  also have "after_plain (after_plain p hs) (length_header body) = after_plain p (hs @ length_header body)"
    by (simp add: after_plain_def count_line_def)
  finally show ?thesis by simp
qed

lemma spec_request_write:
  assumes "m \<noteq> kInvalid" "plain_target t" "version = ''HTTP/1.1'' \<or> version = ''HTTP/1.0''"
    and "\<forall>h \<in> set hs. plain_header h"
    and "length (write_head m t version (hs @ length_header body)) \<le> maxH"
    and "length body \<le> maxB" "length body < 2 ^ 64"
  shows "\<exists>p. spec_request (HttpParser_new maxH maxB) (write_request m t version hs body @ r)
      = (kComplete, p, r) \<and>
    takeRequest p = (built_request m t version hs body, HttpParser_new maxH maxB)"
proof -
  let ?l = "methodToString m @ '' '' @ t @ '' '' @ version"
  let ?hs = "hs @ length_header body"
  define p0 where "p0 = HttpParser_new maxH maxB"
  define p1 where "p1 = (count_line p0 (length ?l + 2))
      \<lparr>ps_request := (setPath t ((ps_request p0)\<lparr>rq_method := m\<rparr>))
          \<lparr>rq_version := version, rq_keepAlive := (version = ''HTTP/1.1'')\<rparr>,
       ps_state := kHeaders\<rparr>"
  define p2 where "p2 = (after_plain p1 ?hs)\<lparr>ps_contentLength := length body\<rparr>"
  have len: "length ?l + 2 + length (write_headers ?hs) + 2 \<le> maxH"
    using assms(5) unfolding length_write_head .
  have cr: "CHR 0x0D \<notin> set ?l"
    using assms(2,3) method_no_CR [of m] by (auto simp: plain_target_def)
  have l1: "requestLine p0 ?l = Inr p1"
    unfolding p1_def using assms(1-3) len
    by (intro requestLine_write) (auto simp: p0_def HttpParser_new_def)
  have "spec_request p0 (?l @ CRLF @ write_headers ?hs @ CRLF @ body @ r)
      = spec_headers p1 (write_headers ?hs @ CRLF @ body @ r)"
    by (rule spec_request_line [OF cr l1])
  also have "\<dots> = spec_headers p2 (CRLF @ body @ r)"
    unfolding p2_def using assms(4,7) len
    by (intro spec_headers_all) (auto simp: p1_def p0_def HttpParser_new_def count_line_def)
  also have "\<dots> = spec_end p2 (body @ r)" by (rule spec_headers_empty_line)
  finally have e: "spec_request p0 (write_request m t version hs body @ r) = spec_end p2 (body @ r)"
    by (simp add: write_request_def write_head_def)
  have pb: "ps_parsedHeaderBytes p2 + 2 \<le> maxH" "ps_maxHeaderBytes p2 = maxH"
    "ps_maxBodyBytes p2 = maxB" "ps_contentLength p2 = length body" "rq_body (ps_request p2) = []"
    using len by (auto simp: p2_def p1_def p0_def HttpParser_new_def after_plain_def count_line_def
        HttpRequest_new_def)
  have rq: "(ps_request p2)\<lparr>rq_body := body\<rparr> = built_request m t version hs body"
    by (simp add: p2_def p1_def p0_def HttpParser_new_def after_plain_def count_line_def
        built_request_def)
  have rs: "parser_reset (p\<lparr>ps_request := q, ps_state := st\<rparr>) = parser_reset p" for p q st
    by (simp add: parser_reset_def)
  have r2: "parser_reset (count_line p2 2) = p0"
    by (simp add: p2_def p1_def p0_def HttpParser_new_def after_plain_def count_line_def
        parser_reset_def)
  show ?thesis
  proof (cases "body = []")
    case True
    have "(ps_request p2)\<lparr>rq_body := []\<rparr> = ps_request p2" using pb(5) by simp
    then have "ps_request p2 = built_request m t version hs body" using rq True by simp
    then show ?thesis using e pb True r2
      by (auto simp: spec_end_def endOfHeaders_def too_long_def Let_def takeRequest_def
          parser_reset_def simp flip: p0_def) (simp_all add: count_line_def)
  next
    case False
    then show ?thesis using e pb rq r2 assms(6)
      by (auto simp: spec_end_def endOfHeaders_def too_long_def Let_def takeRequest_def
          spec_body_def parser_reset_def simp flip: p0_def) (simp_all add: count_line_def)
  qed
qed

lemma parse_written:
  assumes "buffer_valid b" and "contents b = write_request m t version hs body @ rest"
    and "m \<noteq> kInvalid" "plain_target t" "version = ''HTTP/1.1'' \<or> version = ''HTTP/1.0''"
    and "\<forall>h \<in> set hs. plain_header h"
    and "length (write_head m t version (hs @ length_header body)) \<le> maxH"
    and "length body \<le> maxB" "length body < 2 ^ 64"
  shows "\<exists>p b'. parse (HttpParser_new maxH maxB) b = (kComplete, p, b') \<and>
    buffer_valid b' \<and> contents b' = rest \<and>
    takeRequest p = (built_request m t version hs body, HttpParser_new maxH maxB)"
proof -
  let ?p = "HttpParser_new maxH maxB"
  obtain p where p: "spec_request ?p (contents b) = (kComplete, p, rest)"
    "takeRequest p = (built_request m t version hs body, ?p)"
    using spec_request_write [OF assms(3-9), of rest] assms(2) by auto
  have "spec_parse ?p (contents b) = (kComplete, p, rest)"
    using p(1) by (simp add: spec_parse_def HttpParser_new_def)
  then show ?thesis
    using p(2) parse_refines [OF assms(1), of ?p] by (auto simp: agrees_def split: prod.splits)
qed

text \<open>
  C7: A request written in wire format (any of the three methods, any header fields that do not
  contain line ends, a body announced by Content-Length, within the limits) and followed by any
  bytes is parsed completely; taking it gives back exactly that request and a fresh parser, and
  the bytes that follow stay in the buffer for the next request.
\<close>

theorem parse_write_request:
  assumes "buffer_valid b" and "contents b = write_request m t version hs body @ rest"
    and "m \<noteq> kInvalid" "plain_target t" "version = ''HTTP/1.1'' \<or> version = ''HTTP/1.0''"
    and "\<forall>h \<in> set hs. plain_header h"
    and "length (write_head m t version (hs @ length_header body)) \<le> maxH"
    and "length body \<le> maxB" "length body < 2 ^ 64"
  shows "\<exists>p b'. parse (HttpParser_new maxH maxB) b = (kComplete, p, b') \<and>
    buffer_valid b' \<and> contents b' = rest \<and>
    takeRequest p = (built_request m t version hs body, HttpParser_new maxH maxB)"
  using assms by (rule parse_written)

section \<open>Instances\<close>

definition sample_headers :: "(string \<times> string) list" where
  "sample_headers = [(''Host'', ''localhost''), (''Accept'', ''*/*'')]"

definition sample_text :: string where
  "sample_text = write_request kPost ''/submit?x=1'' ''HTTP/1.1'' sample_headers ''abc''"

lemma sample_plain: "\<forall>h \<in> set sample_headers. plain_header h"
proof -
  have "toLower ''Host'' = ''host''" "toLower ''Accept'' = ''accept''" by code_simp+
  moreover have "trim ''localhost'' = ''localhost''" "trim ''*/*'' = ''*/*''"
    by (intro trim_id; simp add: is_blank_def)+
  ultimately show ?thesis by (simp add: sample_headers_def plain_header_def is_blank_def)
qed

lemma sample_head_length:
  "length (write_head kPost ''/submit?x=1'' ''HTTP/1.1'' (sample_headers @ length_header ''abc'')) \<le> 8192"
  unfolding length_write_head
  by (simp add: sample_headers_def length_header_def string_of_nat.simps methodToString_def)

lemma sample_spec:
  "\<exists>p. spec_parse (HttpParser_new 8192 1024) (sample_text @ r) = (kComplete, p, r)"
  using spec_request_write [of kPost "''/submit?x=1''" "''HTTP/1.1''" sample_headers "''abc''" 8192 1024 r]
    sample_plain sample_head_length
  by (auto simp: sample_text_def spec_parse_def HttpParser_new_def plain_target_def)

lemma sample_parse:
  "\<exists>p b'. parse (HttpParser_new 8192 1024) (buffer_append (buffer_new 0) (sample_text @ ''GET'')) =
     (kComplete, p, b') \<and> contents b' = ''GET''"
  using sample_spec [of "''GET''"] parse_refines [of "buffer_append (buffer_new 0) (sample_text @ ''GET'')"
      "HttpParser_new 8192 1024"] nb.valid_push [of "buffer_new 0" "sample_text @ ''GET''"]
    nb.bytes_push [of "buffer_new 0" "sample_text @ ''GET''"]
  by (auto simp: agrees_def split: prod.splits)

theorem parse_chunk_independent_witness:
  "fst (feed (HttpParser_new 8192 1024) (buffer_new 0)
     [take 7 sample_text, drop 7 sample_text @ ''G'', ''ET'']) = kComplete"
proof -
  let ?p = "HttpParser_new 8192 1024"
  let ?ds = "[take 7 sample_text, drop 7 sample_text @ ''G'', ''ET'']"
  obtain res p' b' rest where f: "feed ?p (buffer_new 0) ?ds = (res, p', b', rest)"
    by (cases "feed ?p (buffer_new 0) ?ds") auto
  have c: "concat ?ds = sample_text @ ''GET''"
    by (simp flip: append_assoc)
  obtain p1 b1 where w: "parse ?p (buffer_append (buffer_new 0) (concat ?ds)) = (kComplete, p1, b1)"
    using sample_parse unfolding c by blast
  show ?thesis
    using parse_chunk_independent [OF buffer_new_valid _ f w] f by simp
qed

theorem parse_complete_framing_witness:
  "\<exists>p b' line ls rest. parse (HttpParser_new 8192 1024)
       (buffer_append (buffer_new 0) (sample_text @ ''GET'')) = (kComplete, p, b') \<and>
     read_head (sample_text @ ''GET'') = Some (line # ls, rest) \<and>
     rq_body (ps_request p) = take (declared_length ls) rest \<and>
     contents b' = drop (declared_length ls) rest \<and> contents b' = ''GET''"
proof -
  obtain p b' where w: "parse (HttpParser_new 8192 1024)
      (buffer_append (buffer_new 0) (sample_text @ ''GET'')) = (kComplete, p, b')" "contents b' = ''GET''"
    using sample_parse by blast
  have c: "contents (buffer_append (buffer_new 0) (sample_text @ ''GET'')) = sample_text @ ''GET''"
    using nb.bytes_push [of "buffer_new 0" "sample_text @ ''GET''"] by simp
  show ?thesis
    using parse_complete_framing [OF nb.valid_push [OF buffer_new_valid] w(1)] w unfolding c by blast
qed

theorem parse_write_request_witness:
  "\<exists>p b'. parse (HttpParser_new 8192 1024)
      (buffer_append (buffer_new 0) (sample_text @ sample_text)) = (kComplete, p, b') \<and>
    contents b' = sample_text \<and>
    fst (takeRequest p) = built_request kPost ''/submit?x=1'' ''HTTP/1.1'' sample_headers ''abc''"
  using parse_write_request [of "buffer_append (buffer_new 0) (sample_text @ sample_text)" kPost
      "''/submit?x=1''" "''HTTP/1.1''" sample_headers "''abc''" sample_text 8192 1024]
    nb.valid_push [of "buffer_new 0" "sample_text @ sample_text"]
    nb.bytes_push [of "buffer_new 0" "sample_text @ sample_text"]
    sample_plain sample_head_length
  by (auto simp: sample_text_def plain_target_def)

end
