(* ===== verification/Http_Response.thy ===== *)
theory Http_Response
  imports Ordered_Map
begin

text \<open>
  \<open>http/HttpResponse\<close> and \<open>util/FileBody\<close>: the response record, its header map, the
  serialisation and the ready-made error responses. The \<open>Date\<close> header comes from the clock, so
  \<open>serialize\<close> takes its text as an argument. The reader at the end is the receiving side's
  view, used to state that a serialised response is framed correctly.
\<close>

record file_body =
  fb_fd :: int
  fb_offset :: nat
  fb_length :: nat

record http_response =
  rs_statusCode :: int
  rs_statusMessage :: string
  rs_headers :: "(string, string) omap"
  rs_body :: string
  rs_fileBody :: "file_body option"
  rs_closeConnection :: bool

definition HttpResponse_new :: "bool \<Rightarrow> http_response" where
  "HttpResponse_new closeConnection =
     \<lparr>rs_statusCode = 200, rs_statusMessage = ''OK'', rs_headers = om_empty, rs_body = [],
      rs_fileBody = None, rs_closeConnection = closeConnection\<rparr>"

definition setStatus :: "int \<Rightarrow> string \<Rightarrow> http_response \<Rightarrow> http_response" where
  "setStatus code message r = r\<lparr>rs_statusCode := code, rs_statusMessage := message\<rparr>"

definition setHeader :: "string \<Rightarrow> string \<Rightarrow> http_response \<Rightarrow> http_response" where
  "setHeader key val r = r\<lparr>rs_headers := om_put key val (rs_headers r)\<rparr>"

definition setContentType :: "string \<Rightarrow> http_response \<Rightarrow> http_response" where
  "setContentType type r = setHeader ''Content-Type'' type r"

definition setBody :: "string \<Rightarrow> http_response \<Rightarrow> http_response" where
  "setBody body r = r\<lparr>rs_body := body\<rparr>"

definition setFileBody :: "file_body \<Rightarrow> http_response \<Rightarrow> http_response" where
  "setFileBody f r = r\<lparr>rs_fileBody := Some f\<rparr>"

definition hasFileBody :: "http_response \<Rightarrow> bool" where
  "hasFileBody r \<longleftrightarrow> rs_fileBody r \<noteq> None"

definition setCloseConnection :: "bool \<Rightarrow> http_response \<Rightarrow> http_response" where
  "setCloseConnection on r = r\<lparr>rs_closeConnection := on\<rparr>"

text \<open>\<open>header(key)\<close>: the exact key first, then the first key in map order that is equal up to case.\<close>

fun find_ci :: "string \<Rightarrow> (string, string) omap \<Rightarrow> string" where
  "find_ci key [] = []"
| "find_ci key ((k, v) # m) =
     (if length k = length key \<and> toLower k = toLower key then v else find_ci key m)"

definition response_header :: "http_response \<Rightarrow> string \<Rightarrow> string" where
  "response_header r key = (case om_get (rs_headers r) key of
     Some v \<Rightarrow> v
   | None \<Rightarrow> find_ci key (rs_headers r))"

section \<open>Serialisation\<close>

definition header_field :: "string \<times> string \<Rightarrow> string" where
  "header_field item = fst item @ '': '' @ snd item @ CRLF"

definition serialize :: "string \<Rightarrow> bool \<Rightarrow> http_response \<Rightarrow> string" where
  "serialize date includeBody r =
     ''HTTP/1.1 '' @ string_of_int (rs_statusCode r) @ '' '' @ rs_statusMessage r @ CRLF @
     ''Server: MyselfWebServer'' @ CRLF @
     ''Date: '' @ date @ CRLF @
     concat (map header_field (rs_headers r)) @
     (if om_get (rs_headers r) ''Content-Length'' = None
      then ''Content-Length: '' @ string_of_nat (length (rs_body r)) @ CRLF else []) @
     (if rs_closeConnection r then ''Connection: close'' @ CRLF
      else ''Connection: keep-alive'' @ CRLF) @
     CRLF @
     (if includeBody then rs_body r else [])"

section \<open>Ready-made responses\<close>

definition makeError :: "int \<Rightarrow> string \<Rightarrow> http_response" where
  "makeError code message =
     setBody (''<html><body><h1>'' @ string_of_int code @ '' '' @ message @ ''</h1></body></html>'')
       (setContentType ''text/html; charset=utf-8''
         (setStatus code message (HttpResponse_new True)))"

definition notFound :: http_response where
  "notFound = makeError 404 ''Not Found''"

definition badRequest :: "string \<Rightarrow> http_response" where
  "badRequest reason = makeError 400 (if reason = [] then ''Bad Request'' else reason)"

definition payloadTooLarge :: http_response where
  "payloadTooLarge = makeError 413 ''Payload Too Large''"

definition serviceUnavailable :: http_response where
  "serviceUnavailable =
     setBody (''server is at connection limit, please retry later'' @ [CHR 0x0A])
       (setContentType ''text/plain; charset=utf-8''
         (setStatus 503 ''Service Unavailable'' (HttpResponse_new True)))"

definition tooManyRequests :: "int \<Rightarrow> http_response" where
  "tooManyRequests retryAfterSeconds =
     setBody (''too many requests, please retry after '' @ string_of_int retryAfterSeconds @
         '' second(s)'' @ [CHR 0x0A])
       (setHeader ''Retry-After'' (string_of_int retryAfterSeconds)
         (setContentType ''text/plain; charset=utf-8''
           (setStatus 429 ''Too Many Requests'' (HttpResponse_new False))))"

text \<open>A JSON object with two string members, quotes included.\<close>

definition error_json :: "string \<Rightarrow> string \<Rightarrow> string" where
  "error_json err message =
     ''{'' @ DQ @ ''error'' @ DQ @ '':'' @ DQ @ err @ DQ @ '','' @ DQ @ ''message'' @ DQ @ '':'' @
     DQ @ message @ DQ @ ''}'' @ [CHR 0x0A]"

definition badGateway :: "string \<Rightarrow> http_response" where
  "badGateway reason =
     setBody (error_json ''bad_gateway'' (if reason = [] then ''Bad Gateway'' else reason))
       (setContentType ''application/json; charset=utf-8''
         (setStatus 502 ''Bad Gateway'' (HttpResponse_new True)))"

definition gatewayTimeout :: "string \<Rightarrow> http_response" where
  "gatewayTimeout reason =
     setBody (error_json ''gateway_timeout'' (if reason = [] then ''Gateway Timeout'' else reason))
       (setContentType ''application/json; charset=utf-8''
         (setStatus 504 ''Gateway Timeout'' (HttpResponse_new True)))"

section \<open>Setters\<close>

lemmas response_setters =
  setStatus_def setHeader_def setContentType_def setBody_def setFileBody_def setCloseConnection_def

lemma setHeader_get: "om_get (rs_headers (setHeader k v r)) = (om_get (rs_headers r))(k \<mapsto> v)"
  by (simp add: setHeader_def om_get_put)

lemma response_header_set_same: "response_header (setHeader k v r) k = v"
  by (simp add: response_header_def setHeader_get)

lemma error_status [simp]:
  "rs_statusCode notFound = 404" "rs_statusCode (badRequest x) = 400"
  "rs_statusCode payloadTooLarge = 413" "rs_statusCode serviceUnavailable = 503"
  "rs_statusCode (tooManyRequests n) = 429" "rs_statusCode (badGateway x) = 502"
  "rs_statusCode (gatewayTimeout x) = 504"
  by (simp_all add: notFound_def badRequest_def payloadTooLarge_def serviceUnavailable_def
      tooManyRequests_def badGateway_def gatewayTimeout_def makeError_def response_setters
      HttpResponse_new_def)

section \<open>The receiving side\<close>

text \<open>The lines of a head, for the reader \<open>read_head\<close> of the prelude.\<close>

definition response_lines :: "string \<Rightarrow> http_response \<Rightarrow> string list" where
  "response_lines date r =
     [''HTTP/1.1 '' @ string_of_int (rs_statusCode r) @ '' '' @ rs_statusMessage r,
      ''Server: MyselfWebServer'', ''Date: '' @ date] @
     map (\<lambda>(k, v). k @ '': '' @ v) (rs_headers r) @
     (if om_get (rs_headers r) ''Content-Length'' = None
      then [''Content-Length: '' @ string_of_nat (length (rs_body r))] else []) @
     [if rs_closeConnection r then ''Connection: close'' else ''Connection: keep-alive'']"

lemma serialize_lines:
  "serialize date includeBody r =
     concat (map (\<lambda>l. l @ CRLF) (response_lines date r)) @ CRLF @ (if includeBody then rs_body r else [])"
  by (simp add: serialize_def response_lines_def header_field_def [abs_def] case_prod_beta comp_def)

definition one_line :: "string \<Rightarrow> bool" where
  "one_line s \<longleftrightarrow> CHR 0x0D \<notin> set s"

definition response_one_line :: "http_response \<Rightarrow> bool" where
  "response_one_line r \<longleftrightarrow> one_line (rs_statusMessage r) \<and>
     (\<forall>(k, v) \<in> set (rs_headers r). one_line k \<and> one_line v)"

lemma digits_one_line: "list_all is_digit s \<Longrightarrow> one_line s"
  by (auto simp: one_line_def list_all_iff is_digit_def)

lemma string_of_nat_one_line [simp]: "one_line (string_of_nat n)"
  by (rule digits_one_line) (rule string_of_nat_digits)

lemma string_of_int_one_line [simp]: "one_line (string_of_int i)"
  using string_of_nat_one_line by (simp add: string_of_int_def one_line_def)

lemma response_lines_ok:
  "one_line date \<Longrightarrow> response_one_line r \<Longrightarrow>
     l \<in> set (response_lines date r) \<Longrightarrow> CHR 0x0D \<notin> set l \<and> l \<noteq> []"
  using string_of_nat_one_line [of "length (rs_body r)"] string_of_int_one_line [of "rs_statusCode r"]
  by (auto simp: response_lines_def response_one_line_def one_line_def split: if_splits)

lemma tooManyRequests_one_line: "response_one_line (tooManyRequests n)"
proof -
  have "rs_headers (tooManyRequests n) =
      [(''Content-Type'', ''text/plain; charset=utf-8''), (''Retry-After'', string_of_int n)]"
    by (simp add: tooManyRequests_def response_setters HttpResponse_new_def om_empty_def
        less_char_def)
  moreover have "rs_statusMessage (tooManyRequests n) = ''Too Many Requests''"
    by (simp add: tooManyRequests_def response_setters)
  ultimately show ?thesis by (simp add: response_one_line_def) (simp add: one_line_def)
qed

text \<open>
  C8: A receiver that reads header lines up to the first empty line gets back exactly the status
  line, the server, date and stored header fields in map order, one length line unless one was
  set, and the connection line; what follows is the body, or nothing when the body is left out
  as for HEAD.
\<close>

theorem serialize_framing:
  assumes "one_line date" "response_one_line r"
  shows "read_head (serialize date includeBody r) =
    Some (response_lines date r, if includeBody then rs_body r else [])"
  unfolding serialize_lines
  by (rule read_head_lines) (use response_lines_ok [OF assms] in blast)

theorem serialize_framing_witness:
  "read_head (serialize ''Sun, 06 Nov 1994 08:49:37 GMT'' True (tooManyRequests 1)) =
     Some (response_lines ''Sun, 06 Nov 1994 08:49:37 GMT'' (tooManyRequests 1),
       rs_body (tooManyRequests 1))"
  using serialize_framing [of "''Sun, 06 Nov 1994 08:49:37 GMT''" "tooManyRequests 1" True]
    tooManyRequests_one_line by (simp add: one_line_def)

end
