(* ===== verification/Http_Date_Props.thy ===== *)
theory Http_Date_Props
  imports Http_Date
begin

text \<open>
  The calendar arithmetic of \<open>parseHttpDate\<close> against the calendar itself, and the round trip of
  the \<open>Last-Modified\<close> date through a client.
\<close>

section \<open>Counting days\<close>

text \<open>The days before 1 March of a year, without the era split of the code.\<close>

definition march_days :: "int \<Rightarrow> int" where
  "march_days a = 365 * a + a div 4 - a div 100 + a div 400"

lemma era_split:
  fixes a :: int
  shows "a div 400 * 146097 + (a mod 400) * 365 + (a mod 400) div 4 - (a mod 400) div 100
      = march_days a"
proof -
  have a: "a = a mod 400 + 400 * (a div 400)" by simp
  have "a div 4 = (a mod 400 + 4 * (100 * (a div 400))) div 4"
    "a div 100 = (a mod 400 + 100 * (4 * (a div 400))) div 100"
    using a by (simp_all add: algebra_simps)
  then have "a div 4 = 100 * (a div 400) + a mod 400 div 4"
    "a div 100 = 4 * (a div 400) + a mod 400 div 100"
    by (simp_all only: div_mult_self2 numeral_neq_zero not_False_eq_True add.commute)
  with a show ?thesis unfolding march_days_def by linarith
qed

lemma floor_era: "c_div (if 0 \<le> a then a else a - 399) 400 = a div 400"
proof (cases "0 \<le> a")
  case True
  then show ?thesis by (simp add: c_div_nonneg)
next
  case False
  define q where "q = a div 400"
  define r where "r = a mod 400"
  have a: "a = r + 400 * q" by (simp add: q_def r_def)
  have r: "0 \<le> r" "r < 400" by (simp_all add: r_def)
  have "(399 - a) div 400 = (399 - r + 400 * (- q)) div 400" by (simp add: a)
  also have "\<dots> = - q + (399 - r) div 400" by (rule div_mult_self2) simp
  also have "(399 - r) div 400 = 0" using r by (intro div_pos_pos_trivial) simp_all
  finally show ?thesis using False by (simp add: c_div_neg flip: q_def)
qed

text \<open>The value of the code's formula in closed form.\<close>

lemma days_from_civil_eq:
  "days_from_civil y m d =
     march_days (y - (if m \<le> 2 then 1 else 0)) +
     (153 * (if 2 < m then m - 3 else m + 9) + 2) div 5 + d - 719469"
proof -
  let ?a = "y - (if m \<le> 2 then 1 else 0)"
  have r: "?a - ?a div 400 * 400 = ?a mod 400" by (rule minus_div_mult_eq_mod)
  have "0 \<le> ?a mod 400" "?a mod 400 < 400" by simp_all
  then have u: "(?a mod 400) mod 2 ^ 32 = ?a mod 400" by simp
  show ?thesis
    unfolding days_from_civil_def Let_def floor_era r u
    using era_split [of ?a] by linarith
qed

lemma div_step: "0 < k \<Longrightarrow> (a + 1) div k = a div k + (if k dvd (a + 1) then 1 else (0::int))"
proof (cases "k dvd (a + 1)")
  case True
  assume k: "0 < k"
  from True obtain q where q: "a + 1 = k * q" by auto
  then have "a = k * (q - 1) + (k - 1)" by (simp add: algebra_simps)
  then have "a div k = q - 1" using k by (metis add.commute add_0 diff_less_eq div_mult_self2
        div_pos_pos_trivial less_add_one less_iff_diff_less_0 linorder_not_less order_less_irrefl
        zle_diff1_eq)
  then show ?thesis using q k by simp
next
  case False
  assume k: "0 < k"
  have "a mod k \<noteq> k - 1" using False by (metis add.commute diff_add_cancel dvd_eq_mod_eq_0
        mod_add_left_eq mod_self uminus_add_conv_diff add_diff_cancel)
  then have "a mod k + 1 < k" using k pos_mod_bound [of k a] by linarith
  moreover have "a + 1 = k * (a div k) + (a mod k + 1)" by simp
  ultimately have "(a + 1) div k = a div k" using k
    by (metis add_increasing2 div_pos_pos_trivial div_mult_self4 add.right_neutral add.commute
        pos_mod_sign zero_le_one less_imp_neq)
  then show ?thesis using False by simp
qed

lemma march_days_Suc: "march_days (a + 1) = march_days a + (if leap (a + 1) then 366 else 365)"
proof -
  define b where "b = a + 1"
  define x y z where "x = a div 4" and "y = a div 100" and "z = a div 400"
  have d: "b div 4 = x + (if 4 dvd b then 1 else 0)" "b div 100 = y + (if 100 dvd b then 1 else 0)"
    "b div 400 = z + (if 400 dvd b then 1 else 0)"
    unfolding b_def x_def y_def z_def by (rule div_step; simp)+
  have "100 dvd b \<Longrightarrow> 4 dvd b" "400 dvd b \<Longrightarrow> 100 dvd b"
    by (rule dvd_trans [of _ 100], simp, assumption) (rule dvd_trans [of _ 400], simp, assumption)
  then show ?thesis
    unfolding march_days_def leap_def b_def [symmetric] d x_def [symmetric] y_def [symmetric]
      z_def [symmetric]
    by (cases "4 dvd b"; cases "100 dvd b"; cases "400 dvd b") (simp_all add: b_def)
qed

text \<open>The first day of the next month and of the next year.\<close>

lemma next_month:
  assumes "m < 11"
  shows "days_from_civil y (int m + 2) 1 = days_from_civil y (int m + 1) 1 + int (month_days y m)"
proof -
  have "m = 0 \<or> m = 1 \<or> m = 2 \<or> m = 3 \<or> m = 4 \<or> m = 5 \<or> m = 6 \<or> m = 7 \<or> m = 8 \<or> m = 9 \<or> m = 10"
    using assms by arith
  moreover have "march_days y = march_days (y - 1) + (if leap y then 366 else 365)"
    using march_days_Suc [of "y - 1"] by simp
  ultimately show ?thesis
    by (elim disjE) (simp_all add: days_from_civil_eq month_days_def)
qed

lemma next_year: "days_from_civil (y + 1) 1 1 = days_from_civil y 1 1 + int (year_days y)"
  using march_days_Suc [of "y - 1"] by (simp add: days_from_civil_eq year_days_def)

lemma day_of_month: "days_from_civil y m d = days_from_civil y m 1 + (d - 1)"
  by (simp add: days_from_civil_eq)

lemma epoch: "days_from_civil 1970 1 1 = 0"
  by (simp add: days_from_civil_eq march_days_def)

text \<open>The search for the year and the month keeps the day count.\<close>

lemma civil_year_days:
  "civil_year y d = (y', d') \<Longrightarrow>
     days_from_civil y' 1 1 + int d' = days_from_civil y 1 1 + int d \<and>
     d' < year_days y' \<and> y \<le> y' \<and> 365 * (y' - y) \<le> int d"
proof (induction y d arbitrary: y' d' rule: civil_year.induct)
  case (1 y d)
  show ?case
  proof (cases "d < year_days y")
    case True
    with "1.prems" show ?thesis by (simp add: civil_year.simps [of y d])
  next
    case False
    with "1.prems" have "civil_year (y + 1) (d - year_days y) = (y', d')"
      by (simp add: civil_year.simps [of y d])
    from "1.IH" [OF False this] False next_year [of y]
    have "days_from_civil y' 1 1 + int d' = days_from_civil y 1 1 + int d \<and> d' < year_days y' \<and>
        y + 1 \<le> y' \<and> 365 * (y' - (y + 1)) \<le> int d - int (year_days y)"
      by (simp add: of_nat_diff)
    moreover have "365 \<le> year_days y" by (simp add: year_days_def)
    ultimately show ?thesis by (simp add: algebra_simps)
  qed
qed

lemma civil_month_days:
  "civil_month y m d = (m', d') \<Longrightarrow> m \<le> 11 \<Longrightarrow>
     days_from_civil y (int m + 1) 1 + int d < days_from_civil (y + 1) 1 1 \<Longrightarrow>
     days_from_civil y (int m' + 1) 1 + int d' = days_from_civil y (int m + 1) 1 + int d \<and>
     m' \<le> 11 \<and> d' < month_days y m'"
proof (induction y m d arbitrary: m' d' rule: civil_month.induct)
  case (1 y m d)
  show ?case
  proof (cases "11 \<le> m \<or> d < month_days y m")
    case True
    then have e: "m' = m" "d' = d" using "1.prems"(1) by (simp_all add: civil_month.simps [of y m d])
    have "d < month_days y m"
    proof (rule ccontr)
      assume n: "\<not> ?thesis"
      with True "1.prems"(2) have "m = 11" by simp
      with n "1.prems"(3) show False by (simp add: days_from_civil_eq month_days_def)
    qed
    with e "1.prems"(2) show ?thesis by simp
  next
    case False
    with "1.prems"(1) have "civil_month y (Suc m) (d - month_days y m) = (m', d')"
      by (simp add: civil_month.simps [of y m d])
    with "1.IH" [OF False this] False "1.prems"(3) next_month [of m y]
    show ?thesis by (simp add: of_nat_diff add.commute)
  qed
qed

lemma month_days_le: "month_days y m \<le> 31"
  by (simp add: month_days_def)

section \<open>The words of a printed date\<close>

definition word :: "string \<Rightarrow> bool" where
  "word w \<longleftrightarrow> w \<noteq> [] \<and> CHR '' '' \<notin> set w \<and> CHR 0x09 \<notin> set w \<and> CHR ''-'' \<notin> set w"

lemma split_tokens_word:
  "CHR '' '' \<notin> set w \<Longrightarrow> CHR 0x09 \<notin> set w \<Longrightarrow> CHR ''-'' \<notin> set w \<Longrightarrow>
     split_tokens (w @ s) cur = split_tokens s (cur @ w)"
  by (induction w arbitrary: cur) auto

lemma split_tokens_words:
  "word w \<Longrightarrow> split_tokens (w @ CHR '' '' # s) [] = w # split_tokens s []"
  "word w \<Longrightarrow> split_tokens w [] = [w]"
  using split_tokens_word [of w "CHR '' '' # s" "[]"] split_tokens_word [of w "[]" "[]"]
  by (simp_all add: word_def)

lemma digit_char_eq: "digit_char d = char_of (48 + d)"
  by (simp add: digit_char_def)

lemma pad2_digits: "n < 100 \<Longrightarrow> list_all is_digit (pad2 n) \<and> nat_of_digits (pad2 n) = n"
  by (simp add: pad2_def digit_char_digit nat_of_digits_def)

lemma word_digits: "list_all is_digit w \<Longrightarrow> w \<noteq> [] \<Longrightarrow> word w"
  by (force simp: word_def list_all_iff is_digit_def)

lemma pad2_not_Nil [simp]: "pad2 n \<noteq> []" "length (pad2 n) = 2"
  by (simp_all add: pad2_def)

lemma no_colon_digits: "list_all is_digit w \<Longrightarrow> find_char (CHR '':'') w = None"
  by (force simp: find_char_None_iff list_all_iff is_digit_def)

lemma digits_not_zone: "list_all is_digit w \<Longrightarrow> w \<noteq> ''GMT'' \<and> w \<noteq> ''UTC''"
  by (auto simp: is_digit_def)

lemma date_token_number:
  assumes "isDigitString w" "nat_of_digits w < 2 ^ 31"
  shows "date_token w a =
    (let number = int (nat_of_digits w) in
     if 31 < number \<or> length w = 4 \<or> 70 \<le> number then Some (a\<lparr>da_year := number\<rparr>)
     else if da_day a = 0 then Some (a\<lparr>da_day := number\<rparr>)
     else Some (a\<lparr>da_year := number\<rparr>))"
  using assms no_colon_digits [of w] digits_not_zone [of w] atoi_digits [OF assms]
  by (simp add: date_token_def isDigitString_def Let_def)

lemma month_token:
  assumes "i < 12"
  shows "word (kMonths ! i) \<and> date_token (kMonths ! i) a = Some (a\<lparr>da_month := int i + 1\<rparr>)"
proof -
  have "i = 0 \<or> i = 1 \<or> i = 2 \<or> i = 3 \<or> i = 4 \<or> i = 5 \<or> i = 6 \<or> i = 7 \<or> i = 8 \<or> i = 9 \<or> i = 10 \<or> i = 11"
    using assms by arith
  then show ?thesis
    by (elim disjE)
      (simp_all add: kMonths_def word_def date_token_def isDigitString_def is_digit_def)
qed

lemma day_name:
  assumes "i < 7"
  shows "CHR '','' \<notin> set (dayNames ! i) \<and> dayNames ! i \<noteq> [] \<and> \<not> is_blank (hd (dayNames ! i))"
proof -
  have "i = 0 \<or> i = 1 \<or> i = 2 \<or> i = 3 \<or> i = 4 \<or> i = 5 \<or> i = 6" using assms by arith
  then show ?thesis by (elim disjE) (simp_all add: dayNames_def is_blank_def)
qed

lemma zone_token: "word ''GMT''" "date_token ''GMT'' a = Some a"
  by (simp_all add: word_def date_token_def)

text \<open>The time of day.\<close>

lemma scan_int_digits:
  assumes "list_all is_digit w" "w \<noteq> []" "nat_of_digits w < 2 ^ 31" "s = [] \<or> \<not> is_digit (hd s)"
  shows "scan_int (w @ s) = Some (int (nat_of_digits w), s)"
proof -
  have tk: "takeWhile is_digit (w @ s) = w" "dropWhile is_digit (w @ s) = s"
    using assms(1,4) by (induction w) (cases s; auto)+
  obtain c cs where w: "w = c # cs" using assms(2) by (cases w) auto
  have "split_sign (w @ s) = (False, w @ s)"
    using assms(1) w by (simp add: split_sign_digit)
  then show ?thesis
    using tk assms(2,3) by (simp add: scan_int_def to_int32_id Let_def)
qed

lemma scan_time_pad2:
  assumes "h < 100" "m < 100" "s < 100"
  shows "scan_time (pad2 h @ '':'' @ pad2 m @ '':'' @ pad2 s) = Some (int h, int m, int s)"
proof -
  have x: "\<not> is_digit (CHR '':'')" by (simp add: is_digit_def)
  have p: "n < 100 \<Longrightarrow> list_all is_digit (pad2 n) \<and> nat_of_digits (pad2 n) = n \<and> pad2 n \<noteq> []" for n
    using pad2_digits by simp
  show ?thesis
    using scan_int_digits [of "pad2 h" "'':'' @ pad2 m @ '':'' @ pad2 s"]
      scan_int_digits [of "pad2 m" "'':'' @ pad2 s"] scan_int_digits [of "pad2 s" "[]"]
      p [OF assms(1)] p [OF assms(2)] p [OF assms(3)] x assms
    by (simp add: scan_time_def skip_colon_def)
qed

lemma time_token:
  assumes "h < 100" "m < 100" "s < 100"
  shows "word (pad2 h @ '':'' @ pad2 m @ '':'' @ pad2 s) \<and>
    date_token (pad2 h @ '':'' @ pad2 m @ '':'' @ pad2 s) a =
      Some (a\<lparr>da_hour := int h, da_minute := int m, da_second := int s, da_hasTime := True\<rparr>)"
proof -
  have "word (pad2 n)" if "n < 100" for n using that pad2_digits word_digits by simp
  then have "word (pad2 h @ '':'' @ pad2 m @ '':'' @ pad2 s)"
    using assms by (auto simp: word_def)
  moreover have "find_char (CHR '':'') (pad2 h @ '':'' @ pad2 m @ '':'' @ pad2 s) \<noteq> None"
    by (simp add: find_char_None_iff)
  ultimately show ?thesis
    using scan_time_pad2 [OF assms] by (simp add: date_token_def)
qed

section \<open>The round trip\<close>

lemma clock_split:
  "int (s div 3600) * 3600 + int (s div 60 mod 60) * 60 + int (s mod 60) = int s"
proof -
  have "s mod (60 * 60) = 60 * (s div 60 mod 60) + s mod 60" by (rule mod_mult2_eq)
  then have "s div 3600 * 3600 + (s div 60 mod 60 * 60 + s mod 60) = s"
    using div_mult_mod_eq [of s 3600] by simp
  then have "int (s div 3600 * 3600 + (s div 60 mod 60 * 60 + s mod 60)) = int s" by (rule arg_cong)
  then show ?thesis by (simp only: of_nat_add of_nat_mult of_nat_numeral add.assoc)
qed

text \<open>The fields of \<open>gmtime_r\<close> name the day they came from.\<close>

lemma utcTm_props:
  assumes "0 \<le> t" "t < 2 ^ 55"
  defines "u \<equiv> utcTm t"
  shows "days_from_civil (tm_year u) (int (tm_mon u) + 1) (int (tm_mday u)) = t div 86400"
    and "int (tm_hour u) * 3600 + int (tm_min u) * 60 + int (tm_sec u) = t mod 86400"
    and "1970 \<le> tm_year u" "tm_year u < 2 ^ 31" "tm_mon u \<le> 11"
    and "1 \<le> tm_mday u" "tm_mday u \<le> 31"
    and "tm_hour u \<le> 23" "tm_min u \<le> 59" "tm_sec u \<le> 59" "tm_wday u < 7"
proof -
  define days where "days = t div 86400"
  define sod where "sod = nat (t mod 86400)"
  have days: "0 \<le> days" using assms(1) by (simp add: days_def pos_imp_zdiv_nonneg_iff)
  obtain y yd where y: "civil_year 1970 (nat days) = (y, yd)" by fastforce
  obtain m d where m: "civil_month y 0 yd = (m, d)" by fastforce
  have u: "u = \<lparr>tm_year = y, tm_mon = m, tm_mday = d + 1, tm_hour = sod div 3600,
      tm_min = sod div 60 mod 60, tm_sec = sod mod 60, tm_wday = nat ((days + 4) mod 7)\<rparr>"
    using days y m by (simp add: u_def utcTm_def days_def sod_def Let_def)
  have yp: "days_from_civil y 1 1 + int yd = days" "yd < year_days y" "1970 \<le> y"
      "365 * (y - 1970) \<le> days"
    using civil_year_days [OF y] days epoch by simp_all
  have mp: "days_from_civil y (int m + 1) 1 + int d = days" "m \<le> 11" "d < month_days y m"
    using civil_month_days [OF m] yp next_year [of y] by simp_all
  have sod: "sod < 86400" "int sod = t mod 86400" by (simp_all add: sod_def nat_less_iff)
  show "days_from_civil (tm_year u) (int (tm_mon u) + 1) (int (tm_mday u)) = t div 86400"
    using mp(1) by (subst day_of_month) (simp add: u days_def)
  show "int (tm_hour u) * 3600 + int (tm_min u) * 60 + int (tm_sec u) = t mod 86400"
    unfolding u sod(2) [symmetric] by (simp add: clock_split)
  show "1970 \<le> tm_year u" "tm_mon u \<le> 11" "1 \<le> tm_mday u" using yp mp by (simp_all add: u)
  have "86400 * days \<le> t" by (simp add: days_def)
  then show "tm_year u < 2 ^ 31" using yp(4) assms(2) by (simp add: u)
  show "tm_mday u \<le> 31" using mp(3) month_days_le [of y m] by (simp add: u)
  show "tm_hour u \<le> 23" "tm_min u \<le> 59" "tm_sec u \<le> 59" using sod(1) by (simp_all add: u)
  show "tm_wday u < 7" by (simp add: u nat_less_iff)
qed

lemma date_value_comma:
  assumes "CHR '','' \<notin> set w" "w \<noteq> []" "\<not> is_blank (hd w)"
    and "r \<noteq> []" "\<not> is_blank (hd r)" "\<not> is_blank (last r)"
  shows "date_value (w @ '', '' @ r) = r"
proof -
  have "trim (w @ '', '' @ r) = w @ '', '' @ r"
    using assms by (intro trim_id) simp
  moreover have "trim (CHR '' '' # r) = r"
    using trim_split [of "'' ''" "[]" r] assms by (simp add: is_blank_def)
  ultimately show ?thesis
    using assms(1) find_char_append_new [of "CHR '',''" w "CHR '' '' # r"]
    by (simp add: date_value_def substr_from_def)
qed

definition date_text :: "tm \<Rightarrow> string" where
  "date_text u = pad2 (tm_mday u) @ CHR '' '' # kMonths ! tm_mon u @ CHR '' '' #
     string_of_int (tm_year u) @ CHR '' '' #
     (pad2 (tm_hour u) @ '':'' @ pad2 (tm_min u) @ '':'' @ pad2 (tm_sec u)) @ CHR '' '' # ''GMT''"

lemma date_text_ends:
  "tm_mday u \<le> 31 \<Longrightarrow> date_text u \<noteq> [] \<and> \<not> is_blank (hd (date_text u)) \<and> \<not> is_blank (last (date_text u))"
  using digit_char_digit [of "tm_mday u div 10"] is_digit_props
  by (simp add: date_text_def pad2_def) (simp add: is_blank_def)

lemma date_text_split:
  assumes "tm_mday u \<le> 31" "tm_mon u \<le> 11" "0 \<le> tm_year u"
    and "tm_hour u \<le> 23" "tm_min u \<le> 59" "tm_sec u \<le> 59"
  shows "split_tokens (date_text u) [] =
    [pad2 (tm_mday u), kMonths ! tm_mon u, string_of_int (tm_year u),
     pad2 (tm_hour u) @ '':'' @ pad2 (tm_min u) @ '':'' @ pad2 (tm_sec u), ''GMT'']"
proof -
  have "word (pad2 (tm_mday u))" using assms(1) pad2_digits word_digits by simp
  moreover have "word (kMonths ! tm_mon u)" using assms(2) month_token by simp
  moreover have "word (string_of_int (tm_year u))"
    using assms(3) word_digits [OF string_of_nat_digits] by (simp add: string_of_int_def)
  moreover have "word (pad2 (tm_hour u) @ '':'' @ pad2 (tm_min u) @ '':'' @ pad2 (tm_sec u))"
    using assms(4-6) time_token by simp
  ultimately show ?thesis
    unfolding date_text_def using zone_token(1) by (simp only: split_tokens_words)
qed

lemma date_text_tokens:
  assumes "1 \<le> tm_mday u" "tm_mday u \<le> 31" "tm_mon u \<le> 11" "1970 \<le> tm_year u"
    and "tm_year u < 2 ^ 31" "tm_hour u \<le> 23" "tm_min u \<le> 59" "tm_sec u \<le> 59"
  shows "date_tokens (split_tokens (date_text u) []) date_acc0 =
    Some (date_acc0\<lparr>da_day := int (tm_mday u), da_month := int (tm_mon u) + 1,
      da_year := tm_year u, da_hour := int (tm_hour u), da_minute := int (tm_min u),
      da_second := int (tm_sec u), da_hasTime := True\<rparr>)"
proof -
  have "isDigitString (pad2 (tm_mday u))" "nat_of_digits (pad2 (tm_mday u)) = tm_mday u"
    using assms(2) pad2_digits [of "tm_mday u"] by (simp_all add: isDigitString_def)
  then have "date_token (pad2 (tm_mday u)) date_acc0 =
      Some (date_acc0\<lparr>da_day := int (tm_mday u)\<rparr>)"
    using assms(2) by (simp add: date_token_number date_acc0_def)
  moreover have "date_token (string_of_int (tm_year u)) a = Some (a\<lparr>da_year := tm_year u\<rparr>)" for a
    using assms(4,5) by (simp add: string_of_int_def date_token_number nat_less_iff)
  ultimately show ?thesis
    using month_token [of "tm_mon u"] time_token [of "tm_hour u" "tm_min u" "tm_sec u"] zone_token(2)
      assms by (simp add: date_text_split date_acc0_def del: append_assoc)
qed

lemma formatHttpDate_text:
  "formatHttpDate t = dayNames ! tm_wday (utcTm t) @ '', '' @ date_text (utcTm t)"
  by (simp add: formatHttpDate_def date_text_def Let_def)

lemma trim_formatHttpDate: "0 \<le> t \<Longrightarrow> t < 2 ^ 55 \<Longrightarrow> trim (formatHttpDate t) = formatHttpDate t"
  using day_name [OF utcTm_props(11) [of t]] date_text_ends [OF utcTm_props(7) [of t]]
  by (intro trim_id) (simp add: formatHttpDate_text)

lemma parseHttpDate_formatHttpDate:
  assumes "0 \<le> t" "t < 2 ^ 55"
  shows "parseHttpDate (formatHttpDate t) = Some t"
proof -
  define u where "u = utcTm t"
  note p = utcTm_props [OF assms, folded u_def]
  let ?a0 = "date_acc0\<lparr>da_day := int (tm_mday u), da_month := int (tm_mon u) + 1,
      da_year := tm_year u, da_hour := int (tm_hour u), da_minute := int (tm_min u),
      da_second := int (tm_sec u), da_hasTime := True\<rparr>"
  have "formatHttpDate t = dayNames ! tm_wday u @ '', '' @ date_text u"
    by (simp add: formatHttpDate_text flip: u_def)
  then have v: "date_value (formatHttpDate t) = date_text u"
    using day_name [OF p(11)] date_text_ends [OF p(7)]
    by (simp only: date_value_comma simp_thms)
  have "date_tokens (split_tokens (date_text u) []) date_acc0 = Some ?a0"
    using date_text_tokens [of u] p by simp
  moreover have "date_result ?a0 = Some t"
    using p div_mult_mod_eq [of t 86400] by (simp add: date_result_def add.assoc)
  ultimately show ?thesis by (simp add: parseHttpDate_def v)
qed

text \<open>
  C9: the date of the Last-Modified header read back. For every time from 1970 on that
  \<open>gmtime_r\<close> can represent, parsing the printed IMF-fixdate gives the time itself, so a
  client that returns the header in If-Modified-Since is compared with the exact time.
\<close>

theorem parse_format_date:
  assumes "0 \<le> t" "t < 2 ^ 55"
  shows "parseHttpDate (formatHttpDate t) = Some t"
  by (rule parseHttpDate_formatHttpDate [OF assms])

theorem parse_format_date_witness:
  "parseHttpDate (formatHttpDate 784111777) = Some 784111777 \<and> (784111777 :: int) < 2 ^ 55"
  using parse_format_date [of 784111777] by simp

end
