(* ===== verification/Router.thy ===== *)
theory Router
  imports Http_Request Http_Response Http_Date_Props
begin

text \<open>
  \<open>http/Router\<close>: exact routes, prefix routes, and static files with ETags and conditional
  requests. The operating system is the record \<open>file_sys\<close>: what \<open>stat\<close> reports for a name,
  the bytes an \<open>ifstream\<close> on it delivers, and the descriptor \<open>open\<close> returns; it gets the
  whole name, and that a C string ends at its first NUL is part of it. Registered
  handlers are functions of the request, as the \<open>std::function\<close> types say.
\<close>

section \<open>Validators\<close>

definition hex_char :: "nat \<Rightarrow> char" where
  "hex_char d = (if d < 10 then char_of (48 + d) else char_of (87 + d))"

text \<open>\<open>%llx\<close>.\<close>

fun string_of_hex :: "nat \<Rightarrow> string" where
  "string_of_hex n =
     (if n < 16 then [hex_char n] else string_of_hex (n div 16) @ [hex_char (n mod 16)])"

declare string_of_hex.simps [simp del]

text \<open>The casts to \<open>unsigned long long\<close> are written out.\<close>

definition makeETag :: "int \<Rightarrow> int \<Rightarrow> string" where
  "makeETag mtime sz =
     DQ @ string_of_hex (nat (mtime mod 2 ^ 64)) @ ''-'' @
     string_of_hex (nat (sz mod 2 ^ 64)) @ DQ"

definition strip_weak :: "string \<Rightarrow> string" where
  "strip_weak item =
     (if 2 < length item \<and> item ! 0 = CHR ''W'' \<and> item ! 1 = CHR ''/'' then drop 2 item else item)"

text \<open>The loop of \<open>etagMatches\<close> on what is left of the header value from \<open>begin\<close> on.\<close>

function etag_items :: "string \<Rightarrow> string \<Rightarrow> bool" where
  "etag_items rest etag =
     (let comma = find_char (CHR '','') rest;
          item = strip_weak (trim (case comma of None \<Rightarrow> rest | Some n \<Rightarrow> substr rest 0 n)) in
      if item \<noteq> [] \<and> item = etag then True
      else case comma of None \<Rightarrow> False | Some n \<Rightarrow> etag_items (drop (n + 1) rest) etag)"
  by pat_completeness auto
termination
  by (relation "measure (\<lambda>(rest, etag). length rest)") (auto dest!: find_char_less [OF sym])

declare etag_items.simps [simp del]

definition etagMatches :: "string \<Rightarrow> string \<Rightarrow> bool" where
  "etagMatches headerValue etag \<longleftrightarrow> trim headerValue = ''*'' \<or> etag_items headerValue etag"

definition isNotModified :: "http_request \<Rightarrow> string \<Rightarrow> int \<Rightarrow> bool" where
  "isNotModified request etag mtime =
     (let ifNoneMatch = getHeader request ''If-None-Match'' in
      if ifNoneMatch \<noteq> [] then etagMatches ifNoneMatch etag
      else let ifModifiedSince = getHeader request ''If-Modified-Since'' in
        if ifModifiedSince \<noteq> [] then
          (case parseHttpDate ifModifiedSince of Some since \<Rightarrow> mtime \<le> since | None \<Rightarrow> False)
        else False)"

section \<open>Static files\<close>

record file_stat =
  st_regular :: bool
  st_mtime :: int
  st_size :: nat

record file_sys =
  fs_stat :: "string \<Rightarrow> file_stat option"
  fs_content :: "string \<Rightarrow> string option"
  fs_open :: "string \<Rightarrow> int"

text \<open>The \<open>Date\<close> of a response has the format of the other dates.\<close>

definition httpDate :: "int \<Rightarrow> string" where
  "httpDate now = formatHttpDate now"

definition endsWith :: "string \<Rightarrow> string \<Rightarrow> bool" where
  "endsWith text suffix \<longleftrightarrow>
     length suffix \<le> length text \<and> drop (length text - length suffix) text = suffix"

definition isPathSafe :: "string \<Rightarrow> bool" where
  "isPathSafe path \<longleftrightarrow> path \<noteq> [] \<and> hd path = CHR ''/'' \<and> \<not> contains ''..'' path"

definition contentTypeFor :: "string \<Rightarrow> string" where
  "contentTypeFor path =
     (let lower = toLower path in
      if endsWith lower ''.html'' \<or> endsWith lower ''.htm'' then ''text/html; charset=utf-8''
      else if endsWith lower ''.css'' then ''text/css; charset=utf-8''
      else if endsWith lower ''.js'' then ''application/javascript; charset=utf-8''
      else if endsWith lower ''.json'' then ''application/json; charset=utf-8''
      else if endsWith lower ''.png'' then ''image/png''
      else if endsWith lower ''.jpg'' \<or> endsWith lower ''.jpeg'' then ''image/jpeg''
      else if endsWith lower ''.svg'' then ''image/svg+xml''
      else if endsWith lower ''.ico'' then ''image/x-icon''
      else if endsWith lower ''.txt'' then ''text/plain; charset=utf-8''
      else ''application/octet-stream'')"

type_synonym handler = "http_request \<Rightarrow> http_response"
type_synonym prefix_handler = "http_request \<Rightarrow> string \<Rightarrow> http_response"

record router =
  rt_wwwRoot :: string
  rt_zeroCopyThreshold :: nat
  rt_handlers :: "(string, handler) omap"
  rt_prefixHandlers :: "(string, prefix_handler) omap"

definition Router_new :: "string \<Rightarrow> router" where
  "Router_new wwwRoot = \<lparr>rt_wwwRoot = wwwRoot, rt_zeroCopyThreshold = 64 * 1024,
     rt_handlers = om_empty, rt_prefixHandlers = om_empty\<rparr>"

definition registerHandler :: "string \<Rightarrow> handler \<Rightarrow> router \<Rightarrow> router" where
  "registerHandler path h rt = rt\<lparr>rt_handlers := om_put path h (rt_handlers rt)\<rparr>"

definition registerPrefixHandler :: "string \<Rightarrow> prefix_handler \<Rightarrow> router \<Rightarrow> router" where
  "registerPrefixHandler p h rt = rt\<lparr>rt_prefixHandlers := om_put p h (rt_prefixHandlers rt)\<rparr>"

definition setZeroCopyThreshold :: "nat \<Rightarrow> router \<Rightarrow> router" where
  "setZeroCopyThreshold n rt = rt\<lparr>rt_zeroCopyThreshold := n\<rparr>"

definition serveFileBody ::
  "file_sys \<Rightarrow> string \<Rightarrow> string \<Rightarrow> nat \<Rightarrow> string \<Rightarrow> string \<Rightarrow> http_response" where
  "serveFileBody fs fullPath path sz etag lastModified =
     (let fd = fs_open fs fullPath in
      if fd < 0 then notFound
      else setFileBody \<lparr>fb_fd = fd, fb_offset = 0, fb_length = sz\<rparr>
        (setHeader ''Cache-Control'' ''no-cache''
        (setHeader ''Last-Modified'' lastModified
        (setHeader ''ETag'' etag
        (setHeader ''Content-Length'' (string_of_nat sz)
        (setContentType (contentTypeFor path)
        (setStatus 200 ''OK'' (HttpResponse_new False))))))))"

text \<open>
  The in-memory branch: a buffer of the size \<open>stat\<close> reported, filled by one read, cut to what
  the read delivered. An empty file is answered without opening it.
\<close>

definition read_body :: "file_sys \<Rightarrow> string \<Rightarrow> nat \<Rightarrow> string option" where
  "read_body fs fullPath sz =
     (if sz = 0 then Some [] else map_option (take sz) (fs_content fs fullPath))"

definition serveStaticFile :: "file_sys \<Rightarrow> router \<Rightarrow> string \<Rightarrow> http_request \<Rightarrow> http_response" where
  "serveStaticFile fs rt path request =
     (let fullPath = rt_wwwRoot rt @ path in
      case fs_stat fs fullPath of
        None \<Rightarrow> notFound
      | Some info \<Rightarrow>
          if \<not> st_regular info then notFound
          else
            let mtime = st_mtime info;
                etag = makeETag mtime (int (st_size info));
                lastModified = formatHttpDate mtime in
            if isNotModified request etag mtime then
              setHeader ''Cache-Control'' ''no-cache''
              (setHeader ''Last-Modified'' lastModified
              (setHeader ''ETag'' etag
              (setStatus 304 ''Not Modified'' (HttpResponse_new False))))
            else if 0 < rt_zeroCopyThreshold rt \<and> rt_zeroCopyThreshold rt \<le> st_size info then
              serveFileBody fs fullPath path (st_size info) etag lastModified
            else case read_body fs fullPath (st_size info) of
                None \<Rightarrow> notFound
              | Some body \<Rightarrow>
                  setBody body
                  (setHeader ''Cache-Control'' ''no-cache''
                  (setHeader ''Last-Modified'' lastModified
                  (setHeader ''ETag'' etag
                  (setContentType (contentTypeFor path)
                  (setStatus 200 ''OK'' (HttpResponse_new False)))))))"

section \<open>Dispatch\<close>

fun match_prefix :: "string \<Rightarrow> (string, 'h) omap \<Rightarrow> (string \<times> 'h) option" where
  "match_prefix path [] = None"
| "match_prefix path ((p, h) # items) =
     (if starts_with p path then Some (p, h) else match_prefix path items)"

definition methodNotAllowed :: http_response where
  "methodNotAllowed =
     setBody ''<html><body><h1>405 Method Not Allowed</h1></body></html>''
       (setContentType ''text/html; charset=utf-8''
         (setStatus 405 ''Method Not Allowed'' (HttpResponse_new True)))"

definition handle :: "file_sys \<Rightarrow> router \<Rightarrow> http_request \<Rightarrow> string \<Rightarrow> http_response" where
  "handle fs rt request clientIp =
     (if \<not> isPathSafe (rq_path request) then badRequest ''Bad Request''
      else case om_get (rt_handlers rt) (rq_path request) of
        Some h \<Rightarrow> h request
      | None \<Rightarrow>
          (case match_prefix (rq_path request) (rt_prefixHandlers rt) of
             Some (p, h) \<Rightarrow> h request clientIp
           | None \<Rightarrow>
               if rq_method request \<noteq> kGet \<and> rq_method request \<noteq> kHead then methodNotAllowed
               else serveStaticFile fs rt
                 (if rq_path request = ''/'' then ''/index.html'' else rq_path request) request))"

end
