(* ===== verification/Router_Props.thy ===== *)
theory Router_Props
  imports Router
begin

text \<open>
  Properties of the router: which route answers, that static files stay under the document root,
  what a static answer holds, and that the two validators of an answer revalidate it.
\<close>

section \<open>Entity tags\<close>

definition hex_val :: "char \<Rightarrow> nat" where
  "hex_val c = (if (of_char c :: nat) < 58 then of_char c - 48 else of_char c - 87)"

definition hex_digit :: "char \<Rightarrow> bool" where
  "hex_digit c \<longleftrightarrow> is_digit c \<or> (97 \<le> (of_char c :: nat) \<and> (of_char c :: nat) \<le> 102)"

definition nat_of_hex :: "string \<Rightarrow> nat" where
  "nat_of_hex s = foldl (\<lambda>a c. 16 * a + hex_val c) 0 s"

lemma hex_char_val: "d < 16 \<Longrightarrow> hex_val (hex_char d) = d \<and> hex_digit (hex_char d)"
  by (simp add: hex_char_def hex_val_def hex_digit_def is_digit_def of_char_of)

lemma string_of_hex_props:
  "nat_of_hex (string_of_hex n) = n \<and> list_all hex_digit (string_of_hex n) \<and> string_of_hex n \<noteq> []"
proof (induction n rule: string_of_hex.induct)
  case (1 n)
  then show ?case
    by (subst (1 2 3) string_of_hex.simps) (auto simp: hex_char_val nat_of_hex_def)
qed

lemma hex_digit_no_hyphen: "list_all hex_digit s \<Longrightarrow> CHR ''-'' \<notin> set s"
  by (auto simp: list_all_iff hex_digit_def is_digit_def)

lemma hyphen_split:
  "a @ c # b = a' @ c # b' \<Longrightarrow> c \<notin> set a \<Longrightarrow> c \<notin> set a' \<Longrightarrow> a = a' \<and> b = b'"
proof (induction a arbitrary: a')
  case Nil
  then show ?case by (cases a') auto
next
  case (Cons x xs)
  then show ?case by (cases a') auto
qed

text \<open>Two tags are equal only for the same time and size, as 64-bit words.\<close>

lemma makeETag_inj:
  "makeETag t s = makeETag t' s' \<longleftrightarrow> t mod 2 ^ 64 = t' mod 2 ^ 64 \<and> s mod 2 ^ 64 = s' mod 2 ^ 64"
proof
  assume e: "makeETag t s = makeETag t' s'"
  have n: "CHR ''-'' \<notin> set (string_of_hex n)" for n
    using string_of_hex_props hex_digit_no_hyphen by blast
  have "string_of_hex (nat (t mod 2 ^ 64)) @ CHR ''-'' # (string_of_hex (nat (s mod 2 ^ 64)) @ DQ) =
      string_of_hex (nat (t' mod 2 ^ 64)) @ CHR ''-'' # (string_of_hex (nat (s' mod 2 ^ 64)) @ DQ)"
    using e by (simp add: makeETag_def)
  from hyphen_split [OF this n n]
  have "nat (t mod 2 ^ 64) = nat (t' mod 2 ^ 64)" "nat (s mod 2 ^ 64) = nat (s' mod 2 ^ 64)"
    using string_of_hex_props by (metis append_same_eq)+
  then show "t mod 2 ^ 64 = t' mod 2 ^ 64 \<and> s mod 2 ^ 64 = s' mod 2 ^ 64"
    using eq_nat_nat_iff [of "t mod 2 ^ 64" "t' mod 2 ^ 64"]
      eq_nat_nat_iff [of "s mod 2 ^ 64" "s' mod 2 ^ 64"] by simp
qed (simp add: makeETag_def)

lemma makeETag_chars: "c \<in> set (makeETag t s) \<Longrightarrow> c = CHR 0x22 \<or> c = CHR ''-'' \<or> hex_digit c"
  using string_of_hex_props by (auto simp: makeETag_def DQ_def list_all_iff)

lemma makeETag_plain:
  "trim (makeETag t s) = makeETag t s" "strip_weak (makeETag t s) = makeETag t s"
  "CHR '','' \<notin> set (makeETag t s)" "makeETag t s \<noteq> ''*''" "makeETag t s \<noteq> []"
proof -
  show "trim (makeETag t s) = makeETag t s"
    by (rule trim_id) (simp add: makeETag_def DQ_def is_blank_def)
  show "CHR '','' \<notin> set (makeETag t s)"
    using makeETag_chars [of "CHR '',''" t s] by (auto simp: hex_digit_def is_digit_def)
qed (simp_all add: makeETag_def DQ_def strip_weak_def)

text \<open>The header as a list of items, without the positions of the loop.\<close>

fun split_char :: "char \<Rightarrow> string \<Rightarrow> string list" where
  "split_char c [] = [[]]"
| "split_char c (x # xs) =
     (if x = c then [] # split_char c xs
      else (x # hd (split_char c xs)) # tl (split_char c xs))"

lemma split_char_not_Nil [simp]: "split_char c s \<noteq> []"
  by (cases s) auto

lemma split_char_find:
  "split_char c s = (case find_char c s of None \<Rightarrow> [s]
     | Some n \<Rightarrow> take n s # split_char c (drop (n + 1) s))"
  by (induction s) (auto split: option.split)

lemma etag_items_iff:
  "etag_items h e \<longleftrightarrow> e \<noteq> [] \<and> e \<in> (\<lambda>i. strip_weak (trim i)) ` set (split_char (CHR '','') h)"
proof (induction h e rule: etag_items.induct)
  case (1 h e)
  show ?case
  proof (cases "find_char (CHR '','') h")
    case None
    then show ?thesis
      by (subst etag_items.simps) (auto simp: split_char_find [of _ h] Let_def)
  next
    case (Some n)
    with 1 show ?thesis
      by (subst etag_items.simps) (auto simp: split_char_find [of _ h] Let_def substr_def)
  qed
qed

lemma split_char_absent: "c \<notin> set s \<Longrightarrow> split_char c s = [s]"
  by (subst split_char_find) (simp add: find_char_None_iff [THEN iffD2])

lemma etagMatches_etag:
  "etagMatches (makeETag t s) (makeETag t' s') \<longleftrightarrow>
     t mod 2 ^ 64 = t' mod 2 ^ 64 \<and> s mod 2 ^ 64 = s' mod 2 ^ 64"
  by (auto simp: etagMatches_def etag_items_iff split_char_absent makeETag_plain makeETag_inj)

section \<open>Paths\<close>

lemma split_char_hd_prefix: "\<exists>r. s = hd (split_char c s) @ r"
  by (induction s) auto

lemma split_char_contains: "i \<in> set (split_char c s) \<Longrightarrow> contains i s"
proof (induction s arbitrary: i)
  case Nil
  then show ?case by (simp add: contains_def)
next
  case (Cons x xs)
  show ?case
  proof (cases "x \<noteq> c \<and> i = x # hd (split_char c xs)")
    case True
    obtain r where "xs = hd (split_char c xs) @ r" using split_char_hd_prefix by blast
    then have "x # xs = i @ r" using True by simp
    then show ?thesis by (metis contains_self)
  next
    case False
    show ?thesis
    proof (cases "i = []")
      case True
      then show ?thesis using contains_self [of "[]" "x # xs"] by simp
    next
      case i: False
      with False Cons.prems have "i \<in> set (split_char c xs)"
        by (auto split: if_splits dest: list.set_sel(2) [OF split_char_not_Nil])
      then show ?thesis using Cons.IH contains_Cons by blast
    qed
  qed
qed

text \<open>A name that stays below a directory: the directory, then a path with no \<open>..\<close> component.\<close>

definition under_root :: "string \<Rightarrow> string \<Rightarrow> bool" where
  "under_root root f \<longleftrightarrow>
     (\<exists>p. f = root @ p \<and> p \<noteq> [] \<and> hd p = CHR ''/'' \<and> ''..'' \<notin> set (split_char (CHR ''/'') p))"

lemma isPathSafe_under_root: "isPathSafe p \<Longrightarrow> under_root root (root @ p)"
  by (auto simp: isPathSafe_def under_root_def dest: split_char_contains)

lemma index_under_root: "under_root root (root @ ''/index.html'')"
  by (simp add: under_root_def)

definition fs_agree :: "file_sys \<Rightarrow> file_sys \<Rightarrow> string \<Rightarrow> bool" where
  "fs_agree fs fs' f \<longleftrightarrow>
     fs_stat fs f = fs_stat fs' f \<and> fs_content fs f = fs_content fs' f \<and> fs_open fs f = fs_open fs' f"

lemma serveStaticFile_agree:
  "fs_agree fs fs' (rt_wwwRoot rt @ path) \<Longrightarrow>
     serveStaticFile fs rt path rq = serveStaticFile fs' rt path rq"
  by (simp only: fs_agree_def serveStaticFile_def serveFileBody_def read_body_def Let_def)

text \<open>
  C10: no request reaches a file outside the document root. The answer to any request is decided
  by the files whose name is the root followed by a path without a \<open>..\<close> component: two file
  systems that agree on those give the same answer.
\<close>

theorem handle_confined:
  assumes "\<forall>f. under_root (rt_wwwRoot rt) f \<longrightarrow> fs_agree fs fs' f"
  shows "handle fs rt rq ip = handle fs' rt rq ip"
  using assms serveStaticFile_agree [of fs fs' rt] isPathSafe_under_root [of "rq_path rq" "rt_wwwRoot rt"]
    index_under_root [of "rt_wwwRoot rt"]
  by (simp add: handle_def split: option.split)

section \<open>Routes\<close>

lemma match_prefix_Some:
  "match_prefix path m = Some (p, h) \<Longrightarrow> (p, h) \<in> set m \<and> starts_with p path"
  by (induction m) (auto split: if_splits)

lemma match_prefix_None:
  "match_prefix path m = None \<longleftrightarrow> (\<forall>(p, h) \<in> set m. \<not> starts_with p path)"
  by (induction m) (auto split: if_splits)

lemma prefix_less: "q = p @ r \<Longrightarrow> \<not> q < (p :: string)"
  by (induction p arbitrary: q) auto

lemma starts_with_shorter:
  "starts_with p s \<Longrightarrow> starts_with q s \<Longrightarrow> length q \<le> length p \<Longrightarrow> \<exists>r. p = q @ r"
  by (metis append_eq_append_conv_if append_take_drop_id starts_with_iff)

text \<open>Among the prefixes of one path the map order is the order of their lengths.\<close>

lemma match_prefix_shortest:
  "om_valid m \<Longrightarrow> match_prefix path m = Some (p, h) \<Longrightarrow> (q, g) \<in> set m \<Longrightarrow>
     starts_with q path \<Longrightarrow> length p \<le> length q"
proof (induction m)
  case Nil
  then show ?case by simp
next
  case (Cons a m)
  obtain k v where a: "a = (k, v)" by (cases a)
  show ?case
  proof (cases "starts_with k path")
    case True
    with Cons.prems a have p: "p = k" by simp
    show ?thesis
    proof (rule ccontr)
      assume n: "\<not> length p \<le> length q"
      then obtain r where "p = q @ r" using starts_with_shorter True p Cons.prems(4) by fastforce
      then have "\<not> p < q" by (rule prefix_less)
      moreover have "p = q \<or> p < q" using Cons.prems(1,3) a p by force
      ultimately show False using n by auto
    qed
  next
    case False
    with Cons a show ?thesis by auto
  qed
qed

text \<open>
  Route order. For a safe path an exact route answers if there is one; otherwise, if a
  registered prefix matches, the shortest matching prefix answers; otherwise methods other than
  GET and HEAD get 405; otherwise the static file is served.
\<close>

lemma handle_route_order:
  assumes "isPathSafe (rq_path rq)" "om_valid (rt_prefixHandlers rt)"
  shows "case om_get (rt_handlers rt) (rq_path rq) of
      Some h \<Rightarrow> handle fs rt rq ip = h rq
    | None \<Rightarrow>
        if \<exists>(q, g) \<in> set (rt_prefixHandlers rt). starts_with q (rq_path rq)
        then \<exists>(p, h) \<in> set (rt_prefixHandlers rt). starts_with p (rq_path rq) \<and>
          handle fs rt rq ip = h rq ip \<and>
          (\<forall>(q, g) \<in> set (rt_prefixHandlers rt). starts_with q (rq_path rq) \<longrightarrow> length p \<le> length q)
        else if rq_method rq \<in> {kGet, kHead}
        then handle fs rt rq ip = serveStaticFile fs rt
          (if rq_path rq = ''/'' then ''/index.html'' else rq_path rq) rq
        else rs_statusCode (handle fs rt rq ip) = 405"
proof (cases "om_get (rt_handlers rt) (rq_path rq)")
  case (Some h)
  then show ?thesis using assms by (simp add: handle_def)
next
  case None
  show ?thesis
  proof (cases "match_prefix (rq_path rq) (rt_prefixHandlers rt)")
    case m: None
    then have "\<not> (\<exists>(q, g) \<in> set (rt_prefixHandlers rt). starts_with q (rq_path rq))"
      by (force simp: match_prefix_None)
    then show ?thesis
      using None m assms by (auto simp: handle_def methodNotAllowed_def response_setters)
  next
    case m: (Some ph)
    obtain p h where ph: "ph = (p, h)" by (cases ph)
    have "(p, h) \<in> set (rt_prefixHandlers rt)" "starts_with p (rq_path rq)"
      "handle fs rt rq ip = h rq ip"
      using match_prefix_Some [of "rq_path rq" "rt_prefixHandlers rt" p h] m ph None assms(1)
    by (simp_all add: handle_def)
    moreover have "\<forall>(q, g) \<in> set (rt_prefixHandlers rt). starts_with q (rq_path rq) \<longrightarrow> length p \<le> length q"
      using match_prefix_shortest [OF assms(2)] m ph by blast
    ultimately show ?thesis using None by (simp add: case_prod_beta) (metis fst_conv snd_conv)
  qed
qed


section \<open>Static answers\<close>

lemma response_frames [simp]:
  "rs_statusCode (setHeader k v r) = rs_statusCode r" "rs_body (setHeader k v r) = rs_body r"
  "rs_fileBody (setHeader k v r) = rs_fileBody r" "rs_statusCode (setBody b r) = rs_statusCode r"
  "rs_body (setBody b r) = b" "rs_headers (setBody b r) = rs_headers r"
  "rs_fileBody (setBody b r) = rs_fileBody r" "rs_fileBody (setFileBody f r) = Some f"
  "rs_statusCode (setFileBody f r) = rs_statusCode r" "rs_body (setFileBody f r) = rs_body r"
  "rs_headers (setFileBody f r) = rs_headers r" "rs_statusCode (setContentType t r) = rs_statusCode r"
  "rs_body (setContentType t r) = rs_body r" "rs_fileBody (setContentType t r) = rs_fileBody r"
  "rs_statusCode (setStatus c m r) = c" "rs_body (setStatus c m r) = rs_body r"
  "rs_fileBody (setStatus c m r) = rs_fileBody r" "rs_headers (setStatus c m r) = rs_headers r"
  "rs_body (HttpResponse_new cl) = []" "rs_fileBody (HttpResponse_new cl) = None"
  "rs_headers (HttpResponse_new cl) = om_empty"
  by (simp_all add: response_setters HttpResponse_new_def)

lemma response_header_set: "k \<noteq> k' \<Longrightarrow> om_get (rs_headers (setHeader k v r)) k' = om_get (rs_headers r) k'"
  by (simp add: setHeader_get)

lemma setContentType_get:
  "om_get (rs_headers (setContentType t r)) = (om_get (rs_headers r))(''Content-Type'' \<mapsto> t)"
  by (simp add: setContentType_def setHeader_get)

text \<open>The three kinds of answer for a regular file.\<close>

lemma static_found:
  fixes rq :: http_request
  assumes "fs_stat fs (rt_wwwRoot rt @ path) = Some st" "st_regular st"
  defines "r \<equiv> serveStaticFile fs rt path rq"
  shows "isNotModified rq (makeETag (st_mtime st) (int (st_size st))) (st_mtime st) \<Longrightarrow>
      rs_statusCode r = 304 \<and> rs_body r = [] \<and> rs_fileBody r = None"
    and "\<not> isNotModified rq (makeETag (st_mtime st) (int (st_size st))) (st_mtime st) \<Longrightarrow>
      rs_statusCode r \<in> {200, 404}"
  using assms by (simp_all add: serveStaticFile_def serveFileBody_def Let_def split: option.split)

text \<open>
  C11: revalidation by entity tag. A client that sends back a tag the server made for some time
  and size gets 304, with an empty body, exactly when the file still has that time and size.
\<close>

theorem static_etag_revalidation:
  assumes "fs_stat fs (rt_wwwRoot rt @ path) = Some st" "st_regular st"
    and "getHeader rq ''If-None-Match'' = makeETag t (int n)"
    and "0 \<le> t" "t < 2 ^ 63" "n < 2 ^ 63"
    and "0 \<le> st_mtime st" "st_mtime st < 2 ^ 63" "st_size st < 2 ^ 63"
  shows "rs_statusCode (serveStaticFile fs rt path rq) = 304 \<longleftrightarrow> t = st_mtime st \<and> n = st_size st"
proof -
  have "int k mod 2 ^ 64 = int k" if "k < 2 ^ 63" for k using that by simp
  then have "isNotModified rq (makeETag (st_mtime st) (int (st_size st))) (st_mtime st) \<longleftrightarrow>
      t = st_mtime st \<and> n = st_size st"
    using assms(3-9) makeETag_plain(5) by (simp add: isNotModified_def etagMatches_etag)
  then show ?thesis using static_found [OF assms(1,2), of rq] by auto
qed

text \<open>
  Revalidation by date. Without If-None-Match, a client that sends a date the server printed
  gets 304 exactly when the file is not newer than that date.
\<close>

lemma static_date_revalidation:
  assumes "fs_stat fs (rt_wwwRoot rt @ path) = Some st" "st_regular st"
    and "getHeader rq ''If-None-Match'' = []"
    and "getHeader rq ''If-Modified-Since'' = formatHttpDate t" "0 \<le> t" "t < 2 ^ 55"
  shows "rs_statusCode (serveStaticFile fs rt path rq) = 304 \<longleftrightarrow> st_mtime st \<le> t"
proof -
  have "formatHttpDate t \<noteq> []" by (simp add: formatHttpDate_def Let_def)
  then have "isNotModified rq (makeETag (st_mtime st) (int (st_size st))) (st_mtime st) \<longleftrightarrow>
      st_mtime st \<le> t"
    using assms(3,4) parseHttpDate_formatHttpDate [OF assms(5,6)] by (simp add: isNotModified_def)
  then show ?thesis using static_found [OF assms(1,2), of rq] by auto
qed

text \<open>
  A 200 answer for a static file carries the file. Its name had a regular file, its tag is
  the tag of that file, and either the body is the content up to the size the file had, or the
  file itself is attached from its start with the announced length equal to the size, which
  happens only from the threshold on.
\<close>

lemma static_ok_content:
  assumes "rs_statusCode (serveStaticFile fs rt path rq) = 200"
  defines "r \<equiv> serveStaticFile fs rt path rq"
  shows "\<exists>st. fs_stat fs (rt_wwwRoot rt @ path) = Some st \<and> st_regular st \<and>
    om_get (rs_headers r) ''ETag'' = Some (makeETag (st_mtime st) (int (st_size st))) \<and>
    om_get (rs_headers r) ''Content-Type'' = Some (contentTypeFor path) \<and>
    (case rs_fileBody r of
       None \<Rightarrow> om_get (rs_headers r) ''Content-Length'' = None \<and>
         (st_size st = 0 \<and> rs_body r = [] \<or>
          (\<exists>c. fs_content fs (rt_wwwRoot rt @ path) = Some c \<and> rs_body r = take (st_size st) c))
     | Some f \<Rightarrow> 0 < rt_zeroCopyThreshold rt \<and> rt_zeroCopyThreshold rt \<le> st_size st \<and>
         f = \<lparr>fb_fd = fs_open fs (rt_wwwRoot rt @ path), fb_offset = 0, fb_length = st_size st\<rparr> \<and>
         0 \<le> fb_fd f \<and>
         om_get (rs_headers r) ''Content-Length'' = Some (string_of_nat (st_size st)) \<and> rs_body r = [])"
  using assms
  by (auto simp: serveStaticFile_def serveFileBody_def read_body_def Let_def setHeader_get
      setContentType_get om.get_empty split: option.splits if_splits)

section \<open>Inputs\<close>

definition demo_fs :: file_sys where
  "demo_fs = \<lparr>fs_stat = (\<lambda>f. if f = ''www/a.txt'' then Some \<lparr>st_regular = True, st_mtime = 784111777,
     st_size = 3\<rparr> else None), fs_content = (\<lambda>f. Some ''abc''), fs_open = (\<lambda>f. 5)\<rparr>"

definition demo_rt :: router where
  "demo_rt = registerPrefixHandler ''/api'' (\<lambda>rq ip. notFound) (Router_new ''www'')"

definition demo_get :: "string \<Rightarrow> http_request" where
  "demo_get path = setPath path HttpRequest_new\<lparr>rq_method := kGet\<rparr>"

lemmas demo_defs = demo_fs_def demo_rt_def demo_get_def Router_new_def registerPrefixHandler_def

theorem handle_confined_witness:
  "handle demo_fs demo_rt (demo_get ''/../k'') ''10.0.0.1'' =
     handle (demo_fs\<lparr>fs_content := (\<lambda>f. if f = ''www/../k'' then Some ''key'' else Some ''abc'')\<rparr>)
       demo_rt (demo_get ''/../k'') ''10.0.0.1''"
proof (rule handle_confined)
  have "\<not> under_root ''www'' ''www/../k''" by (simp add: under_root_def)
  then show "\<forall>f. under_root (rt_wwwRoot demo_rt) f \<longrightarrow> fs_agree demo_fs (demo_fs\<lparr>fs_content :=
      (\<lambda>f. if f = ''www/../k'' then Some ''key'' else Some ''abc'')\<rparr>) f"
    by (auto simp: fs_agree_def demo_defs)
qed


lemma handle_route_order_witness:
  "handle demo_fs demo_rt (demo_get ''/api/x'') ''10.0.0.1'' = notFound"
proof -
  have "isPathSafe (rq_path (demo_get ''/api/x''))" "om_valid (rt_prefixHandlers demo_rt)"
    by (simp_all add: demo_defs om_empty_def setPath_def isPathSafe_def contains_def)
  from handle_route_order [OF this, of demo_fs "''10.0.0.1''"] show ?thesis
    by (simp add: demo_defs om_empty_def om_get_def setPath_def starts_with_def)
qed

lemma demo_get_header: "getHeader (demo_get p) k = []"
  by (simp add: demo_get_def getHeader_def HttpRequest_new_def om_get_def om_empty_def)

lemma demo_stat:
  "fs_stat demo_fs (rt_wwwRoot demo_rt @ ''/a.txt'') =
     Some \<lparr>st_regular = True, st_mtime = 784111777, st_size = 3\<rparr>"
  by (simp add: demo_defs)

theorem static_etag_revalidation_witness:
  "rs_statusCode (serveStaticFile demo_fs demo_rt ''/a.txt''
     (addHeader ''If-None-Match'' (makeETag 784111777 3) (demo_get ''/a.txt''))) = 304"
  using static_etag_revalidation [OF demo_stat, of
      "addHeader ''If-None-Match'' (makeETag 784111777 3) (demo_get ''/a.txt'')" 784111777 3]
  by (simp add: getHeader_addHeader makeETag_plain toLower_def to_lower_def trim_id is_blank_def)

lemma static_date_revalidation_witness:
  "rs_statusCode (serveStaticFile demo_fs demo_rt ''/a.txt''
     (addHeader ''If-Modified-Since'' (formatHttpDate 784111777) (demo_get ''/a.txt''))) = 304"
proof -
  have "getHeader (addHeader ''If-Modified-Since'' (formatHttpDate 784111777) (demo_get ''/a.txt''))
      ''If-Modified-Since'' = trim (formatHttpDate 784111777)"
    by (simp add: getHeader_addHeader toLower_def to_lower_def trim_id is_blank_def)
  also have "trim (formatHttpDate 784111777) = formatHttpDate 784111777"
    by (rule trim_formatHttpDate) simp_all
  finally show ?thesis
    using static_date_revalidation [OF demo_stat, of
      "addHeader ''If-Modified-Since'' (formatHttpDate 784111777) (demo_get ''/a.txt'')" 784111777]
    by (simp add: getHeader_addHeader demo_get_header toLower_def to_lower_def trim_id is_blank_def)
qed

lemma static_ok_content_witness:
  "\<exists>st. fs_stat demo_fs (rt_wwwRoot demo_rt @ ''/a.txt'') = Some st \<and>
     om_get (rs_headers (serveStaticFile demo_fs demo_rt ''/a.txt'' (demo_get ''/a.txt''))) ''ETag'' =
       Some (makeETag (st_mtime st) (int (st_size st)))"
proof -
  have "rs_statusCode (serveStaticFile demo_fs demo_rt ''/a.txt'' (demo_get ''/a.txt'')) = 200"
    by (simp add: serveStaticFile_def read_body_def isNotModified_def getHeader_def demo_defs
        HttpRequest_new_def om_get_def om_empty_def)
  from static_ok_content [OF this] show ?thesis by blast
qed

end
