(* ===== verification/Reverse_Proxy.thy ===== *)
theory Reverse_Proxy
  imports Complex_Main Http_Request Http_Response
begin

text \<open>
  \<open>http/ReverseProxy\<close>: rewriting the path, building the upstream request, sending it, reading
  the answer to end of file and turning it into a response. The kernel and the resolver are the
  record \<open>upstream\<close>: what each call returns. The model returns the response together with the
  trace of calls that open, fill and close the socket; a peer that never ends its answer is the
  value \<^term>\<open>None\<close>. The timeout is computed on exact rationals instead of doubles.
\<close>

section \<open>Options and paths\<close>

record proxy_options =
  po_prefix :: string
  po_targetHost :: string
  po_targetPort :: nat
  po_timeoutSeconds :: rat
  po_rewritePrefix :: bool
  po_enabled :: bool

definition ProxyOptions_new :: proxy_options where
  "ProxyOptions_new = \<lparr>po_prefix = ''/api/gateway'', po_targetHost = ''127.0.0.1'',
     po_targetPort = 8081, po_timeoutSeconds = 3, po_rewritePrefix = True, po_enabled = True\<rparr>"

definition rewritePath :: "proxy_options \<Rightarrow> string \<Rightarrow> string \<Rightarrow> string" where
  "rewritePath opts originalPath query =
     (let path = originalPath;
          path = (if po_rewritePrefix opts \<and> po_prefix opts \<noteq> [] then
                    (if starts_with (po_prefix opts) path then
                       (let p = substr_from path (length (po_prefix opts)) in
                        if p = [] \<or> p ! 0 \<noteq> CHR ''/'' then ''/'' @ p else p)
                     else path)
                  else path);
          path = (if path = [] then ''/'' else path) in
      if query \<noteq> [] then path @ ''?'' @ query else path)"

text \<open>The two fields of the \<open>timeval\<close>; the casts truncate towards zero.\<close>

definition rat_trunc :: "rat \<Rightarrow> int" where
  "rat_trunc r = (if 0 \<le> r then \<lfloor>r\<rfloor> else \<lceil>r\<rceil>)"

definition proxy_timeout :: "proxy_options \<Rightarrow> int \<times> int" where
  "proxy_timeout opts =
     (let sec = rat_trunc (po_timeoutSeconds opts);
          usec = rat_trunc ((po_timeoutSeconds opts - of_int sec) * 1000000) in
      if sec \<le> 0 \<and> usec \<le> 0 then (3, usec) else (sec, usec))"

section \<open>The upstream request\<close>

text \<open>
  The loop over the request headers collects the client's host, its forwarded-for value and the
  copied lines.
\<close>

definition copy_header :: "string \<times> string \<Rightarrow> string \<times> string \<times> string \<Rightarrow> string \<times> string \<times> string" where
  "copy_header header acc =
     (let (key, val) = header; (clientHost, forwardedFor, out) = acc in
      if key = ''host'' then (val, forwardedFor, out)
      else if key = ''connection'' \<or> key = ''content-length'' then (clientHost, forwardedFor, out)
      else if key = ''x-forwarded-for'' then (clientHost, val, out)
      else (clientHost, forwardedFor, out @ key @ '': '' @ val @ CRLF))"

definition copy_headers :: "(string, string) omap \<Rightarrow> string \<times> string \<times> string" where
  "copy_headers headers = fold copy_header headers ([], [], [])"

definition forwarded_lines :: "string \<Rightarrow> string \<Rightarrow> string" where
  "forwarded_lines clientIp forwardedFor =
     (if clientIp \<noteq> [] then
        ''X-Forwarded-For: '' @
          (if forwardedFor \<noteq> [] then forwardedFor @ '', '' @ clientIp else clientIp) @ CRLF @
        ''X-Real-IP: '' @ clientIp @ CRLF
      else [])"

definition upstream_addr :: "proxy_options \<Rightarrow> string" where
  "upstream_addr opts = po_targetHost opts @ '':'' @ string_of_nat (po_targetPort opts)"

definition build_request :: "proxy_options \<Rightarrow> http_request \<Rightarrow> string \<Rightarrow> string" where
  "build_request opts rq clientIp =
     (let (clientHost, forwardedFor, copied) = copy_headers (rq_headers rq) in
      methodToString (rq_method rq) @ '' '' @ rewritePath opts (rq_path rq) (rq_query rq) @
      '' HTTP/1.1'' @ CRLF @
      ''Host: '' @ upstream_addr opts @ CRLF @
      ''Connection: close'' @ CRLF @
      copied @
      forwarded_lines clientIp forwardedFor @
      (if clientHost \<noteq> [] then ''X-Forwarded-Host: '' @ clientHost @ CRLF else []) @
      ''X-Forwarded-Proto: http'' @ CRLF @
      (if rq_body rq \<noteq> [] then ''Content-Length: '' @ string_of_nat (length (rq_body rq)) @ CRLF else []) @
      CRLF @ rq_body rq)"

section \<open>The upstream response\<close>

definition LF :: char where
  "LF = CHR 0x0A"

text \<open>The lines repeated \<open>std::getline\<close> delivers.\<close>

function getlines :: "string \<Rightarrow> string list" where
  "getlines s = (case find_char LF s of
     None \<Rightarrow> if s = [] then [] else [s]
   | Some n \<Rightarrow> take n s # getlines (drop (n + 1) s))"
  by pat_completeness auto
termination
  by (relation "measure length") (auto dest: find_char_less)

declare getlines.simps [simp del]

definition pop_CR :: "string \<Rightarrow> string" where
  "pop_CR line = (if line \<noteq> [] \<and> last line = CHR 0x0D then butlast line else line)"

text \<open>\<open>HTTP/1.1 200 OK\<close>: the code and the reason phrase.\<close>

definition status_line :: "string \<Rightarrow> int \<times> string" where
  "status_line line =
     (case find_char (CHR '' '') line of
        None \<Rightarrow> (200, ''OK'')
      | Some firstSpace \<Rightarrow>
          (let rest = substr_from line (firstSpace + 1) in
           case find_char (CHR '' '') rest of
             None \<Rightarrow> (atoi rest, ''OK'')
           | Some n \<Rightarrow> (atoi (substr rest 0 n), substr_from rest (n + 1))))"

text \<open>One header line, its carriage return already removed.\<close>

definition response_header_line :: "string \<Rightarrow> http_response \<Rightarrow> http_response" where
  "response_header_line headerLine r =
     (if headerLine = [] then r
      else case find_char (CHR '':'') headerLine of
          None \<Rightarrow> r
        | Some colon \<Rightarrow>
            let key = substr headerLine 0 colon;
                val = dropWhile is_blank (substr_from headerLine (colon + 1)) in
            if key \<noteq> ''Connection'' \<and> key \<noteq> ''connection'' then setHeader key val r else r)"

definition parse_response :: "proxy_options \<Rightarrow> string \<Rightarrow> http_response" where
  "parse_response opts responseRaw =
     (case find_str (CRLF @ CRLF) responseRaw of
        None \<Rightarrow>
          setHeader ''X-Proxy-By'' ''MyselfWebServer''
            (setBody responseRaw
              (setContentType ''text/plain; charset=utf-8''
                (setStatus 200 ''OK'' (HttpResponse_new False))))
      | Some headerEnd \<Rightarrow>
          (case map pop_CR (getlines (substr responseRaw 0 headerEnd)) of
             [] \<Rightarrow> badGateway ''Malformed status line from upstream''
           | statusLine # headerLines \<Rightarrow>
               (let (statusCode, statusMsg) = status_line statusLine;
                    response = fold response_header_line headerLines
                      (setStatus statusCode statusMsg (HttpResponse_new False)) in
                setHeader ''X-Upstream-Addr'' (upstream_addr opts)
                  (setHeader ''X-Proxy-By'' ''MyselfWebServer''
                    (setBody (substr_from responseRaw (headerEnd + 4)) response)))))"

section \<open>Forwarding\<close>

datatype read_result = ReadData string | ReadEof | ReadErr int

text \<open>
  The outside: \<open>socket\<close> and \<open>connect\<close> (a descriptor or the error number), name resolution
  (either \<open>inet_pton\<close> or \<open>getaddrinfo\<close> succeeds), the result of the \<open>k\<close>-th \<open>write\<close> for the
  bytes offered, the results of successive reads, and \<open>strerror\<close>.
\<close>

record upstream =
  up_socket :: "int + int"
  up_resolves :: "string \<Rightarrow> bool"
  up_connect :: "int option"
  up_write :: "nat \<Rightarrow> string \<Rightarrow> int"
  up_writeErrno :: int
  up_reads :: "read_result list"
  up_strerror :: "int \<Rightarrow> string"

datatype sys_event = SysSocket int | SysTimeout "int \<times> int" | SysConnect | SysWrite string | SysClose int

definition EINTR :: int where "EINTR = 4"
definition EAGAIN :: int where "EAGAIN = 11"

text \<open>Step 6: whether everything was written, and the pieces the kernel took.\<close>

function send_loop :: "(nat \<Rightarrow> string \<Rightarrow> int) \<Rightarrow> nat \<Rightarrow> string \<Rightarrow> bool \<times> sys_event list" where
  "send_loop wr k rest =
     (if rest = [] then (True, [])
      else let n = wr k rest in
        if n \<le> 0 then (False, [])
        else let (ok, evs) = send_loop wr (Suc k) (drop (nat n) rest) in
          (ok, SysWrite (take (nat n) rest) # evs))"
  by pat_completeness auto
termination
  by (relation "measure (\<lambda>(wr, k, rest). length rest)") auto

declare send_loop.simps [simp del]

datatype read_outcome = Got string | TimedOut | Failed int

text \<open>Step 7; \<^term>\<open>None\<close> while the peer keeps the connection open.\<close>

fun read_loop :: "read_result list \<Rightarrow> string \<Rightarrow> read_outcome option" where
  "read_loop [] responseRaw = None"
| "read_loop (ReadData d # rs) responseRaw = read_loop rs (responseRaw @ d)"
| "read_loop (ReadEof # rs) responseRaw = Some (Got responseRaw)"
| "read_loop (ReadErr e # rs) responseRaw =
     (if e = EINTR then read_loop rs responseRaw
      else if e = EAGAIN then Some TimedOut
      else Some (Failed e))"

definition receive :: "proxy_options \<Rightarrow> upstream \<Rightarrow> http_response option" where
  "receive opts up = map_option (\<lambda>out. case out of
       TimedOut \<Rightarrow> gatewayTimeout ''Timeout waiting for upstream response''
     | Failed e \<Rightarrow> badGateway (''Read from upstream failed: '' @ up_strerror up e)
     | Got responseRaw \<Rightarrow>
         if responseRaw = [] then badGateway ''Empty response from upstream''
         else parse_response opts responseRaw) (read_loop (up_reads up) [])"

definition forward ::
  "proxy_options \<Rightarrow> upstream \<Rightarrow> http_request \<Rightarrow> string \<Rightarrow> (http_response \<times> sys_event list) option" where
  "forward opts up request clientIp =
     (if \<not> po_enabled opts then Some (badGateway ''Reverse proxy is disabled'', [])
      else case up_socket up of
        Inl e \<Rightarrow> Some (badGateway (''Failed to create socket: '' @ up_strerror up e), [])
      | Inr fd \<Rightarrow>
          let opened = [SysSocket fd, SysTimeout (proxy_timeout opts)] in
          if \<not> up_resolves up (po_targetHost opts) then
            Some (badGateway (''Failed to resolve upstream host: '' @ po_targetHost opts),
              opened @ [SysClose fd])
          else case up_connect up of
            Some e \<Rightarrow>
              Some (badGateway (''Cannot reach upstream '' @ upstream_addr opts @ '': '' @
                up_strerror up e), opened @ [SysClose fd])
          | None \<Rightarrow>
              let (ok, sent) = send_loop (up_write up) 0 (build_request opts request clientIp) in
              if \<not> ok then
                Some (badGateway (''Write to upstream failed: '' @ up_strerror up (up_writeErrno up)),
                  opened @ SysConnect # sent @ [SysClose fd])
              else map_option (\<lambda>resp. (resp, opened @ SysConnect # sent @ [SysClose fd])) (receive opts up))"

end
