(* ===== verification/Reverse_Proxy_Props.thy ===== *)
theory Reverse_Proxy_Props
  imports Reverse_Proxy
begin

text \<open>
  Properties of the proxy: how the upstream request is framed, what of an upstream's answer reaches
  the client, and that the socket is closed on every path.
\<close>

section \<open>Paths and timeouts\<close>

lemma rewritePath_absolute: "originalPath \<noteq> [] \<Longrightarrow> hd originalPath = CHR ''/'' \<Longrightarrow>
    \<exists>p. rewritePath opts originalPath query = CHR ''/'' # p"
  by (cases "substr_from originalPath (length (po_prefix opts))"; cases originalPath)
    (auto simp: rewritePath_def Let_def)

text \<open>
  The proxy never runs without a timeout. For every configured number of seconds that is not
  negative, the \<open>timeval\<close> given to the kernel is one the kernel accepts (microseconds below a
  million) and is not zero, which would mean waiting for ever.
\<close>

lemma proxy_timeout_armed:
  assumes "0 \<le> po_timeoutSeconds opts"
  shows "case proxy_timeout opts of (sec, usec) \<Rightarrow>
    (0 < sec \<or> 0 < usec) \<and> 0 \<le> sec \<and> 0 \<le> usec \<and> usec < 1000000"
proof -
  define t where "t = po_timeoutSeconds opts"
  have t: "0 \<le> t" using assms by (simp add: t_def)
  have s: "rat_trunc t = \<lfloor>t\<rfloor>" "0 \<le> \<lfloor>t\<rfloor>" using t by (simp_all add: rat_trunc_def)
  have f: "0 \<le> t - of_int \<lfloor>t\<rfloor>" "t - of_int \<lfloor>t\<rfloor> < 1" by linarith+
  then have "0 \<le> (t - of_int \<lfloor>t\<rfloor>) * 1000000" "(t - of_int \<lfloor>t\<rfloor>) * 1000000 < 1000000" by simp_all
  then have "0 \<le> rat_trunc ((t - of_int \<lfloor>t\<rfloor>) * 1000000)"
    "rat_trunc ((t - of_int \<lfloor>t\<rfloor>) * 1000000) < 1000000"
    by (simp_all add: rat_trunc_def floor_less_iff)
  then show ?thesis using s by (auto simp: proxy_timeout_def Let_def simp flip: t_def)
qed

lemma proxy_timeout_armed_witness:
  "case proxy_timeout (ProxyOptions_new\<lparr>po_timeoutSeconds := 5 / 2\<rparr>) of (sec, usec) \<Rightarrow>
    (0 < sec \<or> 0 < usec) \<and> 0 \<le> sec \<and> 0 \<le> usec \<and> usec < 1000000"
  by (rule proxy_timeout_armed) simp

section \<open>The request sent upstream\<close>

definition proxy_dropped :: "string \<Rightarrow> bool" where
  "proxy_dropped key \<longleftrightarrow> key \<in> {''host'', ''connection'', ''content-length'', ''x-forwarded-for''}"

definition field_line :: "string \<times> string \<Rightarrow> string" where
  "field_line f = fst f @ '': '' @ snd f"

definition proxy_lines :: "proxy_options \<Rightarrow> http_request \<Rightarrow> string \<Rightarrow> string list" where
  "proxy_lines opts rq ip =
     [methodToString (rq_method rq) @ '' '' @ rewritePath opts (rq_path rq) (rq_query rq) @ '' HTTP/1.1'',
      ''Host: '' @ upstream_addr opts, ''Connection: close''] @
     map field_line (filter (\<lambda>f. \<not> proxy_dropped (fst f)) (rq_headers rq)) @
     (if ip \<noteq> [] then
        [''X-Forwarded-For: '' @ (if getHeader rq ''x-forwarded-for'' \<noteq> []
           then getHeader rq ''x-forwarded-for'' @ '', '' @ ip else ip), ''X-Real-IP: '' @ ip] else []) @
     (if getHeader rq ''host'' \<noteq> [] then [''X-Forwarded-Host: '' @ getHeader rq ''host''] else []) @
     [''X-Forwarded-Proto: http''] @
     (if rq_body rq \<noteq> [] then [''Content-Length: '' @ string_of_nat (length (rq_body rq))] else [])"

lemma fold_copy_header:
  "distinct (map fst hs) \<Longrightarrow> fold copy_header hs (h, f, out) =
     ((case map_of hs ''host'' of None \<Rightarrow> h | Some v \<Rightarrow> v),
      (case map_of hs ''x-forwarded-for'' of None \<Rightarrow> f | Some v \<Rightarrow> v),
      out @ concat (map (\<lambda>f. field_line f @ CRLF) (filter (\<lambda>f. \<not> proxy_dropped (fst f)) hs)))"
proof (induction hs arbitrary: h f out)
  case Nil
  then show ?case by simp
next
  case (Cons p hs)
  obtain k v where p: "p = (k, v)" by (cases p)
  have k: "map_of hs k = None" using Cons.prems p by (simp add: map_of_eq_None_iff)
  consider "k = ''host''" | "k = ''connection''" | "k = ''content-length''" | "k = ''x-forwarded-for''"
    | "\<not> proxy_dropped k" by (auto simp: proxy_dropped_def)
  then show ?case
    using Cons p k
    by cases (auto simp: copy_header_def proxy_dropped_def field_line_def)
qed

lemma build_request_lines:
  assumes "om_valid (rq_headers rq)"
  shows "build_request opts rq ip =
    concat (map (\<lambda>l. l @ CRLF) (proxy_lines opts rq ip)) @ CRLF @ rq_body rq"
proof -
  have d: "distinct (map fst (rq_headers rq))"
    using assms by (auto simp: om_valid_def strict_sorted_iff)
  have l: "toLower ''host'' = ''host''" "toLower ''x-forwarded-for'' = ''x-forwarded-for''"
    by (simp_all add: toLower_def to_lower_def)
  show ?thesis
    unfolding build_request_def copy_headers_def fold_copy_header [OF d] proxy_lines_def getHeader_def
      om_get_def l
    by (simp add: forwarded_lines_def comp_def)
qed

definition request_one_line :: "http_request \<Rightarrow> bool" where
  "request_one_line rq \<longleftrightarrow> one_line (rq_path rq) \<and> one_line (rq_query rq) \<and>
     (\<forall>(k, v) \<in> set (rq_headers rq). one_line k \<and> one_line v)"

lemma one_line_rewritePath:
  "one_line p \<Longrightarrow> one_line q \<Longrightarrow> one_line (rewritePath opts p q)"
  by (auto simp: one_line_def rewritePath_def Let_def substr_from_def dest: in_set_dropD)

lemma one_line_append [simp]: "one_line (a @ b) \<longleftrightarrow> one_line a \<and> one_line b"
  by (simp add: one_line_def)

lemma one_line_Cons [simp]: "one_line (c # b) \<longleftrightarrow> c \<noteq> CHR 0x0D \<and> one_line b"
  by (auto simp: one_line_def)

lemma one_line_Nil [simp]: "one_line []"
  by (simp add: one_line_def)

lemma one_line_method: "one_line (methodToString m)"
  by (cases m) (simp_all add: methodToString_def)

lemma one_line_getHeader: "request_one_line rq \<Longrightarrow> one_line (getHeader rq k)"
  by (auto simp: getHeader_def request_one_line_def om_get_def split: option.split dest!: map_of_SomeD)

lemma proxy_lines_ok:
  assumes "request_one_line rq" "one_line (po_targetHost opts)" "one_line ip"
    and "l \<in> set (proxy_lines opts rq ip)"
  shows "CHR 0x0D \<notin> set l \<and> l \<noteq> []"
proof -
  have "one_line (rewritePath opts (rq_path rq) (rq_query rq))"
    using assms(1) by (simp add: request_one_line_def one_line_rewritePath)
  moreover have "one_line (field_line f)" if "f \<in> set (rq_headers rq)" for f
    using that assms(1) by (auto simp: request_one_line_def field_line_def)
  ultimately have "one_line l \<and> l \<noteq> []"
    using assms one_line_getHeader [OF assms(1)]
    by (auto simp: proxy_lines_def upstream_addr_def field_line_def one_line_method split: if_splits)
  then show ?thesis by (simp add: one_line_def)
qed

text \<open>
  The framing of the upstream request. For a request whose fields are single lines, an
  upstream that reads lines up to the first empty one gets the request line with the rewritten
  target, the proxy's own lines and the client's remaining fields, and after them exactly the
  body; a Content-Length with the body's size is there when the body is not empty, and no
  client-supplied one is.
\<close>

lemma build_request_framing:
  assumes "request_one_line rq" "om_valid (rq_headers rq)"
    and "one_line (po_targetHost opts)" "one_line ip"
  shows "read_head (build_request opts rq ip) = Some (proxy_lines opts rq ip, rq_body rq)"
  unfolding build_request_lines [OF assms(2)]
  by (rule read_head_lines) (use proxy_lines_ok [OF assms(1,3,4)] in blast)


section \<open>Relaying a response\<close>

fun crlf_join :: "string list \<Rightarrow> string" where
  "crlf_join [] = []"
| "crlf_join [l] = l"
| "crlf_join (l # ls) = l @ CRLF @ crlf_join ls"

definition plain_line :: "string \<Rightarrow> bool" where
  "plain_line l \<longleftrightarrow> l \<noteq> [] \<and> CHR 0x0D \<notin> set l \<and> LF \<notin> set l"

text \<open>The blank line ends the head: no earlier place in it looks like two line ends.\<close>

lemma find_blank_line_step:
  "plain_line l \<Longrightarrow> find_str (CRLF @ CRLF) (l @ CRLF @ r) =
     (if take 2 r = CRLF then Some (length l)
      else map_option (\<lambda>n. n + length l + 2) (find_str (CRLF @ CRLF) r))"
proof -
  have "CHR 0x0D \<notin> set l \<Longrightarrow> find_str (CRLF @ CRLF) (l @ CRLF @ r) =
     (if take 2 r = CRLF then Some (length l)
      else map_option (\<lambda>n. n + length l + 2) (find_str (CRLF @ CRLF) r))" for l
  proof (induction l)
    case Nil
    then show ?case
      by (cases r) (auto simp: CRLF_def option.map_comp comp_def numeral_2_eq_2 take_Cons split: nat.split)
  next
    case (Cons x xs)
    then have "take (length (CRLF @ CRLF)) ((x # xs) @ CRLF @ r) \<noteq> CRLF @ CRLF"
      by (auto simp: CRLF_def)
    with Cons show ?case by (simp add: option.map_comp comp_def)
  qed
  then show "plain_line l \<Longrightarrow> ?thesis" by (simp add: plain_line_def)
qed

lemma find_blank_line:
  "ls \<noteq> [] \<Longrightarrow> \<forall>l \<in> set ls. plain_line l \<Longrightarrow>
     find_str (CRLF @ CRLF) (crlf_join ls @ CRLF @ CRLF @ body) = Some (length (crlf_join ls))"
proof (induction ls rule: crlf_join.induct)
  case (2 l)
  then show ?case
    using find_blank_line_step [of l "CRLF @ body"] by (simp add: CRLF_def)
next
  case (3 l l' ls)
  then have "CHR 0x0D \<notin> set l'" "l' \<noteq> []" by (simp_all add: plain_line_def)
  moreover obtain t where "crlf_join (l' # ls) = l' @ t" by (cases ls) auto
  ultimately have "take 2 (crlf_join (l' # ls) @ CRLF @ CRLF @ body) \<noteq> CRLF"
    by (cases l') (auto simp: CRLF_def)
  with 3 show ?case
    using find_blank_line_step [of l "crlf_join (l' # ls) @ CRLF @ CRLF @ body"] by simp
qed simp

lemma getlines_join:
  "\<forall>l \<in> set ls. plain_line l \<Longrightarrow> map pop_CR (getlines (crlf_join ls)) = ls"
proof (induction ls rule: crlf_join.induct)
  case 1
  then show ?case by (simp add: getlines.simps)
next
  case (2 l)
  then have l: "CHR 0x0D \<notin> set l" "LF \<notin> set l" "l \<noteq> []" by (simp_all add: plain_line_def)
  then have "last l \<noteq> CHR 0x0D" using last_in_set [of l] by metis
  with l show ?case by (simp add: getlines.simps find_char_None_iff [THEN iffD2] pop_CR_def)
next
  case (3 l l' ls)
  have "LF \<notin> set (l @ [CHR 0x0D])" using 3 by (simp add: plain_line_def LF_def)
  from find_char_append_new [OF this, of "crlf_join (l' # ls)"]
  have "find_char LF (l @ CRLF @ crlf_join (l' # ls)) = Some (Suc (length l))"
    by (simp add: CRLF_def LF_def)
  moreover have "pop_CR (l @ [CHR 0x0D]) = l" by (simp add: pop_CR_def)
  ultimately show ?case
    using 3 by (subst getlines.simps) (simp add: CRLF_def)
qed

lemma join_lines: "ls \<noteq> [] \<Longrightarrow> concat (map (\<lambda>l. l @ CRLF) ls) = crlf_join ls @ CRLF"
  by (induction ls rule: crlf_join.induct) auto

text \<open>One header line and all of them.\<close>

definition relayed_key :: "string \<Rightarrow> bool" where
  "relayed_key k \<longleftrightarrow> k \<noteq> ''Connection'' \<and> k \<noteq> ''connection''"

text \<open>A line cut at its first colon, and what the code does with it.\<close>

definition cut_field :: "string \<Rightarrow> string \<times> string" where
  "cut_field l = (takeWhile (\<lambda>c. c \<noteq> CHR '':'') l, drop 1 (dropWhile (\<lambda>c. c \<noteq> CHR '':'') l))"

definition upstream_fields :: "string list \<Rightarrow> (string \<times> string) list" where
  "upstream_fields ls = map cut_field (filter (\<lambda>l. CHR '':'' \<in> set l) ls)"

definition put_field :: "string \<times> string \<Rightarrow> http_response \<Rightarrow> http_response" where
  "put_field f r = (if relayed_key (fst f) then setHeader (fst f) (dropWhile is_blank (snd f)) r else r)"

lemma response_header_field:
  "response_header_line l r = (if CHR '':'' \<in> set l then put_field (cut_field l) r else r)"
proof (cases "find_char (CHR '':'') l")
  case None
  then have "CHR '':'' \<notin> set l" by (simp add: find_char_None_iff)
  with None show ?thesis by (simp add: response_header_line_def)
next
  case (Some n)
  then have "CHR '':'' \<in> set l" by (metis find_char_None_iff option.distinct(1))
  with Some show ?thesis
    by (auto simp: response_header_line_def cut_field_def find_char_split [OF Some] put_field_def
        relayed_key_def substr_def substr_from_def Let_def)
qed

lemma fold_response_fields: "fold response_header_line ls r = fold put_field (upstream_fields ls) r"
  by (induction ls arbitrary: r) (simp_all add: upstream_fields_def response_header_field)

lemma put_fields_frame:
  "rs_statusCode (fold put_field fs r) = rs_statusCode r \<and>
   rs_statusMessage (fold put_field fs r) = rs_statusMessage r \<and>
   rs_fileBody (fold put_field fs r) = rs_fileBody r \<and>
   rs_closeConnection (fold put_field fs r) = rs_closeConnection r"
  by (induction fs arbitrary: r) (auto simp: put_field_def setHeader_def)

lemma put_fields_get:
  "relayed_key k \<Longrightarrow> om_get (rs_headers (fold put_field fs r)) k =
     (case map_of (rev fs) k of None \<Rightarrow> om_get (rs_headers r) k | Some v \<Rightarrow> Some (dropWhile is_blank v))"
proof (induction fs arbitrary: r)
  case Nil
  then show ?case by simp
next
  case (Cons f fs)
  obtain k' v where f: "f = (k', v)" by (cases f)
  show ?case
    using Cons.prems Cons.IH [of "put_field f r"]
    by (auto simp: f put_field_def setHeader_get map_add_def split: option.splits)
qed

lemma put_fields_drop:
  "\<not> relayed_key k \<Longrightarrow> om_get (rs_headers (fold put_field fs r)) k = om_get (rs_headers r) k"
  by (induction fs arbitrary: r) (auto simp: put_field_def setHeader_get)

lemma status_line_read:
  assumes "CHR '' '' \<notin> set ver" "isDigitString code" "nat_of_digits code < 2 ^ 31"
    and "tail = '' '' @ reason \<or> tail = [] \<and> reason = ''OK''"
  shows "status_line (ver @ '' '' @ code @ tail) = (int (nat_of_digits code), reason)"
proof -
  have n: "CHR '' '' \<notin> set code"
    using assms(2) by (auto simp: isDigitString_def list_all_iff is_digit_def)
  have v: "find_char (CHR '' '') (ver @ CHR '' '' # code @ tail) = Some (length ver)"
    by (rule find_char_append_new [OF assms(1)])
  have c: "atoi code = int (nat_of_digits code)" using assms(2,3) by (simp add: atoi_digits)
  have "find_char (CHR '' '') (code @ CHR '' '' # reason) = Some (length code)"
    by (rule find_char_append_new [OF n])
  then show ?thesis
    using assms(4) v c n
    by (auto simp: status_line_def substr_def substr_from_def Let_def find_char_None_iff [THEN iffD2])
qed

lemma parse_upstream:
  assumes h: "read_head raw = Some (line # ls, body)"
    and plain: "\<forall>l \<in> set (line # ls). CHR 0x0D \<notin> set l \<and> LF \<notin> set l"
    and st: "status_line line = (code, reason)"
  shows "parse_response opts raw =
    setHeader ''X-Upstream-Addr'' (upstream_addr opts)
      (setHeader ''X-Proxy-By'' ''MyselfWebServer''
        (setBody body (fold put_field (upstream_fields ls)
          (setStatus code reason (HttpResponse_new False)))))"
proof -
  have p: "\<forall>l \<in> set (line # ls). plain_line l"
    using plain read_head_text [OF h] by (simp add: plain_line_def)
  have s: "raw = crlf_join (line # ls) @ CRLF @ CRLF @ body"
    using read_head_text [OF h] join_lines [of "line # ls"] by (simp del: crlf_join.simps)
  have f: "find_str (CRLF @ CRLF) raw = Some (length (crlf_join (line # ls)))"
    unfolding s using find_blank_line [of "line # ls"] p by simp
  have b: "substr_from raw (length (crlf_join (line # ls)) + 4) = body"
    "substr raw 0 (length (crlf_join (line # ls))) = crlf_join (line # ls)"
    by (simp_all add: s substr_from_def substr_def numeral_eq_Suc)
  show ?thesis
    unfolding parse_response_def f option.case b getlines_join [OF p] list.case st Let_def prod.case
      fold_response_fields ..
qed

text \<open>Reads that deliver \<open>raw\<close> in any pieces, interrupted or not.\<close>

lemma read_loop_pieces:
  "filter (\<lambda>e. e \<noteq> ReadErr EINTR) rs = map ReadData ds @ ReadEof # late \<Longrightarrow>
     read_loop rs acc = Some (Got (acc @ concat ds))"
proof (induction rs acc arbitrary: ds rule: read_loop.induct)
  case (2 d rs acc)
  then show ?case by (cases ds) auto
next
  case (3 rs acc)
  then show ?case by (cases ds) auto
next
  case (4 e rs acc)
  have "e = EINTR" using "4.prems" by (cases ds) (auto split: if_splits)
  then show ?case using "4.prems" "4.IH" [of ds] by simp
qed simp

text \<open>
  C12: what the proxy relays. The upstream may send any status line, any header lines (without
  stray line ends) and any body, in any pieces. The client is answered with the status number, the
  reason and the whole body. Its headers are exactly these: two of the proxy's own, and for every
  other name but Connection the value of the last header line of that name, without leading blanks;
  a line without a colon is dropped. So of a repeated header such as Set-Cookie only the last
  one reaches the client.
\<close>

theorem proxy_relays_response:
  assumes "filter (\<lambda>e. e \<noteq> ReadErr EINTR) (up_reads up) = map ReadData ds @ ReadEof # late"
    and "read_head (concat ds) = Some (line # ls, body)"
    and "\<forall>l \<in> set (line # ls). CHR 0x0D \<notin> set l \<and> LF \<notin> set l"
    and "line = ver @ '' '' @ code @ tail" "CHR '' '' \<notin> set ver"
    and "isDigitString code" "nat_of_digits code < 2 ^ 31"
    and "tail = '' '' @ reason \<or> tail = [] \<and> reason = ''OK''"
  shows "\<exists>p. receive opts up = Some p \<and>
    rs_statusCode p = int (nat_of_digits code) \<and> rs_statusMessage p = reason \<and>
    rs_body p = body \<and> rs_fileBody p = None \<and> \<not> rs_closeConnection p \<and>
    om_get (rs_headers p) = (\<lambda>k.
      if k = ''X-Upstream-Addr'' then Some (upstream_addr opts)
      else if k = ''X-Proxy-By'' then Some ''MyselfWebServer''
      else if k = ''Connection'' \<or> k = ''connection'' then None
      else map_option (dropWhile is_blank) (map_of (rev (upstream_fields ls)) k))"
proof -
  have st: "status_line line = (int (nat_of_digits code), reason)"
    unfolding assms(4) by (rule status_line_read [OF assms(5-8)])
  let ?f = "fold put_field (upstream_fields ls)
    (setStatus (int (nat_of_digits code)) reason (HttpResponse_new False))"
  let ?p = "setHeader ''X-Upstream-Addr'' (upstream_addr opts)
      (setHeader ''X-Proxy-By'' ''MyselfWebServer'' (setBody body ?f))"
  have "concat ds \<noteq> []" using read_head_text [OF assms(2)] by auto
  then have r: "receive opts up = Some ?p"
    using read_loop_pieces [OF assms(1), of "[]"] parse_upstream [OF assms(2,3) st, of opts]
    by (simp add: receive_def del: concat_eq_Nil_conv)
  have "om_get (rs_headers ?f) k = (if k = ''Connection'' \<or> k = ''connection'' then None
      else map_option (dropWhile is_blank) (map_of (rev (upstream_fields ls)) k))" for k
    using put_fields_get [of k "upstream_fields ls"] put_fields_drop [of k "upstream_fields ls"]
    by (simp add: relayed_key_def setStatus_def HttpResponse_new_def om.get_empty split: option.split)
  then have "om_get (rs_headers (setBody body ?f)) k = (if k = ''Connection'' \<or> k = ''connection'' then None
      else map_option (dropWhile is_blank) (map_of (rev (upstream_fields ls)) k))" for k
    by (simp add: setBody_def)
  then have "om_get (rs_headers ?p) = (\<lambda>k.
      if k = ''X-Upstream-Addr'' then Some (upstream_addr opts)
      else if k = ''X-Proxy-By'' then Some ''MyselfWebServer''
      else if k = ''Connection'' \<or> k = ''connection'' then None
      else map_option (dropWhile is_blank) (map_of (rev (upstream_fields ls)) k))"
    by (simp add: setHeader_get fun_eq_iff)
  moreover have "rs_statusCode ?p = int (nat_of_digits code) \<and> rs_statusMessage ?p = reason \<and>
      rs_body ?p = body \<and> rs_fileBody ?p = None \<and> \<not> rs_closeConnection ?p"
    using put_fields_frame [of "upstream_fields ls"]
    by (simp add: setHeader_def setBody_def) (simp add: setStatus_def HttpResponse_new_def)
  ultimately show ?thesis using r by blast
qed

text \<open>An upstream that sets two cookies, in two pieces with an interrupted call between them.\<close>

definition cookie_head :: string where
  "cookie_head = ''HTTP/1.0 302 Found'' @ CRLF @ ''Set-Cookie: a=1'' @ CRLF @ ''Set-Cookie: b=2'' @ CRLF @ CRLF"

definition cookie_up :: upstream where
  "cookie_up = \<lparr>up_socket = Inr 7, up_resolves = (\<lambda>h. True), up_connect = None,
     up_write = (\<lambda>k s. 10), up_writeErrno = 0,
     up_reads = [ReadData cookie_head, ReadErr EINTR, ReadData ''hi'', ReadEof], up_strerror = (\<lambda>e. ''error'')\<rparr>"

lemma cookie_lines:
  "read_head (concat [cookie_head, ''hi'']) =
     Some ([''HTTP/1.0 302 Found'', ''Set-Cookie: a=1'', ''Set-Cookie: b=2''], ''hi'')"
proof -
  have "concat [cookie_head, ''hi''] =
      concat (map (\<lambda>l. l @ CRLF) [''HTTP/1.0 302 Found'', ''Set-Cookie: a=1'', ''Set-Cookie: b=2'']) @
      CRLF @ ''hi''"
    by (simp add: cookie_head_def)
  then show ?thesis by (simp only:) (rule read_head_lines, simp)
qed

lemma cookie_fields:
  "upstream_fields [''Set-Cookie: a=1'', ''Set-Cookie: b=2''] = [(''Set-Cookie'', '' a=1''), (''Set-Cookie'', '' b=2'')]"
  by (simp add: upstream_fields_def cut_field_def)

lemma cookie_code: "isDigitString ''302'' \<and> nat_of_digits ''302'' = 302"
  by code_simp

theorem proxy_relays_response_witness:
  "\<exists>p. receive ProxyOptions_new cookie_up = Some p \<and> rs_statusCode p = 302 \<and>
     rs_statusMessage p = ''Found'' \<and> rs_body p = ''hi'' \<and>
     om_get (rs_headers p) ''Set-Cookie'' = Some ''b=2''"
proof -
  have reads: "filter (\<lambda>e. e \<noteq> ReadErr EINTR) (up_reads cookie_up) =
      map ReadData [cookie_head, ''hi''] @ ReadEof # []" by (simp add: cookie_up_def)
  have plain: "\<forall>l \<in> set [''HTTP/1.0 302 Found'', ''Set-Cookie: a=1'', ''Set-Cookie: b=2''].
      CHR 0x0D \<notin> set l \<and> LF \<notin> set l" by (simp add: LF_def)
  have line: "''HTTP/1.0 302 Found'' = ''HTTP/1.0'' @ '' '' @ ''302'' @ '' Found''"
    "CHR '' '' \<notin> set ''HTTP/1.0''" "'' Found'' = '' '' @ ''Found''" by simp_all
  from proxy_relays_response [OF reads cookie_lines plain line(1,2) cookie_code [THEN conjunct1]
      _ disjI1 [OF line(3)], of ProxyOptions_new] cookie_code
  have "\<exists>p. receive ProxyOptions_new cookie_up = Some p \<and> rs_statusCode p = 302 \<and>
      rs_statusMessage p = ''Found'' \<and> rs_body p = ''hi'' \<and>
      om_get (rs_headers p) = (\<lambda>k.
        if k = ''X-Upstream-Addr'' then Some (upstream_addr ProxyOptions_new)
        else if k = ''X-Proxy-By'' then Some ''MyselfWebServer''
        else if k = ''Connection'' \<or> k = ''connection'' then None
        else map_option (dropWhile is_blank)
          (map_of (rev (upstream_fields [''Set-Cookie: a=1'', ''Set-Cookie: b=2''])) k))"
    by fastforce
  then show ?thesis by (auto simp: cookie_fields is_blank_def)
qed

section \<open>The calls on the socket\<close>

fun opens :: "sys_event \<Rightarrow> bool" where
  "opens (SysSocket fd) = True"
| "opens (SysClose fd) = True"
| "opens _ = False"

fun written :: "sys_event list \<Rightarrow> string" where
  "written [] = []"
| "written (SysWrite s # evs) = s @ written evs"
| "written (_ # evs) = written evs"

lemma written_append: "written (a @ b) = written a @ written b"
  by (induction a rule: written.induct) auto

lemma send_loop_props:
  "send_loop wr k rest = (ok, evs) \<Longrightarrow>
     (\<forall>e \<in> set evs. \<not> opens e) \<and> (\<exists>left. rest = written evs @ left \<and> (ok \<longleftrightarrow> left = []))"
proof (induction wr k rest arbitrary: ok evs rule: send_loop.induct)
  case (1 wr k rest)
  show ?case
  proof (cases "rest = [] \<or> wr k rest \<le> 0")
    case True
    with "1.prems" show ?thesis by (auto simp: send_loop.simps [of wr k rest] split: if_splits)
  next
    case False
    obtain ok' evs' where s: "send_loop wr (Suc k) (drop (nat (wr k rest)) rest) = (ok', evs')"
      by fastforce
    with False "1.prems" have e: "ok = ok'" "evs = SysWrite (take (nat (wr k rest)) rest) # evs'"
      by (simp_all add: send_loop.simps [of wr k rest])
    obtain left where "drop (nat (wr k rest)) rest = written evs' @ left" "ok' \<longleftrightarrow> left = []"
      "\<forall>e \<in> set evs'. \<not> opens e"
      using "1.IH" [OF _ refl _ s] False by auto
    moreover from this(1) have "rest = take (nat (wr k rest)) rest @ written evs' @ left"
      by (metis append_take_drop_id)
    ultimately show ?thesis using e by (intro conjI exI [of _ left]) auto
  qed
qed

text \<open>
  C13: the proxy's socket. Every call of the proxy that returns has either opened no socket or
  opened exactly one, sent on it a prefix of the upstream request, and closed that same
  descriptor as its last act; when the answer is not a 502 the whole request was sent.
\<close>

theorem forward_closes_socket:
  assumes "forward opts up rq ip = Some (resp, trace)"
  shows "(trace = [] \<and> rs_statusCode resp = 502) \<or>
    (\<exists>fd mid left. trace = SysSocket fd # mid @ [SysClose fd] \<and> (\<forall>e \<in> set mid. \<not> opens e) \<and>
       build_request opts rq ip = written mid @ left \<and>
       (left \<noteq> [] \<longrightarrow> rs_statusCode resp = 502))"
proof -
  obtain ok sent where s: "send_loop (up_write up) 0 (build_request opts rq ip) = (ok, sent)"
    by fastforce
  obtain left where l: "build_request opts rq ip = written sent @ left" "ok \<longleftrightarrow> left = []"
    "\<forall>e \<in> set sent. \<not> opens e"
    using send_loop_props [OF s] by auto
  show ?thesis
  proof (cases "po_enabled opts")
    case False
    then show ?thesis using assms by (auto simp: forward_def)
  next
    case en: True
    show ?thesis
    proof (cases "up_socket up")
      case (Inl e)
      then show ?thesis using assms en by (auto simp: forward_def)
    next
      case (Inr fd)
      show ?thesis
      proof (cases "up_resolves up (po_targetHost opts) \<and> up_connect up = None")
        case False
        then have "trace = SysSocket fd # [SysTimeout (proxy_timeout opts)] @ [SysClose fd] \<and>
            rs_statusCode resp = 502"
          using assms en Inr
          by (cases "up_connect up"; cases "up_resolves up (po_targetHost opts)")
            (auto simp: forward_def Let_def)
        then show ?thesis by (intro disjI2 exI [of _ fd] exI) (rule conjI, blast, simp)
      next
        case True
        then have "trace = SysSocket fd # (SysTimeout (proxy_timeout opts) # SysConnect # sent) @ [SysClose fd] \<and>
            (ok \<or> rs_statusCode resp = 502)"
          using assms en Inr s by (cases ok) (auto simp: forward_def Let_def)
        then show ?thesis using l
          by (intro disjI2 exI [of _ fd] exI [of _ "SysTimeout (proxy_timeout opts) # SysConnect # sent"]
              exI [of _ left]) auto
      qed
    qed
  qed
qed

text \<open>
  C14: the proxy answers. If the sequence of reads has an end of file or an error other than an
  interrupted call, forwarding returns a response, whatever the other calls do.
\<close>

theorem forward_returns:
  assumes "\<exists>e \<in> set (up_reads up). e = ReadEof \<or> (\<exists>n. e = ReadErr n \<and> n \<noteq> EINTR)"
  shows "\<exists>resp trace. forward opts up rq ip = Some (resp, trace)"
proof -
  have "\<exists>out. read_loop rs acc = Some out"
    if "\<exists>e \<in> set rs. e = ReadEof \<or> (\<exists>n. e = ReadErr n \<and> n \<noteq> EINTR)" for rs acc
    using that by (induction rs acc rule: read_loop.induct) auto
  with assms have "\<exists>resp. receive opts up = Some resp" by (auto simp: receive_def)
  then show ?thesis
    by (auto simp: forward_def Let_def split: sum.split option.split prod.split)
qed


definition demo_up :: upstream where
  "demo_up = \<lparr>up_socket = Inr 7, up_resolves = (\<lambda>h. True), up_connect = None,
     up_write = (\<lambda>k s. 10), up_writeErrno = 0, up_reads = [ReadErr EINTR, ReadData ''hi'', ReadEof],
     up_strerror = (\<lambda>e. ''error'')\<rparr>"

definition demo_post :: http_request where
  "demo_post = addHeader ''X-Forwarded-For'' ''10.0.0.9'' (setPath ''/api/gateway/x?a=1''
     HttpRequest_new\<lparr>rq_method := kPost, rq_body := ''abc''\<rparr>)"

lemma demo_post_fields:
  "rq_headers demo_post = [(''x-forwarded-for'', ''10.0.0.9'')]" "rq_path demo_post = ''/api/gateway/x''"
  "rq_query demo_post = ''a=1''"
  by (simp_all add: demo_post_def addHeader_def setPath_def HttpRequest_new_def om_empty_def
      toLower_def to_lower_def trim_id is_blank_def substr_def substr_from_def)
    (simp add: char_of_def bit_0)

lemma build_request_framing_witness:
  "read_head (build_request ProxyOptions_new demo_post ''10.0.0.1'') =
     Some (proxy_lines ProxyOptions_new demo_post ''10.0.0.1'', ''abc'')"
proof -
  have "rq_body demo_post = ''abc''" by (simp add: demo_post_def)
  then show ?thesis
    using build_request_framing [of demo_post ProxyOptions_new "''10.0.0.1''"]
    by (simp add: demo_post_fields request_one_line_def ProxyOptions_new_def)
qed

lemma demo_forward: "\<exists>resp trace. forward ProxyOptions_new demo_up demo_post ''10.0.0.1'' = Some (resp, trace)"
  by (simp add: forward_def receive_def demo_up_def ProxyOptions_new_def Let_def EINTR_def
      split: prod.split)

theorem forward_closes_socket_witness:
  "\<exists>resp trace. forward ProxyOptions_new demo_up demo_post ''10.0.0.1'' = Some (resp, trace) \<and>
     (trace = [] \<or> (\<exists>fd mid. trace = SysSocket fd # mid @ [SysClose fd]))"
  using demo_forward forward_closes_socket by blast

theorem forward_returns_witness:
  "\<exists>resp trace. forward ProxyOptions_new demo_up demo_post ''10.0.0.1'' = Some (resp, trace)"
  by (rule forward_returns) (simp add: demo_up_def)

end
