(* ===== verification/Timer_Queue.thy ===== *)
theory Timer_Queue
  imports Complex_Main Ordered_Map "HOL-Library.Product_Lexorder"
begin

text \<open>
  \<open>timer/Timer\<close>, \<open>timer/TimerQueue\<close> and the time helpers of \<open>util/Timestamp.h\<close>. A time point
  is a number of nanoseconds of the steady clock. The ordered set of entries is a map from the
  pair of expiration and sequence number, in lexicographic order, to the timer. A callback is a
  name; what it does to the queue, the timers it adds and cancels from the loop thread, is the
  parameter \<open>acts\<close>. Timer objects are values here: the code changes one only in \<open>restart\<close>,
  immediately before it stores it again.
\<close>

section \<open>Time\<close>

text \<open>\<open>duration_cast\<close> truncates towards zero; seconds are exact rationals.\<close>

definition trunc_rat :: "rat \<Rightarrow> int" where
  "trunc_rat r = (if 0 \<le> r then \<lfloor>r\<rfloor> else \<lceil>r\<rceil>)"

definition secondsToDuration :: "rat \<Rightarrow> int" where
  "secondsToDuration seconds = trunc_rat (seconds * 1000000000)"

definition msUntil :: "int \<Rightarrow> int \<Rightarrow> int" where
  "msUntil current when = (if when \<le> current then 0 else (when - current) div 1000000)"

text \<open>
  \<open>elapsedMs\<close> counts from the first call, when its static start is set, and not from the start of the
  process; \<open>current\<close> is the clock inside the call.
\<close>

definition elapsedMs :: "int \<Rightarrow> int \<Rightarrow> int option \<Rightarrow> int \<times> int option" where
  "elapsedMs current when start =
     (let s = (case start of None \<Rightarrow> current | Some t \<Rightarrow> t) in (c_div (when - s) 1000000, Some s))"

definition timestamp_text :: "int \<Rightarrow> int \<Rightarrow> int option \<Rightarrow> string" where
  "timestamp_text current when start = string_of_int (fst (elapsedMs current when start)) @ ''ms''"

lemma elapsedMs_from_first_call:
  assumes "when \<le> current" "elapsedMs current when None = (first, start)"
  shows "first \<le> 0 \<and> elapsedMs current' when' start = (c_div (when' - current) 1000000, start)"
  using assms c_div_nonneg [of "current - when" 1000000]
  by (auto simp: elapsedMs_def Let_def c_div_def sgn_if)

section \<open>Timers\<close>

record 'c timer =
  ti_callback :: 'c
  ti_expiration :: int
  ti_intervalSeconds :: rat
  ti_sequence :: nat

definition repeat :: "'c timer \<Rightarrow> bool" where
  "repeat t \<longleftrightarrow> 0 < ti_intervalSeconds t"

definition restart :: "int \<Rightarrow> 'c timer \<Rightarrow> 'c timer" where
  "restart currentTime t =
     (if \<not> repeat t then t
      else t\<lparr>ti_expiration := currentTime + secondsToDuration (ti_intervalSeconds t)\<rparr>)"

record timer_id =
  tid_sequence :: nat
  tid_owner :: "nat option"

definition timer_id_valid :: "timer_id \<Rightarrow> bool" where
  "timer_id_valid i \<longleftrightarrow> tid_sequence i \<noteq> 0 \<and> tid_owner i \<noteq> None"

section \<open>The queue\<close>

text \<open>\<open>tq_self\<close> is the address of the queue, \<open>tq_counter\<close> the process-wide sequence counter.\<close>

record 'c timer_queue =
  tq_self :: nat
  tq_counter :: nat
  tq_entries :: "(int \<times> nat, 'c timer) omap"
  tq_active :: "(nat, 'c timer) omap"

definition TimerQueue_new :: "nat \<Rightarrow> nat \<Rightarrow> 'c timer_queue" where
  "TimerQueue_new self counter =
     \<lparr>tq_self = self, tq_counter = counter, tq_entries = om_empty, tq_active = om_empty\<rparr>"

text \<open>\<open>std::set::insert\<close> keeps an entry that is already there.\<close>

definition set_insert :: "'k::linorder \<Rightarrow> 'v \<Rightarrow> ('k, 'v) omap \<Rightarrow> ('k, 'v) omap" where
  "set_insert k v m = (if om_get m k = None then om_put k v m else m)"

definition timer_key :: "'c timer \<Rightarrow> int \<times> nat" where
  "timer_key t = (ti_expiration t, ti_sequence t)"

definition insertInLoop :: "'c timer \<Rightarrow> 'c timer_queue \<Rightarrow> 'c timer_queue" where
  "insertInLoop t q =
     q\<lparr>tq_active := om_put (ti_sequence t) t (tq_active q),
       tq_entries := set_insert (timer_key t) t (tq_entries q)\<rparr>"

text \<open>\<open>addTimer\<close> called on the loop thread, where \<open>runInLoop\<close> inserts at once.\<close>

text \<open>The constructor of a timer takes the next number of the process-wide counter.\<close>

definition nextTimerSequence :: "nat \<Rightarrow> nat \<times> nat" where
  "nextTimerSequence counter = (counter, counter + 1)"

definition Timer_new :: "'c \<Rightarrow> int \<Rightarrow> rat \<Rightarrow> nat \<Rightarrow> 'c timer \<times> nat" where
  "Timer_new callback when intervalSeconds counter =
     (case nextTimerSequence counter of (i, counter') \<Rightarrow>
        (\<lparr>ti_callback = callback, ti_expiration = when, ti_intervalSeconds = intervalSeconds,
          ti_sequence = i\<rparr>, counter'))"

declare nextTimerSequence_def [simp] Timer_new_def [simp]

definition addTimer :: "'c \<Rightarrow> int \<Rightarrow> rat \<Rightarrow> 'c timer_queue \<Rightarrow> timer_id \<times> 'c timer_queue" where
  "addTimer callback when intervalSeconds q =
     (case Timer_new callback when intervalSeconds (tq_counter q) of (t, counter) \<Rightarrow>
        (\<lparr>tid_sequence = ti_sequence t, tid_owner = Some (tq_self q)\<rparr>,
         insertInLoop t (q\<lparr>tq_counter := counter\<rparr>)))"

definition cancelInLoop :: "timer_id \<Rightarrow> 'c timer_queue \<Rightarrow> 'c timer_queue" where
  "cancelInLoop i q =
     (if tid_owner i \<noteq> Some (tq_self q) then q
      else case om_get (tq_active q) (tid_sequence i) of
          None \<Rightarrow> q
        | Some t \<Rightarrow>
            q\<lparr>tq_active := om_erase (tid_sequence i) (tq_active q),
              tq_entries := om_erase (timer_key t) (tq_entries q)\<rparr>)"

definition cancel :: "timer_id \<Rightarrow> 'c timer_queue \<Rightarrow> 'c timer_queue" where
  "cancel i q = (if \<not> timer_id_valid i then q else cancelInLoop i q)"

definition kMaxTimeoutMs :: int where
  "kMaxTimeoutMs = 24 * 60 * 60 * 1000"

definition nextTimeoutMs :: "int \<Rightarrow> 'c timer_queue \<Rightarrow> int" where
  "nextTimeoutMs current q =
     (case tq_entries q of
        [] \<Rightarrow> -1
      | (k, t) # _ \<Rightarrow> let ms = msUntil current (fst k) in if ms \<le> 0 then 0 else min ms kMaxTimeoutMs)"

section \<open>Expiry\<close>

datatype 'c timer_op = AddOp 'c int rat | CancelOp timer_id

definition run_op :: "'c timer_op \<Rightarrow> 'c timer_queue \<Rightarrow> 'c timer_queue" where
  "run_op oper q = (case oper of
     AddOp c when interval \<Rightarrow> snd (addTimer c when interval q)
   | CancelOp i \<Rightarrow> cancel i q)"

text \<open>
  \<open>timer->run()\<close>: the callback does its operations one after the other. The state is the queue and,
  for an observer, the timers that have been run so far.
\<close>

definition run_timer ::
  "('c \<Rightarrow> 'c timer_queue \<Rightarrow> 'c timer_op list) \<Rightarrow> 'c timer \<Rightarrow>
     'c timer list \<times> 'c timer_queue \<Rightarrow> 'c timer list \<times> 'c timer_queue" where
  "run_timer acts t x =
     (case x of (tr, q) \<Rightarrow> (tr @ [t], fold run_op (acts (ti_callback t) q) q))"

text \<open>The first loop: take the due entries off the front.\<close>

fun collect_due :: "int \<Rightarrow> (int \<times> nat, 'c timer) omap \<Rightarrow> 'c timer list \<times> (int \<times> nat, 'c timer) omap" where
  "collect_due now [] = ([], [])"
| "collect_due now ((k, t) # es) =
     (if fst k \<le> now then let (ts, rest) = collect_due now es in (t # ts, rest)
      else ([], (k, t) # es))"

text \<open>One turn of the second loop: a repeated timer is scheduled again, then the timer is run.\<close>

definition reschedule :: "int \<Rightarrow> 'c timer \<Rightarrow> 'c timer_queue \<Rightarrow> 'c timer_queue" where
  "reschedule now t q =
     (if repeat t then insertInLoop (restart now t) q
      else q\<lparr>tq_active := om_erase (ti_sequence t) (tq_active q)\<rparr>)"

definition expire_timer ::
  "('c \<Rightarrow> 'c timer_queue \<Rightarrow> 'c timer_op list) \<Rightarrow> int \<Rightarrow> 'c timer \<Rightarrow>
     'c timer list \<times> 'c timer_queue \<Rightarrow> 'c timer list \<times> 'c timer_queue" where
  "expire_timer acts now t x = (case x of (tr, q) \<Rightarrow> run_timer acts t (tr, reschedule now t q))"

text \<open>The timers that were run, in order, and the queue afterwards.\<close>

definition handleExpiredTimers ::
  "('c \<Rightarrow> 'c timer_queue \<Rightarrow> 'c timer_op list) \<Rightarrow> int \<Rightarrow> 'c timer_queue \<Rightarrow>
     'c timer list \<times> 'c timer_queue" where
  "handleExpiredTimers acts now q =
     (let (expired, rest) = collect_due now (tq_entries q) in
      fold (expire_timer acts now) expired ([], q\<lparr>tq_entries := rest\<rparr>))"

section \<open>The invariant\<close>

text \<open>
  \<open>queue_inv pend q\<close>: the map of active timers and the set of entries hold the same timers, except
  that the timers \<open>pend\<close> of the batch being run have no entry and may still be active. Sequence
  numbers are below the counter, which never is 0.
\<close>

definition active_ok ::
  "'c timer list \<Rightarrow> nat \<Rightarrow> (nat \<rightharpoonup> 'c timer) \<Rightarrow> (int \<times> nat \<rightharpoonup> 'c timer) \<Rightarrow> bool" where
  "active_ok pend n A E \<longleftrightarrow> (\<forall>s t. A s = Some t \<longrightarrow>
     ti_sequence t = s \<and> 0 < s \<and> s < n \<and> (E (timer_key t) = Some t \<or> t \<in> set pend))"

definition entries_ok ::
  "'c timer list \<Rightarrow> (nat \<rightharpoonup> 'c timer) \<Rightarrow> (int \<times> nat \<rightharpoonup> 'c timer) \<Rightarrow> bool" where
  "entries_ok pend A E \<longleftrightarrow> (\<forall>k t. E k = Some t \<longrightarrow>
     k = timer_key t \<and> A (ti_sequence t) = Some t \<and> ti_sequence t \<notin> ti_sequence ` set pend)"

definition pend_ok :: "'c timer list \<Rightarrow> nat \<Rightarrow> (nat \<rightharpoonup> 'c timer) \<Rightarrow> bool" where
  "pend_ok pend n A \<longleftrightarrow> distinct (map ti_sequence pend) \<and>
     (\<forall>t \<in> set pend. 0 < ti_sequence t \<and> ti_sequence t < n \<and> A (ti_sequence t) \<in> {None, Some t})"

definition queue_inv :: "'c timer list \<Rightarrow> 'c timer_queue \<Rightarrow> bool" where
  "queue_inv pend q \<longleftrightarrow>
     om_valid (tq_entries q) \<and> om_valid (tq_active q) \<and> 0 < tq_counter q \<and>
     active_ok pend (tq_counter q) (om_get (tq_active q)) (om_get (tq_entries q)) \<and>
     entries_ok pend (om_get (tq_active q)) (om_get (tq_entries q)) \<and>
     pend_ok pend (tq_counter q) (om_get (tq_active q))"

abbreviation queue_valid :: "'c timer_queue \<Rightarrow> bool" where
  "queue_valid q \<equiv> queue_inv [] q"

end
