(* ===== verification/Channel.thy ===== *)
theory Channel
  imports Ordered_Map
begin

text \<open>
  \<open>net/Channel\<close>, \<open>net/Epoller\<close> and the registry part of \<open>net/EventLoop\<close>: the event masks as
  32-bit words, the set of descriptors the kernel watches, and the loop's map from descriptors to
  channels. Channels are objects with an identity, since the loop, the connection and the map
  share them: they live in a store addressed by a number.
\<close>

unbundle bit_operations_syntax

section \<open>Event masks\<close>

definition EPOLLIN :: "32 word" where "EPOLLIN = 0x001"
definition EPOLLPRI :: "32 word" where "EPOLLPRI = 0x002"
definition EPOLLOUT :: "32 word" where "EPOLLOUT = 0x004"
definition EPOLLERR :: "32 word" where "EPOLLERR = 0x008"
definition EPOLLHUP :: "32 word" where "EPOLLHUP = 0x010"
definition EPOLLRDHUP :: "32 word" where "EPOLLRDHUP = 0x2000"
definition EPOLLET :: "32 word" where "EPOLLET = 0x80000000"

lemmas epoll_defs =
  EPOLLIN_def EPOLLPRI_def EPOLLOUT_def EPOLLERR_def EPOLLHUP_def EPOLLRDHUP_def EPOLLET_def

definition kReadEvent :: "32 word" where
  "kReadEvent = EPOLLIN OR EPOLLPRI OR EPOLLET"

definition kWriteEvent :: "32 word" where
  "kWriteEvent = EPOLLOUT OR EPOLLET"

section \<open>Channels\<close>

text \<open>\<open>ch_owner\<close>: not tied, or tied to a host that is alive or gone.\<close>

datatype tie_state = Untied | TiedAlive | TiedGone

record channel =
  ch_fd :: int
  ch_events :: "32 word"
  ch_revents :: "32 word"
  ch_tie :: tie_state
  ch_removed :: bool

definition Channel_new :: "int \<Rightarrow> channel" where
  "Channel_new fd = \<lparr>ch_fd = fd, ch_events = 0, ch_revents = 0, ch_tie = Untied, ch_removed = False\<rparr>"

definition setRevents :: "32 word \<Rightarrow> channel \<Rightarrow> channel" where
  "setRevents ev c = c\<lparr>ch_revents := ev\<rparr>"

definition isWriting :: "channel \<Rightarrow> bool" where
  "isWriting c \<longleftrightarrow> ch_events c AND kWriteEvent \<noteq> 0"

definition isNoneEvent :: "channel \<Rightarrow> bool" where
  "isNoneEvent c \<longleftrightarrow> ch_events c = 0"

datatype callback = ReadCallback | WriteCallback | CloseCallback | ErrorCallback

text \<open>The callbacks \<open>handleEvent\<close> invokes, in order; \<open>has\<close> says which ones are set.\<close>

definition handleEvent :: "(callback \<Rightarrow> bool) \<Rightarrow> channel \<Rightarrow> callback list" where
  "handleEvent has c =
     (if ch_tie c = TiedGone then []
      else if ch_revents c AND EPOLLHUP \<noteq> 0 then filter has [CloseCallback]
      else if ch_revents c AND (EPOLLERR OR EPOLLRDHUP) \<noteq> 0 then filter has [ErrorCallback]
      else filter has ((if ch_revents c AND kReadEvent \<noteq> 0 then [ReadCallback] else []) @
                       (if ch_revents c AND kWriteEvent \<noteq> 0 then [WriteCallback] else [])))"

section \<open>The kernel's interest set\<close>

text \<open>
  An epoll instance: the watched descriptors with their masks, how many calls of \<open>epoll_ctl\<close> there
  have been, and which of them the kernel refuses for a reason of its own (no memory, no watches
  left), whatever the set holds.
\<close>

record epoll_set =
  ep_interest :: "(int, 32 word) omap"
  ep_calls :: nat
  ep_refuses :: "nat \<Rightarrow> bool"

definition epoll_new :: "(nat \<Rightarrow> bool) \<Rightarrow> epoll_set" where
  "epoll_new refuses = \<lparr>ep_interest = om_empty, ep_calls = 0, ep_refuses = refuses\<rparr>"

definition watched :: "epoll_set \<Rightarrow> int \<Rightarrow> 32 word option" where
  "watched p = om_get (ep_interest p)"

text \<open>The three \<open>epoll_ctl\<close> operations: whether they succeed, and the set afterwards.\<close>

definition epoll_ctl ::
  "bool \<Rightarrow> ((int, 32 word) omap \<Rightarrow> (int, 32 word) omap) \<Rightarrow> epoll_set \<Rightarrow> bool \<times> epoll_set" where
  "epoll_ctl possible change p =
     (let p1 = p\<lparr>ep_calls := ep_calls p + 1\<rparr> in
      if ep_refuses p (ep_calls p) \<or> \<not> possible then (False, p1)
      else (True, p1\<lparr>ep_interest := change (ep_interest p)\<rparr>))"

definition epoller_add :: "int \<Rightarrow> 32 word \<Rightarrow> epoll_set \<Rightarrow> bool \<times> epoll_set" where
  "epoller_add fd ev p = epoll_ctl (watched p fd = None) (om_put fd ev) p"

definition epoller_modify :: "int \<Rightarrow> 32 word \<Rightarrow> epoll_set \<Rightarrow> bool \<times> epoll_set" where
  "epoller_modify fd ev p = epoll_ctl (watched p fd \<noteq> None) (om_put fd ev) p"

definition epoller_remove :: "int \<Rightarrow> epoll_set \<Rightarrow> bool \<times> epoll_set" where
  "epoller_remove fd p = epoll_ctl (watched p fd \<noteq> None) (om_erase fd) p"

text \<open>A descriptor that is closed leaves the set by itself.\<close>

definition epoll_forget :: "int \<Rightarrow> epoll_set \<Rightarrow> epoll_set" where
  "epoll_forget fd p = p\<lparr>ep_interest := om_erase fd (ep_interest p)\<rparr>"

section \<open>The registry of the loop\<close>

record loop_reg =
  lr_objects :: "nat \<Rightarrow> channel"
  lr_channels :: "(int, nat) omap"
  lr_epoll :: epoll_set
  lr_channelCount :: nat

definition loop_reg_new :: "(nat \<Rightarrow> channel) \<Rightarrow> (nat \<Rightarrow> bool) \<Rightarrow> loop_reg" where
  "loop_reg_new objs refuses =
     \<lparr>lr_objects = objs, lr_channels = om_empty, lr_epoll = epoll_new refuses, lr_channelCount = 0\<rparr>"

text \<open>
  Registering, changing and removing: the results of the three calls are dropped, as in the code,
  which only logs a failure.
\<close>

definition removeChannel :: "nat \<Rightarrow> loop_reg \<Rightarrow> loop_reg" where
  "removeChannel c s =
     (let fd = ch_fd (lr_objects s c) in
      if om_get (lr_channels s) fd = None then s
      else s\<lparr>lr_epoll := snd (epoller_remove fd (lr_epoll s)),
             lr_channels := om_erase fd (lr_channels s),
             lr_channelCount := lr_channelCount s - 1\<rparr>)"

definition updateChannel :: "nat \<Rightarrow> loop_reg \<Rightarrow> loop_reg" where
  "updateChannel c s =
     (let ch = lr_objects s c; fd = ch_fd ch in
      if om_get (lr_channels s) fd = None then
        (if isNoneEvent ch then s
         else s\<lparr>lr_channels := om_put fd c (lr_channels s),
                lr_epoll := snd (epoller_add fd (ch_events ch) (lr_epoll s)),
                lr_channelCount := lr_channelCount s + 1\<rparr>)
      else if isNoneEvent ch then removeChannel c s
      else s\<lparr>lr_epoll := snd (epoller_modify fd (ch_events ch) (lr_epoll s))\<rparr>)"

definition set_object :: "nat \<Rightarrow> channel \<Rightarrow> loop_reg \<Rightarrow> loop_reg" where
  "set_object c ch s = s\<lparr>lr_objects := (lr_objects s)(c := ch)\<rparr>"

definition channel_update :: "nat \<Rightarrow> loop_reg \<Rightarrow> loop_reg" where
  "channel_update c s = (if ch_removed (lr_objects s c) then s else updateChannel c s)"

definition set_events :: "nat \<Rightarrow> 32 word \<Rightarrow> loop_reg \<Rightarrow> loop_reg" where
  "set_events c ev s = channel_update c (set_object c ((lr_objects s c)\<lparr>ch_events := ev\<rparr>) s)"

definition enableReading :: "nat \<Rightarrow> loop_reg \<Rightarrow> loop_reg" where
  "enableReading c s = set_events c (ch_events (lr_objects s c) OR kReadEvent) s"

definition enableWriting :: "nat \<Rightarrow> loop_reg \<Rightarrow> loop_reg" where
  "enableWriting c s = set_events c (ch_events (lr_objects s c) OR kWriteEvent) s"

definition disableWriting :: "nat \<Rightarrow> loop_reg \<Rightarrow> loop_reg" where
  "disableWriting c s = set_events c (ch_events (lr_objects s c) AND NOT kWriteEvent) s"

definition disableAll :: "nat \<Rightarrow> loop_reg \<Rightarrow> loop_reg" where
  "disableAll c s = set_events c 0 s"

definition channel_remove :: "nat \<Rightarrow> loop_reg \<Rightarrow> loop_reg" where
  "channel_remove c s =
     (if ch_removed (lr_objects s c) then s
      else removeChannel c (set_object c ((lr_objects s c)\<lparr>ch_removed := True\<rparr>) s))"

text \<open>
  \<open>~Channel\<close> calls \<open>remove\<close>; the owner destroys its channel before its socket, whose descriptor is
  closed next.
\<close>

definition channel_destroy :: "nat \<Rightarrow> loop_reg \<Rightarrow> loop_reg" where
  "channel_destroy c s = channel_remove c s"

definition owner_destroy :: "nat \<Rightarrow> loop_reg \<Rightarrow> loop_reg" where
  "owner_destroy c s =
     (let s1 = channel_destroy c s in
      s1\<lparr>lr_epoll := epoll_forget (ch_fd (lr_objects s c)) (lr_epoll s1)\<rparr>)"

text \<open>
  \<open>dispatch\<close> of the ready events. What a callback does to the registry is the parameter
  \<open>effect\<close>; the result lists the callbacks that were invoked, with their channels.
\<close>

definition run_callbacks ::
  "(nat \<Rightarrow> callback \<Rightarrow> loop_reg \<Rightarrow> loop_reg) \<Rightarrow> nat \<Rightarrow> callback list \<Rightarrow> loop_reg \<Rightarrow> loop_reg" where
  "run_callbacks effect c cbs s = fold (effect c) cbs s"

fun dispatch ::
  "(nat \<Rightarrow> callback \<Rightarrow> loop_reg \<Rightarrow> loop_reg) \<Rightarrow> (nat \<Rightarrow> callback \<Rightarrow> bool) \<Rightarrow>
     (int \<times> 32 word) list \<Rightarrow> loop_reg \<Rightarrow> (nat \<times> callback) list \<times> loop_reg" where
  "dispatch effect has [] s = ([], s)"
| "dispatch effect has ((fd, ev) # evs) s =
     (case om_get (lr_channels s) fd of
        None \<Rightarrow> dispatch effect has evs s
      | Some c \<Rightarrow>
          let s1 = set_object c (setRevents ev (lr_objects s c)) s;
              cbs = handleEvent (has c) (lr_objects s1 c);
              (log, s2) = dispatch effect has evs (run_callbacks effect c cbs s1) in
          (map (Pair c) cbs @ log, s2))"

section \<open>The interface to the poller\<close>

text \<open>
  What the loop needs of the poller: as long as it is \<open>ok\<close>, adding an unknown descriptor, changing
  and removing a known one take effect. The model's poller is \<open>ok\<close> when it refuses no call.
\<close>

locale poller =
  fixes add :: "int \<Rightarrow> 32 word \<Rightarrow> 'p \<Rightarrow> bool \<times> 'p"
    and modify :: "int \<Rightarrow> 32 word \<Rightarrow> 'p \<Rightarrow> bool \<times> 'p"
    and remove :: "int \<Rightarrow> 'p \<Rightarrow> bool \<times> 'p"
    and interest :: "'p \<Rightarrow> int \<Rightarrow> 32 word option"
    and ok :: "'p \<Rightarrow> bool"
  assumes ok_add: "ok p \<Longrightarrow> ok (snd (add fd ev p))"
    and ok_modify: "ok p \<Longrightarrow> ok (snd (modify fd ev p))"
    and ok_remove: "ok p \<Longrightarrow> ok (snd (remove fd p))"
    and add_new: "ok p \<Longrightarrow> interest p fd = None \<Longrightarrow>
      fst (add fd ev p) \<and> interest (snd (add fd ev p)) = (interest p)(fd \<mapsto> ev)"
    and modify_known: "ok p \<Longrightarrow> interest p fd \<noteq> None \<Longrightarrow>
      fst (modify fd ev p) \<and> interest (snd (modify fd ev p)) = (interest p)(fd \<mapsto> ev)"
    and remove_known: "ok p \<Longrightarrow> interest p fd \<noteq> None \<Longrightarrow>
      fst (remove fd p) \<and> interest (snd (remove fd p)) = (interest p)(fd := None)"
begin

text \<open>The poller mirrors a map of wanted events.\<close>

definition mirrors :: "'p \<Rightarrow> (int \<Rightarrow> 32 word option) \<Rightarrow> bool" where
  "mirrors p w \<longleftrightarrow> ok p \<and> interest p = w"

lemma mirrors_add: "mirrors p w \<Longrightarrow> w fd = None \<Longrightarrow> mirrors (snd (add fd ev p)) (w(fd \<mapsto> ev))"
  using add_new ok_add by (auto simp: mirrors_def)

lemma mirrors_modify: "mirrors p w \<Longrightarrow> w fd \<noteq> None \<Longrightarrow> mirrors (snd (modify fd ev p)) (w(fd \<mapsto> ev))"
  using modify_known ok_modify unfolding mirrors_def by metis

lemma mirrors_remove: "mirrors p w \<Longrightarrow> w fd \<noteq> None \<Longrightarrow> mirrors (snd (remove fd p)) (w(fd := None))"
  using remove_known ok_remove unfolding mirrors_def by metis

end

definition epoll_ok :: "epoll_set \<Rightarrow> bool" where
  "epoll_ok p \<longleftrightarrow> om_valid (ep_interest p) \<and> (\<forall>n. \<not> ep_refuses p n)"

lemmas epoller_defs = epoller_add_def epoller_modify_def epoller_remove_def epoll_ctl_def watched_def

interpretation ep: poller epoller_add epoller_modify epoller_remove watched epoll_ok
  by unfold_locales
    (auto simp: epoller_defs epoll_ok_def om_get_put om_valid_put om_get_erase om_valid_erase Let_def)

end
