(* ===== verification/Tcp_Connection.thy ===== *)
theory Tcp_Connection
  imports Complex_Main Channel Net_Buffer Http_Response
begin

text \<open>
  \<open>net/TcpConnection\<close>: one connection on its IO thread, its output buffer, the file waiting for
  \<open>sendfile\<close>, the half-close and the idle timer. The kernel is the list of results it will give
  to the coming calls on the socket; an empty list means that every further call would block.
  Files are the map from descriptors to contents. The record keeps, beside the code's fields,
  what an observer sees: the bytes the kernel took, whether the write side was shut, how many
  errors were counted and how often the close callback ran.
\<close>

section \<open>State\<close>

record conn =
  cn_events :: "32 word"
  cn_closed :: bool
  cn_input :: net_buffer
  cn_output :: net_buffer
  cn_shutdownAfterWrite :: bool
  cn_pendingFile :: "file_body option"
  cn_fileOffset :: nat
  cn_fileRemaining :: nat
  cn_preFileBytes :: nat
  cn_idleTimeoutSeconds :: rat
  cn_idleTimer :: bool
  cn_sent :: string
  cn_shut :: bool
  cn_errors :: nat
  cn_closeCalls :: nat

definition TcpConnection_new :: conn where
  "TcpConnection_new = \<lparr>cn_events = 0, cn_closed = False, cn_input = buffer_new kInitialSize,
     cn_output = buffer_new kInitialSize, cn_shutdownAfterWrite = False, cn_pendingFile = None,
     cn_fileOffset = 0, cn_fileRemaining = 0, cn_preFileBytes = 0, cn_idleTimeoutSeconds = 0,
     cn_idleTimer = False, cn_sent = [], cn_shut = False, cn_errors = 0, cn_closeCalls = 0\<rparr>"

text \<open>Results of calls: a number of bytes, or an error number.\<close>

datatype io = IoBytes nat | IoErr int

definition kEINTR :: int where "kEINTR = 4"
definition kEBADF :: int where "kEBADF = 9"
definition kEAGAIN :: int where "kEAGAIN = 11"

definition cn_isWriting :: "conn \<Rightarrow> bool" where
  "cn_isWriting c \<longleftrightarrow> cn_events c AND kWriteEvent \<noteq> 0"

definition cn_start :: "conn \<Rightarrow> conn" where
  "cn_start c = c\<lparr>cn_events := cn_events c OR kReadEvent\<rparr>"

definition cn_enableWriting :: "conn \<Rightarrow> conn" where
  "cn_enableWriting c = c\<lparr>cn_events := cn_events c OR kWriteEvent\<rparr>"

definition cn_disableWriting :: "conn \<Rightarrow> conn" where
  "cn_disableWriting c = c\<lparr>cn_events := cn_events c AND NOT kWriteEvent\<rparr>"

definition handleClose :: "conn \<Rightarrow> conn" where
  "handleClose c =
     (if cn_closed c then c
      else c\<lparr>cn_closed := True, cn_idleTimer := False, cn_events := 0, cn_pendingFile := None,
             cn_fileRemaining := 0, cn_preFileBytes := 0, cn_closeCalls := cn_closeCalls c + 1\<rparr>)"

definition count_error :: "conn \<Rightarrow> conn" where
  "count_error c = c\<lparr>cn_errors := cn_errors c + 1\<rparr>"

definition handleError :: "conn \<Rightarrow> conn" where
  "handleError c = handleClose (count_error c)"

definition forceClose :: "conn \<Rightarrow> conn" where
  "forceClose c = handleClose c"

definition connected :: "conn \<Rightarrow> bool" where
  "connected c \<longleftrightarrow> \<not> cn_closed c"

text \<open>The destructor gives up the events of an open connection; it runs no callback.\<close>

definition conn_destroy :: "conn \<Rightarrow> conn" where
  "conn_destroy c = (if \<not> cn_closed c then c\<lparr>cn_events := 0\<rparr> else c)"

section \<open>The idle timer\<close>

definition refreshIdleTimer :: "conn \<Rightarrow> conn" where
  "refreshIdleTimer c =
     (if cn_idleTimeoutSeconds c \<le> 0 \<or> cn_closed c then c else c\<lparr>cn_idleTimer := True\<rparr>)"

definition setIdleTimeout :: "rat \<Rightarrow> conn \<Rightarrow> conn" where
  "setIdleTimeout seconds c =
     (let c1 = c\<lparr>cn_idleTimeoutSeconds := seconds\<rparr> in
      if 0 < seconds \<and> \<not> cn_closed c1 then refreshIdleTimer c1 else c1)"

definition handleIdleTimeout :: "conn \<Rightarrow> conn" where
  "handleIdleTimeout c = (if cn_closed c then c else handleClose c)"

section \<open>Writing\<close>

text \<open>\<open>write\<close> takes at most what it is given.\<close>

definition took :: "string \<Rightarrow> conn \<Rightarrow> conn" where
  "took s c = c\<lparr>cn_sent := cn_sent c @ s\<rparr>"

text \<open>The loop of \<open>flushOutput\<close>: the result, the connection and the results not used up.\<close>

fun flushOutput :: "nat \<Rightarrow> conn \<Rightarrow> io list \<Rightarrow> bool \<times> conn \<times> io list" where
  "flushOutput limit c [] =
     (if 0 < limit \<and> 0 < readableBytes (cn_output c) then (False, c, []) else (True, c, []))"
| "flushOutput limit c (r # rs) =
     (if \<not> (0 < limit \<and> 0 < readableBytes (cn_output c)) then (True, c, r # rs)
      else case r of
        IoBytes n \<Rightarrow>
          let chunk = min limit (readableBytes (cn_output c)); written = min n chunk in
          if 0 < written then
            flushOutput (limit - written)
              (took (take written (contents (cn_output c)))
                (c\<lparr>cn_output := retrieve (cn_output c) written,
                   cn_preFileBytes := cn_preFileBytes c - min (cn_preFileBytes c) written\<rparr>)) rs
          else (False, handleClose (count_error c), rs)
      | IoErr e \<Rightarrow>
          if e = kEINTR then flushOutput limit c rs
          else if e = kEAGAIN then (False, c, rs)
          else (False, handleClose (count_error c), rs))"

text \<open>
  \<open>sendfile\<close> that does not fail moves at least one byte, at most what is asked for, and nothing
  only at the end of the file.
\<close>

definition file_rest :: "(int \<Rightarrow> string) \<Rightarrow> conn \<Rightarrow> string" where
  "file_rest files c = (case cn_pendingFile c of
     None \<Rightarrow> []
   | Some f \<Rightarrow> take (cn_fileRemaining c) (drop (cn_fileOffset c) (files (fb_fd f))))"

definition file_done :: "conn \<Rightarrow> conn" where
  "file_done c = c\<lparr>cn_pendingFile := None, cn_fileRemaining := 0\<rparr>"

fun sendPendingFile :: "(int \<Rightarrow> string) \<Rightarrow> conn \<Rightarrow> io list \<Rightarrow> bool \<times> conn \<times> io list" where
  "sendPendingFile files c [] =
     (if 0 < cn_fileRemaining c then (False, c, []) else (True, file_done c, []))"
| "sendPendingFile files c (r # rs) =
     (if cn_fileRemaining c = 0 then (True, file_done c, r # rs)
      else case r of
        IoBytes k \<Rightarrow>
          let rest = file_rest files c; n = min (max 1 k) (length rest) in
          if 0 < n then
            sendPendingFile files
              (took (take n rest) (c\<lparr>cn_fileOffset := cn_fileOffset c + n,
                 cn_fileRemaining := cn_fileRemaining c - n\<rparr>)) rs
          else (True, file_done c, rs)
      | IoErr e \<Rightarrow>
          if e = kEINTR then sendPendingFile files c rs
          else if e = kEAGAIN then (False, c, rs)
          else (False, handleClose (count_error c), rs))"

text \<open>The three stages of \<open>handleWrite\<close>.\<close>

definition write_stage1 :: "conn \<Rightarrow> io list \<Rightarrow> bool \<times> conn \<times> io list" where
  "write_stage1 c rs =
     (if 0 < cn_preFileBytes c then
        let (ok, c1, rs1) = flushOutput (cn_preFileBytes c) c rs in
        if ok then (True, c1\<lparr>cn_preFileBytes := 0\<rparr>, rs1) else (False, c1, rs1)
      else (True, c, rs))"

definition write_stage2 :: "(int \<Rightarrow> string) \<Rightarrow> conn \<Rightarrow> io list \<Rightarrow> bool \<times> conn \<times> io list" where
  "write_stage2 files c rs =
     (if cn_pendingFile c \<noteq> None then sendPendingFile files c rs else (True, c, rs))"

definition write_stage3 :: "conn \<Rightarrow> io list \<Rightarrow> bool \<times> conn \<times> io list" where
  "write_stage3 c rs =
     (if 0 < readableBytes (cn_output c) then flushOutput (readableBytes (cn_output c)) c rs
      else (True, c, rs))"

definition write_done :: "conn \<Rightarrow> conn" where
  "write_done c = (let c1 = cn_disableWriting c in
     if cn_shutdownAfterWrite c1 then c1\<lparr>cn_shut := True\<rparr> else c1)"

definition handleWrite :: "(int \<Rightarrow> string) \<Rightarrow> conn \<Rightarrow> io list \<Rightarrow> conn \<times> io list" where
  "handleWrite files c rs =
     (if cn_closed c then (c, rs)
      else let (ok1, c1, rs1) = write_stage1 c rs in
        if \<not> ok1 then (c1, rs1)
        else let (ok2, c2, rs2) = write_stage2 files c1 rs1 in
          if \<not> ok2 then (c2, rs2)
          else let (ok3, c3, rs3) = write_stage3 c2 rs2 in
            if \<not> ok3 then (c3, rs3) else (write_done c3, rs3))"

definition keep_rest :: "string \<Rightarrow> conn \<Rightarrow> conn" where
  "keep_rest rest c =
     (if rest = [] then c else cn_enableWriting (c\<lparr>cn_output := buffer_append (cn_output c) rest\<rparr>))"

definition sendInLoop :: "string \<Rightarrow> conn \<Rightarrow> io list \<Rightarrow> conn \<times> io list" where
  "sendInLoop data c rs =
     (if \<not> cn_isWriting c \<and> readableBytes (cn_output c) = 0 then
        (case rs of
           [] \<Rightarrow> (keep_rest data c, [])
         | IoBytes k # rs' \<Rightarrow>
             let n = min k (length data) in (keep_rest (drop n data) (took (take n data) c), rs')
         | IoErr e # rs' \<Rightarrow>
             if e \<noteq> kEAGAIN \<and> e \<noteq> kEINTR then (handleClose (count_error c), rs')
             else (keep_rest data c, rs'))
      else (keep_rest data c, rs))"

definition send :: "string \<Rightarrow> conn \<Rightarrow> io list \<Rightarrow> conn \<times> io list" where
  "send data c rs = (if cn_closed c then (c, rs) else sendInLoop data c rs)"

text \<open>
  \<open>sendFile\<close>. With a file already waiting the new one is read into memory; the reads of a regular
  file deliver its bytes up to the length or the end.
\<close>

definition file_region :: "(int \<Rightarrow> string) \<Rightarrow> file_body \<Rightarrow> string" where
  "file_region files f = take (fb_length f) (drop (fb_offset f) (files (fb_fd f)))"

definition sendFile :: "(int \<Rightarrow> string) \<Rightarrow> file_body \<Rightarrow> conn \<Rightarrow> io list \<Rightarrow> conn \<times> io list" where
  "sendFile files f c rs =
     (if cn_closed c \<or> fb_length f = 0 then (c, rs)
      else if cn_pendingFile c \<noteq> None then sendInLoop (file_region files f) c rs
      else handleWrite files
        (cn_enableWriting (c\<lparr>cn_preFileBytes := readableBytes (cn_output c), cn_pendingFile := Some f,
           cn_fileOffset := fb_offset f, cn_fileRemaining := fb_length f\<rparr>)) rs)"

definition shutdownWrite :: "conn \<Rightarrow> conn" where
  "shutdownWrite c =
     (if cn_closed c then c
      else if \<not> cn_isWriting c \<and> readableBytes (cn_output c) = 0 \<and> cn_pendingFile c = None
      then c\<lparr>cn_shut := True\<rparr>
      else c\<lparr>cn_shutdownAfterWrite := True\<rparr>)"

section \<open>Reading\<close>

text \<open>
  The loop of \<open>handleRead\<close>. Each element is what one \<open>readv\<close> gives: bytes (none: the peer
  closed) or an error. Once a callback has closed the connection the descriptor is -1, and the
  next read fails with \<open>EBADF\<close> whatever the script says. \<open>on_message\<close> is the message callback;
  the first component of the result tells whether the loop ended in an error.
\<close>

datatype read_end = ReadAgain | ReadClosed | ReadFailed

fun cn_read_loop :: "(conn \<Rightarrow> conn) \<Rightarrow> conn \<Rightarrow> (int + string) list \<Rightarrow> bool \<Rightarrow> read_end \<times> bool \<times> conn" where
  "cn_read_loop on_message c [] activity = (if cn_closed c then ReadFailed else ReadAgain, activity, c)"
| "cn_read_loop on_message c (r # rs) activity =
     (if cn_closed c then (ReadFailed, activity, c)
      else case readFd (cn_input c) r of (n, err, input) \<Rightarrow>
        if 0 < n then cn_read_loop on_message (on_message (c\<lparr>cn_input := input\<rparr>)) rs True
        else if n = 0 then (ReadClosed, activity, c)
        else if err = Some kEAGAIN then (ReadAgain, activity, c)
        else if err = Some kEINTR then cn_read_loop on_message c rs activity
        else (ReadFailed, activity, c))"

definition handleRead :: "(conn \<Rightarrow> conn) \<Rightarrow> conn \<Rightarrow> (int + string) list \<Rightarrow> conn" where
  "handleRead on_message c rs =
     (case cn_read_loop on_message c rs False of
        (ReadFailed, activity, c1) \<Rightarrow> handleError (count_error c1)
      | (ReadAgain, activity, c1) \<Rightarrow> (if activity then refreshIdleTimer c1 else c1)
      | (ReadClosed, activity, c1) \<Rightarrow> handleClose (if activity then refreshIdleTimer c1 else c1))"

end
