(* ===== verification/Idle_Timers.thy ===== *)
theory Idle_Timers
  imports Timer_Queue Tcp_Connection
begin

text \<open>
  The idle timeout of \<open>net/TcpConnection\<close> together with the timers of its \<open>net/EventLoop\<close>: the
  connections of one IO loop, the loop's timer queue, and the handles the connections keep. In
  \<open>Tcp_Connection\<close> the handle is only a flag; here it is the real \<open>TimerId\<close>, and opening, reading,
  closing and dropping a connection change the queue as the code does. A callback that holds a weak
  pointer is the number of the connection; locking it succeeds while the connection is in the table.
\<close>

section \<open>The timer interface of the loop\<close>

text \<open>What the program puts in timers: idle timeouts, and the two repeated tasks of \<open>main\<close>.\<close>

datatype loop_callback = IdleOf nat | StatsTask | ShutdownPoll

type_synonym loop_queue = "loop_callback timer_queue"

definition runAt :: "int \<Rightarrow> loop_callback \<Rightarrow> loop_queue \<Rightarrow> timer_id \<times> loop_queue" where
  "runAt when callback q = addTimer callback when 0 q"

definition runAfter :: "int \<Rightarrow> rat \<Rightarrow> loop_callback \<Rightarrow> loop_queue \<Rightarrow> timer_id \<times> loop_queue" where
  "runAfter current delaySeconds callback q = addTimer callback (current + secondsToDuration delaySeconds) 0 q"

definition runEvery :: "int \<Rightarrow> rat \<Rightarrow> loop_callback \<Rightarrow> loop_queue \<Rightarrow> timer_id \<times> loop_queue" where
  "runEvery current intervalSeconds callback q =
     addTimer callback (current + secondsToDuration intervalSeconds) intervalSeconds q"

definition cancelTimer :: "timer_id \<Rightarrow> loop_queue \<Rightarrow> loop_queue" where
  "cancelTimer i q = cancel i q"

definition queue_size :: "loop_queue \<Rightarrow> nat" where
  "queue_size q = length (tq_entries q)"

definition timerCount :: "loop_queue \<Rightarrow> nat" where
  "timerCount q = queue_size q"

text \<open>The timeout \<open>loop\<close> gives to \<open>epoll_wait\<close>.\<close>

definition loop_wait :: "int \<Rightarrow> int \<Rightarrow> loop_queue \<Rightarrow> int" where
  "loop_wait timeoutMs current q = (if 0 \<le> timeoutMs then timeoutMs else nextTimeoutMs current q)"

section \<open>A connection and its handle\<close>

text \<open>\<open>cl_active\<close> is history: when the connection was accepted or last received bytes.\<close>

record client =
  cl_conn :: conn
  cl_timer :: timer_id
  cl_active :: int

definition no_timer :: timer_id where
  "no_timer = \<lparr>tid_sequence = 0, tid_owner = None\<rparr>"

definition client_new :: "int \<Rightarrow> client" where
  "client_new current = \<lparr>cl_conn = TcpConnection_new, cl_timer = no_timer, cl_active = current\<rparr>"

text \<open>
  An operation turned the connection into \<open>c'\<close>. If it closed it, \<open>handleClose\<close> has cancelled the
  timer and reset the handle.
\<close>

definition cl_settle :: "conn \<Rightarrow> client \<times> loop_queue \<Rightarrow> client \<times> loop_queue" where
  "cl_settle c' s = (case s of (cl, q) \<Rightarrow>
     if cn_closed c' \<and> \<not> cn_closed (cl_conn cl) \<and> timer_id_valid (cl_timer cl)
     then (cl\<lparr>cl_conn := c', cl_timer := no_timer\<rparr>, cancelTimer (cl_timer cl) q)
     else (cl\<lparr>cl_conn := c'\<rparr>, q))"

definition cl_handleClose :: "client \<times> loop_queue \<Rightarrow> client \<times> loop_queue" where
  "cl_handleClose s = cl_settle (handleClose (cl_conn (fst s))) s"

definition cl_handleError :: "client \<times> loop_queue \<Rightarrow> client \<times> loop_queue" where
  "cl_handleError s = cl_settle (handleError (cl_conn (fst s))) s"

definition cl_refreshIdleTimer :: "nat \<Rightarrow> int \<Rightarrow> client \<times> loop_queue \<Rightarrow> client \<times> loop_queue" where
  "cl_refreshIdleTimer i current s = (case s of (cl, q) \<Rightarrow>
     if cn_idleTimeoutSeconds (cl_conn cl) \<le> 0 \<or> cn_closed (cl_conn cl) then (cl, q)
     else
       let q1 = (if timer_id_valid (cl_timer cl) then cancelTimer (cl_timer cl) q else q);
           (h, q2) = runAfter current (cn_idleTimeoutSeconds (cl_conn cl)) (IdleOf i) q1 in
       (cl\<lparr>cl_conn := refreshIdleTimer (cl_conn cl), cl_timer := h\<rparr>, q2))"

definition cl_setIdleTimeout :: "nat \<Rightarrow> int \<Rightarrow> rat \<Rightarrow> client \<times> loop_queue \<Rightarrow> client \<times> loop_queue" where
  "cl_setIdleTimeout i current seconds s = (case s of (cl, q) \<Rightarrow>
     let cl1 = cl\<lparr>cl_conn := (cl_conn cl)\<lparr>cn_idleTimeoutSeconds := seconds\<rparr>\<rparr> in
     if 0 < seconds \<and> \<not> cn_closed (cl_conn cl1) then cl_refreshIdleTimer i current (cl1, q) else (cl1, q))"

definition cl_handleIdleTimeout :: "client \<times> loop_queue \<Rightarrow> client \<times> loop_queue" where
  "cl_handleIdleTimeout s = (if cn_closed (cl_conn (fst s)) then s else cl_handleClose s)"

text \<open>\<open>handleRead\<close>: the message callback runs inside the loop; bytes refresh the timer once, after it.\<close>

definition cl_handleRead ::
  "nat \<Rightarrow> int \<Rightarrow> (conn \<Rightarrow> conn) \<Rightarrow> (int + string) list \<Rightarrow> client \<times> loop_queue \<Rightarrow> client \<times> loop_queue" where
  "cl_handleRead i current on_message rs s =
     (case cn_read_loop on_message (cl_conn (fst s)) rs False of (outcome, activity, c1) \<Rightarrow>
        let (cl, q) = cl_settle c1 s;
            s1 = (if activity then cl\<lparr>cl_active := current\<rparr> else cl, q);
            s2 = (if activity then cl_refreshIdleTimer i current s1 else s1) in
        (case outcome of
           ReadFailed \<Rightarrow> cl_handleError (cl_settle (count_error c1) (cl, q))
         | ReadAgain \<Rightarrow> s2
         | ReadClosed \<Rightarrow> cl_handleClose s2))"

section \<open>What a message callback does to its connection\<close>

datatype callback_op = OpRetrieve nat | OpSend string | OpSendFile file_body | OpShutdownWrite | OpForceClose

text \<open>One call, with the results the kernel gives it.\<close>

definition run_conn_op :: "(int \<Rightarrow> string) \<Rightarrow> callback_op \<times> io list \<Rightarrow> conn \<Rightarrow> conn" where
  "run_conn_op files p c = (case p of (oper, rs) \<Rightarrow>
     (case oper of
        OpRetrieve n \<Rightarrow> c\<lparr>cn_input := retrieve (cn_input c) n\<rparr>
      | OpSend data \<Rightarrow> fst (send data c rs)
      | OpSendFile f \<Rightarrow> fst (sendFile files f c rs)
      | OpShutdownWrite \<Rightarrow> shutdownWrite c
      | OpForceClose \<Rightarrow> forceClose c))"

definition run_conn_ops :: "(int \<Rightarrow> string) \<Rightarrow> (callback_op \<times> io list) list \<Rightarrow> conn \<Rightarrow> conn" where
  "run_conn_ops files ps c = fold (run_conn_op files) ps c"

section \<open>The loop\<close>

record io_loop =
  il_clients :: "nat \<Rightarrow> client option"
  il_next :: nat
  il_queue :: loop_queue
  il_timerCount :: nat

definition io_loop_new :: "nat \<Rightarrow> io_loop" where
  "io_loop_new self = \<lparr>il_clients = \<lambda>_. None, il_next = 0, il_queue = TimerQueue_new self 1,
     il_timerCount = 0\<rparr>"

definition with_client ::
  "nat \<Rightarrow> (client \<times> loop_queue \<Rightarrow> client \<times> loop_queue) \<Rightarrow> io_loop \<Rightarrow> io_loop" where
  "with_client i f lp =
     (case il_clients lp i of
        None \<Rightarrow> lp
      | Some cl \<Rightarrow>
          (case f (cl, il_queue lp) of (cl', q') \<Rightarrow>
             lp\<lparr>il_clients := (il_clients lp)(i \<mapsto> cl'), il_queue := q'\<rparr>))"

text \<open>An event of the channel: a closed connection has none, its channel is gone from the loop.\<close>

definition on_channel ::
  "nat \<Rightarrow> (client \<times> loop_queue \<Rightarrow> client \<times> loop_queue) \<Rightarrow> io_loop \<Rightarrow> io_loop" where
  "on_channel i f lp = with_client i (\<lambda>s. if cn_closed (cl_conn (fst s)) then s else f s) lp"

text \<open>The task of the new-connection callback, as far as timers go.\<close>

definition accept_client :: "int \<Rightarrow> rat \<Rightarrow> io_loop \<Rightarrow> io_loop" where
  "accept_client current idleSeconds lp =
     (let i = il_next lp; cl = client_new current;
          cl1 = cl\<lparr>cl_conn := cn_start (cl_conn cl)\<rparr>;
          (cl2, q) = (if 0 < idleSeconds then cl_setIdleTimeout i current idleSeconds (cl1, il_queue lp)
                      else (cl1, il_queue lp)) in
      lp\<lparr>il_clients := (il_clients lp)(i \<mapsto> cl2), il_next := i + 1, il_queue := q\<rparr>)"

text \<open>
  \<open>timer->run()\<close>: the idle timeout, or one of the tasks of \<open>main\<close>. The statistics task publishes the
  number of timers; the shutdown task looks at the signal flag, which \<open>Server_Main\<close> has.
\<close>

definition stats_tick :: "io_loop \<Rightarrow> io_loop" where
  "stats_tick lp = lp\<lparr>il_timerCount := timerCount (il_queue lp)\<rparr>"

definition run_loop_callback :: "loop_callback \<Rightarrow> io_loop \<Rightarrow> io_loop" where
  "run_loop_callback cb lp = (case cb of
     IdleOf i \<Rightarrow> with_client i cl_handleIdleTimeout lp
   | StatsTask \<Rightarrow> stats_tick lp
   | ShutdownPoll \<Rightarrow> lp)"

text \<open>The second loop of \<open>handleExpiredTimers\<close>, with what the callbacks do to the connections.\<close>

definition io_expire :: "int \<Rightarrow> loop_callback timer \<Rightarrow> io_loop \<Rightarrow> io_loop" where
  "io_expire current t lp =
     run_loop_callback (ti_callback t) (lp\<lparr>il_queue := reschedule current t (il_queue lp)\<rparr>)"

definition io_handleExpiredTimers :: "int \<Rightarrow> io_loop \<Rightarrow> io_loop" where
  "io_handleExpiredTimers current lp =
     (let (expired, rest) = collect_due current (tq_entries (il_queue lp)) in
      fold (io_expire current) expired (lp\<lparr>il_queue := (il_queue lp)\<lparr>tq_entries := rest\<rparr>\<rparr>))"

text \<open>
  \<open>Elsewhere\<close>: timers made by other loops take numbers of the same counter. \<open>Drop\<close>: the last
  reference to a connection goes, open or not; its destructor leaves the timers alone.
\<close>

datatype io_event =
    Accept rat
  | ReadReady nat "conn \<Rightarrow> (callback_op \<times> io list) list" "(int + string) list"
  | WriteReady nat "io list"
  | HungUp nat
  | Failed nat
  | Task nat "(callback_op \<times> io list) list"
  | Drop nat
  | Every rat loop_callback
  | Elsewhere nat
  | Expire

definition io_step :: "(int \<Rightarrow> string) \<Rightarrow> int \<times> io_event \<Rightarrow> io_loop \<Rightarrow> io_loop" where
  "io_step files p lp = (case p of (current, ev) \<Rightarrow>
     (case ev of
        Accept idleSeconds \<Rightarrow> accept_client current idleSeconds lp
      | ReadReady i replies rs \<Rightarrow>
          on_channel i (cl_handleRead i current (\<lambda>c. run_conn_ops files (replies c) c) rs) lp
      | WriteReady i rs \<Rightarrow> on_channel i (\<lambda>s. cl_settle (fst (handleWrite files (cl_conn (fst s)) rs)) s) lp
      | HungUp i \<Rightarrow> on_channel i cl_handleClose lp
      | Failed i \<Rightarrow> on_channel i cl_handleError lp
      | Task i ops \<Rightarrow> with_client i (\<lambda>s. cl_settle (run_conn_ops files ops (cl_conn (fst s))) s) lp
      | Drop i \<Rightarrow> lp\<lparr>il_clients := (il_clients lp)(i := None)\<rparr>
      | Every interval cb \<Rightarrow>
          (case cb of IdleOf i \<Rightarrow> lp
           | _ \<Rightarrow> lp\<lparr>il_queue := snd (runEvery current interval cb (il_queue lp))\<rparr>)
      | Elsewhere n \<Rightarrow> lp\<lparr>il_queue := (il_queue lp)\<lparr>tq_counter := tq_counter (il_queue lp) + n\<rparr>\<rparr>
      | Expire \<Rightarrow> io_handleExpiredTimers current lp))"

definition io_run :: "(int \<Rightarrow> string) \<Rightarrow> (int \<times> io_event) list \<Rightarrow> io_loop \<Rightarrow> io_loop" where
  "io_run files evs lp = fold (io_step files) evs lp"

end
