(* ===== verification/Timer_Queue_Props.thy ===== *)
theory Timer_Queue_Props
  imports Timer_Queue
begin

text \<open>
  Properties of the timer queue: the two indexes stay consistent through every operation and
  through a batch of callbacks, the batch fires exactly the due timers in order, the epoll timeout
  never oversleeps, and what cancelling does.
\<close>

section \<open>Every operation keeps the indexes consistent\<close>

lemma set_insert_absent: "om_get m k = None \<Longrightarrow> set_insert k v m = om_put k v m"
  by (simp add: set_insert_def)

lemma active_okD:
  "active_ok pend n A E \<Longrightarrow> A s = Some t \<Longrightarrow>
     ti_sequence t = s \<and> 0 < s \<and> s < n \<and> (E (timer_key t) = Some t \<or> t \<in> set pend)"
  by (simp add: active_ok_def)

lemma entries_okD:
  "entries_ok pend A E \<Longrightarrow> E k = Some t \<Longrightarrow>
     k = timer_key t \<and> A (ti_sequence t) = Some t \<and> ti_sequence t \<notin> ti_sequence ` set pend"
  unfolding entries_ok_def by blast

lemma timer_key_eq: "timer_key t = timer_key u \<Longrightarrow> ti_sequence t = ti_sequence u"
  by (simp add: timer_key_def)

text \<open>The updates of the two indexes, on the maps they stand for.\<close>

lemma index_insert:
  assumes "active_ok pend n A E" "entries_ok pend A E" "pend_ok pend n A"
    and s: "ti_sequence t = s" "0 < s" "s < n" "s \<notin> ti_sequence ` set pend"
    and fresh: "\<And>k u. E k = Some u \<Longrightarrow> ti_sequence u \<noteq> s"
  defines "A' \<equiv> A(s \<mapsto> t)" and "E' \<equiv> E(timer_key t \<mapsto> t)"
  shows "active_ok pend n A' E'" "entries_ok pend A' E'" "pend_ok pend n A'"
proof -
  show "active_ok pend n A' E'"
    unfolding active_ok_def
  proof (intro allI impI)
    fix r u
    assume u: "A' r = Some u"
    show "ti_sequence u = r \<and> 0 < r \<and> r < n \<and> (E' (timer_key u) = Some u \<or> u \<in> set pend)"
    proof (cases "r = s")
      case True
      then show ?thesis using u s by (simp add: A'_def E'_def)
    next
      case False
      then have "ti_sequence u = r \<and> 0 < r \<and> r < n \<and> (E (timer_key u) = Some u \<or> u \<in> set pend)"
        using u active_okD [OF assms(1)] by (simp add: A'_def)
      moreover have "timer_key u \<noteq> timer_key t"
        using False s(1) calculation timer_key_eq by blast
      ultimately show ?thesis by (simp add: E'_def)
    qed
  qed
  show "entries_ok pend A' E'"
    unfolding entries_ok_def
  proof (intro allI impI)
    fix k u
    assume u: "E' k = Some u"
    show "k = timer_key u \<and> A' (ti_sequence u) = Some u \<and> ti_sequence u \<notin> ti_sequence ` set pend"
    proof (cases "k = timer_key t")
      case True
      then show ?thesis using u s by (simp add: A'_def E'_def)
    next
      case False
      then have e: "E k = Some u" using u by (simp add: E'_def)
      show ?thesis using entries_okD [OF assms(2) e] fresh [OF e] by (simp add: A'_def)
    qed
  qed
  show "pend_ok pend n A'" using assms(3) s(4) by (auto simp: pend_ok_def A'_def)
qed

lemma index_erase:
  assumes "active_ok pend n A E" "entries_ok pend A E" "pend_ok pend n A" and t: "A s = Some t"
  defines "A' \<equiv> A(s := None)" and "E' \<equiv> E(timer_key t := None)"
  shows "active_ok pend n A' E'" "entries_ok pend A' E'" "pend_ok pend n A'"
proof -
  have s: "ti_sequence t = s" using active_okD [OF assms(1) t] by simp
  show "active_ok pend n A' E'"
    unfolding active_ok_def
  proof (intro allI impI)
    fix r u
    assume u: "A' r = Some u"
    then have "r \<noteq> s" "A r = Some u" by (simp_all add: A'_def split: if_splits)
    moreover from active_okD [OF assms(1) this(2)] this(1) have "timer_key u \<noteq> timer_key t"
      using s timer_key_eq by blast
    ultimately show "ti_sequence u = r \<and> 0 < r \<and> r < n \<and> (E' (timer_key u) = Some u \<or> u \<in> set pend)"
      using active_okD [OF assms(1), of r u] by (simp add: E'_def)
  qed
  show "entries_ok pend A' E'"
    unfolding entries_ok_def
  proof (intro allI impI)
    fix k u
    assume "E' k = Some u"
    then have u: "k \<noteq> timer_key t" "E k = Some u" by (simp_all add: E'_def split: if_splits)
    note e = entries_okD [OF assms(2) u(2)]
    have "ti_sequence u \<noteq> s" using e t u(1) by auto
    then show "k = timer_key u \<and> A' (ti_sequence u) = Some u \<and> ti_sequence u \<notin> ti_sequence ` set pend"
      using e by (simp add: A'_def)
  qed
  show "pend_ok pend n A'" using assms(3) by (auto simp: pend_ok_def A'_def)
qed

text \<open>The head of the batch is done: one-shot timers leave the active map, repeated ones stay.\<close>

lemma index_pop:
  assumes "active_ok (t # pend) n A E" "entries_ok (t # pend) A E" "pend_ok (t # pend) n A"
  defines "A' \<equiv> A(ti_sequence t := None)"
  shows "active_ok pend n A' E" "entries_ok pend A' E" "pend_ok pend n A'"
    "\<And>k u. E k = Some u \<Longrightarrow> ti_sequence u \<noteq> ti_sequence t"
    "0 < ti_sequence t" "ti_sequence t < n" "ti_sequence t \<notin> ti_sequence ` set pend"
proof -
  show e: "ti_sequence u \<noteq> ti_sequence t" if "E k = Some u" for k u
    using entries_okD [OF assms(2) that] by simp
  show "active_ok pend n A' E"
    unfolding active_ok_def
  proof (intro allI impI)
    fix r u
    assume "A' r = Some u"
    then have u: "r \<noteq> ti_sequence t" "A r = Some u" by (simp_all add: A'_def split: if_splits)
    then show "ti_sequence u = r \<and> 0 < r \<and> r < n \<and> (E (timer_key u) = Some u \<or> u \<in> set pend)"
      using active_okD [OF assms(1) u(2)] by auto
  qed
  show "entries_ok pend A' E"
    using entries_okD [OF assms(2)] e by (auto simp: entries_ok_def A'_def)
  show "pend_ok pend n A'" "0 < ti_sequence t" "ti_sequence t < n"
    "ti_sequence t \<notin> ti_sequence ` set pend"
    using assms(3) by (auto simp: pend_ok_def A'_def)
qed

lemma index_counter:
  "active_ok pend n A E \<Longrightarrow> active_ok pend (Suc n) A E" "pend_ok pend n A \<Longrightarrow> pend_ok pend (Suc n) A"
  by (fastforce simp: active_ok_def, fastforce simp: pend_ok_def)

text \<open>The operations. The first lemma lets the active map still hold the timer being replaced.\<close>

lemma insert_inv:
  fixes q :: "'c timer_queue" and t :: "'c timer"
  defines "A \<equiv> (om_get (tq_active q))(ti_sequence t := None)" and "E \<equiv> om_get (tq_entries q)"
  assumes v: "om_valid (tq_entries q)" "om_valid (tq_active q)" "0 < tq_counter q"
    and idx: "active_ok pend (tq_counter q) A E" "entries_ok pend A E" "pend_ok pend (tq_counter q) A"
    and t: "0 < ti_sequence t" "ti_sequence t < tq_counter q" "ti_sequence t \<notin> ti_sequence ` set pend"
    and fresh: "\<And>k u. E k = Some u \<Longrightarrow> ti_sequence u \<noteq> ti_sequence t"
  shows "queue_inv pend (insertInLoop t q)"
proof -
  have "E (timer_key t) = None"
  proof (cases "E (timer_key t)")
    case (Some u)
    then have "timer_key t = timer_key u" using entries_okD [OF idx(2)] by blast
    then show ?thesis using fresh [OF Some] timer_key_eq by metis
  qed simp
  then have "set_insert (timer_key t) t (tq_entries q) = om_put (timer_key t) t (tq_entries q)"
    by (simp add: set_insert_absent E_def)
  moreover have "A(ti_sequence t \<mapsto> t) = (om_get (tq_active q))(ti_sequence t \<mapsto> t)"
    by (simp add: A_def)
  ultimately show ?thesis
    using v index_insert [OF idx refl t fresh]
    by (simp add: queue_inv_def insertInLoop_def om_get_put om_valid_put E_def)
qed

lemma addTimer_inv:
  assumes "queue_inv pend q"
  shows "queue_inv pend (snd (addTimer c when i q))"
proof -
  let ?q = "q\<lparr>tq_counter := tq_counter q + 1\<rparr>"
  let ?t = "\<lparr>ti_callback = c, ti_expiration = when, ti_intervalSeconds = i, ti_sequence = tq_counter q\<rparr>"
  note inv = assms [unfolded queue_inv_def]
  have "om_get (tq_active q) (tq_counter q) = None"
    using inv active_okD by (metis less_irrefl option.exhaust)
  then have A: "(om_get (tq_active q))(tq_counter q := None) = om_get (tq_active q)" by auto
  have "ti_sequence u \<noteq> tq_counter q" if "om_get (tq_entries q) k = Some u" for k u
    using inv entries_okD [of pend _ _ k u] active_okD that by (metis nat_less_le)
  moreover have "tq_counter q \<notin> ti_sequence ` set pend" using inv by (auto simp: pend_ok_def)
  ultimately have "queue_inv pend (insertInLoop ?t ?q)"
    using inv A by (intro insert_inv) (simp_all add: index_counter)
  then show ?thesis by (simp add: addTimer_def)
qed

lemma cancel_inv:
  assumes "queue_inv pend q"
  shows "queue_inv pend (cancel i q)"
proof (cases "timer_id_valid i \<and> tid_owner i = Some (tq_self q)")
  case False
  then show ?thesis using assms by (auto simp: cancel_def cancelInLoop_def)
next
  case True
  show ?thesis
  proof (cases "om_get (tq_active q) (tid_sequence i)")
    case None
    then show ?thesis using assms by (simp add: cancel_def cancelInLoop_def)
  next
    case (Some t)
    then show ?thesis
      using True assms index_erase [of pend "tq_counter q" "om_get (tq_active q)" "om_get (tq_entries q)"
          "tid_sequence i" t]
      by (simp add: cancel_def cancelInLoop_def queue_inv_def om_get_erase om_valid_erase)
  qed
qed

lemma run_ops_inv: "queue_inv pend q \<Longrightarrow> queue_inv pend (fold run_op ops q)"
  by (induction ops arbitrary: q) (auto simp: run_op_def addTimer_inv cancel_inv split: timer_op.split)

lemma restart_sequence [simp]: "ti_sequence (restart now t) = ti_sequence t"
  by (simp add: restart_def)

text \<open>What a turn does to the queue, and the timers that a sequence of turns runs.\<close>

definition expire_queue ::
  "('c \<Rightarrow> 'c timer_queue \<Rightarrow> 'c timer_op list) \<Rightarrow> int \<Rightarrow> 'c timer \<Rightarrow> 'c timer_queue \<Rightarrow> 'c timer_queue" where
  "expire_queue acts now t q = fold run_op (acts (ti_callback t) (reschedule now t q)) (reschedule now t q)"

lemma expire_turns:
  "fold (expire_timer acts now) ts (tr, q) = (tr @ ts, fold (expire_queue acts now) ts q)"
  by (induction ts arbitrary: tr q) (simp_all add: expire_timer_def run_timer_def expire_queue_def)

lemma expire_inv:
  assumes "queue_inv (t # pend) q"
  shows "queue_inv pend (expire_queue acts now t q)"
proof -
  note inv = assms [unfolded queue_inv_def]
  have a: "active_ok (t # pend) (tq_counter q) (om_get (tq_active q)) (om_get (tq_entries q))"
    "entries_ok (t # pend) (om_get (tq_active q)) (om_get (tq_entries q))"
    "pend_ok (t # pend) (tq_counter q) (om_get (tq_active q))"
    using inv by simp_all
  note pop = index_pop [OF a]
  have "queue_inv pend (q\<lparr>tq_active := om_erase (ti_sequence t) (tq_active q)\<rparr>)"
    using inv pop(1-3) by (simp add: queue_inv_def om_get_erase om_valid_erase)
  moreover have "queue_inv pend (insertInLoop (restart now t) q)"
    using inv pop by (intro insert_inv) simp_all
  ultimately show ?thesis by (simp add: expire_queue_def reschedule_def run_ops_inv)
qed

lemma reschedule_inv: "queue_inv (t # pend) q \<Longrightarrow> queue_inv pend (reschedule now t q)"
  using expire_inv [of t pend q "\<lambda>c q. []" now] by (simp add: expire_queue_def)

lemma expire_all_inv:
  "queue_inv ts q \<Longrightarrow> queue_valid (fold (expire_queue acts now) ts q)"
  by (induction ts arbitrary: q) (auto simp: expire_inv)


section \<open>A batch\<close>

definition due :: "int \<Rightarrow> (int \<times> nat) \<times> 'c timer \<Rightarrow> bool" where
  "due now e \<longleftrightarrow> fst (fst e) \<le> now"

lemma collect_due_eq:
  "collect_due now es = (map snd (takeWhile (due now) es), dropWhile (due now) es)"
  by (induction now es rule: collect_due.induct) (auto simp: due_def)

text \<open>In an ordered map the due entries are exactly a front part.\<close>

lemma due_split:
  "om_valid es \<Longrightarrow> takeWhile (due now) es = filter (due now) es \<and>
     dropWhile (due now) es = filter (\<lambda>x. now < fst (fst x)) es"
proof (induction es)
  case (Cons e es)
  obtain k t where e: "e = (k, t)" by (cases e)
  show ?case
  proof (cases "due now e")
    case True
    with Cons e show ?thesis by (simp add: due_def)
  next
    case False
    have "now < fst (fst x)" if "x \<in> set es" for x
    proof -
      have "k < fst x" using Cons.prems that e by auto
      then have "fst k \<le> fst (fst x)" by (auto simp: less_prod_def)
      then show ?thesis using False e by (simp add: due_def)
    qed
    then have "filter (due now) es = []" and "filter (\<lambda>x. now < fst (fst x)) es = es"
      by (fastforce simp: filter_empty_conv filter_id_conv due_def)+
    moreover have "now < fst (fst e)" using False by (simp add: due_def)
    ultimately show ?thesis using False by simp
  qed
qed simp

lemma takeWhile_due: "om_valid es \<Longrightarrow> takeWhile (due now) es = filter (due now) es"
  and dropWhile_due: "om_valid es \<Longrightarrow> dropWhile (due now) es = filter (\<lambda>x. now < fst (fst x)) es"
  by (simp_all add: due_split)

lemma om_valid_append: "om_valid (a @ b) \<Longrightarrow> om_valid a \<and> om_valid b \<and> fst ` set a \<inter> fst ` set b = {}"
  by (fastforce simp: om_valid_def sorted_wrt_append)

lemma om_valid_distinct: "om_valid m \<Longrightarrow> distinct (map fst m)"
  by (auto simp: om_valid_def strict_sorted_iff)

lemma queue_entryD:
  assumes "queue_valid q" "(k, t) \<in> set (tq_entries q)"
  shows "k = timer_key t" "om_get (tq_active q) (ti_sequence t) = Some t"
  using assms entries_okD [of "[]" "om_get (tq_active q)" "om_get (tq_entries q)" k t]
  by (simp_all add: queue_inv_def om_get_in_set)

lemma queue_activeD:
  assumes "queue_valid q" "om_get (tq_active q) s = Some t"
  shows "(timer_key t, t) \<in> set (tq_entries q)" "ti_sequence t = s" "0 < s" "s < tq_counter q"
  using assms active_okD [of "[]" "tq_counter q" "om_get (tq_active q)" "om_get (tq_entries q)" s t]
  by (simp_all add: queue_inv_def om_get_in_set)

lemma collect_inv:
  assumes "queue_valid q"
  shows "queue_inv (map snd (takeWhile (due now) (tq_entries q)))
    (q\<lparr>tq_entries := dropWhile (due now) (tq_entries q)\<rparr>)"
proof -
  define a where "a = takeWhile (due now) (tq_entries q)"
  define b where "b = dropWhile (due now) (tq_entries q)"
  have es: "tq_entries q = a @ b" by (simp add: a_def b_def)
  have v: "om_valid (tq_entries q)" "om_valid (tq_active q)" "0 < tq_counter q"
    using assms by (simp_all add: queue_inv_def)
  have ab: "om_valid a" "om_valid b" "fst ` set a \<inter> fst ` set b = {}"
    using om_valid_append [of a b] v(1) by (simp_all add: es)
  have ent: "k = timer_key t" "om_get (tq_active q) (ti_sequence t) = Some t"
    if "(k, t) \<in> set a \<or> (k, t) \<in> set b" for k t
    using queue_entryD [OF assms, of k t] that by (auto simp: es)
  have "active_ok (map snd a) (tq_counter q) (om_get (tq_active q)) (om_get b)"
    unfolding active_ok_def
  proof (intro allI impI)
    fix s t
    assume "om_get (tq_active q) s = Some t"
    note t = queue_activeD [OF assms this]
    then have "(timer_key t, t) \<in> set a \<or> (timer_key t, t) \<in> set b" by (simp add: es)
    then have "om_get b (timer_key t) = Some t \<or> t \<in> set (map snd a)"
    proof
      assume "(timer_key t, t) \<in> set a"
      then have "t \<in> set (map snd a)" by (metis image_eqI list.set_map snd_conv)
      then show ?thesis ..
    qed (simp add: om_get_in_set [OF ab(2)])
    with t show "ti_sequence t = s \<and> 0 < s \<and> s < tq_counter q \<and>
        (om_get b (timer_key t) = Some t \<or> t \<in> set (map snd a))" by simp
  qed
  moreover have "entries_ok (map snd a) (om_get (tq_active q)) (om_get b)"
    unfolding entries_ok_def
  proof (intro allI impI)
    fix k t
    assume "om_get b k = Some t"
    then have kt: "(k, t) \<in> set b" by (simp add: om_get_in_set [OF ab(2)])
    have "ti_sequence u \<noteq> ti_sequence t" if "(l, u) \<in> set a" for l u
    proof
      assume "ti_sequence u = ti_sequence t"
      then have "u = t" "l = k" using ent [of k t] ent [of l u] kt that by auto
      then show False using ab(3) kt that by force
    qed
    then show "k = timer_key t \<and> om_get (tq_active q) (ti_sequence t) = Some t \<and>
        ti_sequence t \<notin> ti_sequence ` set (map snd a)"
      using ent [of k t] kt by force
  qed
  moreover have "pend_ok (map snd a) (tq_counter q) (om_get (tq_active q))"
    unfolding pend_ok_def
  proof
    have "inj_on (\<lambda>e. ti_sequence (snd e)) (set a)"
    proof (rule inj_onI)
      fix x y
      assume xy: "x \<in> set a" "y \<in> set a" "ti_sequence (snd x) = ti_sequence (snd y)"
      obtain k t l u where e: "x = (k, t)" "y = (l, u)" by (cases x, cases y) blast
      have x: "k = timer_key t" "om_get (tq_active q) (ti_sequence t) = Some t"
        by (rule ent [of k], use xy(1) e in simp)+
      have y: "l = timer_key u" "om_get (tq_active q) (ti_sequence u) = Some u"
        by (rule ent [of l], use xy(2) e in simp)+
      have st: "ti_sequence t = ti_sequence u" using xy(3) unfolding e by (simp only: snd_conv)
      have "Some t = Some u" using x(2) y(2) unfolding st by (simp only:)
      then have tu: "t = u" by (simp only: option.inject)
      show "x = y" unfolding e x(1) y(1) tu ..
    qed
    moreover have "distinct a" using om_valid_distinct [OF ab(1)] by (simp add: distinct_map)
    ultimately show "distinct (map ti_sequence (map snd a))" by (simp add: distinct_map comp_def)
    show "\<forall>t\<in>set (map snd a). 0 < ti_sequence t \<and> ti_sequence t < tq_counter q \<and>
        om_get (tq_active q) (ti_sequence t) \<in> {None, Some t}"
    proof
      fix t
      assume "t \<in> set (map snd a)"
      then obtain k where "(k, t) \<in> set a" by auto
      then have "om_get (tq_active q) (ti_sequence t) = Some t" using ent(2) by blast
      then show "0 < ti_sequence t \<and> ti_sequence t < tq_counter q \<and>
          om_get (tq_active q) (ti_sequence t) \<in> {None, Some t}"
        using queue_activeD(3,4) [OF assms] by blast
    qed
  qed
  ultimately show ?thesis using v ab by (simp add: queue_inv_def flip: a_def b_def)
qed

lemma handle_eq:
  "handleExpiredTimers acts now q =
     (map snd (takeWhile (due now) (tq_entries q)),
      fold (expire_queue acts now) (map snd (takeWhile (due now) (tq_entries q)))
        (q\<lparr>tq_entries := dropWhile (due now) (tq_entries q)\<rparr>))"
  by (simp add: handleExpiredTimers_def collect_due_eq expire_turns)

lemma queue_handle_inv: "queue_valid q \<Longrightarrow> queue_valid (snd (handleExpiredTimers acts now q))"
  unfolding handle_eq using expire_all_inv [OF collect_inv] by simp

text \<open>The batch holds exactly the active timers that are due.\<close>

lemma due_iff_active:
  assumes "queue_valid q"
  shows "t \<in> set (map snd (takeWhile (due now) (tq_entries q))) \<longleftrightarrow>
    (\<exists>s. om_get (tq_active q) s = Some t \<and> ti_expiration t \<le> now)"
proof
  have f: "takeWhile (due now) (tq_entries q) = filter (due now) (tq_entries q)"
    using assms by (simp add: queue_inv_def takeWhile_due)
  {
    assume "t \<in> set (map snd (takeWhile (due now) (tq_entries q)))"
    then obtain k where k: "(k, t) \<in> set (tq_entries q)" "fst k \<le> now" by (auto simp: f due_def)
    note e = queue_entryD [OF assms k(1)]
    then have "ti_expiration t \<le> now" using k(2) by (simp add: timer_key_def)
    with e(2) show "\<exists>s. om_get (tq_active q) s = Some t \<and> ti_expiration t \<le> now" by blast
  next
    assume "\<exists>s. om_get (tq_active q) s = Some t \<and> ti_expiration t \<le> now"
    then obtain s where s: "om_get (tq_active q) s = Some t" "ti_expiration t \<le> now" by blast
    have "(timer_key t, t) \<in> set (filter (due now) (tq_entries q))"
      using queue_activeD(1) [OF assms s(1)] s(2) by (simp add: due_def timer_key_def)
    then show "t \<in> set (map snd (takeWhile (due now) (tq_entries q)))" unfolding f by force
  }
qed

text \<open>
  C16: the two indexes agree. In a queue where the set ordered by time and the map by sequence
  number hold the same timers, they still do after adding a timer, cancelling any handle, and
  running a batch of callbacks that themselves add and cancel timers.
\<close>

theorem timer_indexes_agree:
  assumes "queue_valid q"
  shows "queue_valid (snd (addTimer c when i q)) \<and> queue_valid (cancel tid q) \<and>
    queue_valid (snd (handleExpiredTimers acts now q))"
  using addTimer_inv [OF assms] cancel_inv [OF assms] queue_handle_inv [OF assms] by simp

text \<open>
  C17: what fires. A batch runs exactly the active timers whose expiration is not after the time of
  the batch, each once, in order of expiration and then of creation, whatever the callbacks do to
  the queue meanwhile. \<open>fired\<close> is the trace that \<open>run_timer\<close> writes when a timer is run, and the
  queue afterwards is what the callbacks of this trace make, one after the other, of the queue
  without the due entries: before each of them its own timer is scheduled again or forgotten.
\<close>

theorem due_timers_fire_in_order:
  assumes "queue_valid q" "handleExpiredTimers acts now q = (fired, q')"
  shows "set fired = {t. \<exists>s. om_get (tq_active q) s = Some t \<and> ti_expiration t \<le> now} \<and>
    sorted_wrt (\<lambda>t u. timer_key t < timer_key u) fired \<and>
    q' = fold (\<lambda>t r. let r1 = reschedule now t r in fold run_op (acts (ti_callback t) r1) r1) fired
      (q\<lparr>tq_entries := filter (\<lambda>x. now < fst (fst x)) (tq_entries q)\<rparr>)"
proof (intro conjI)
  have v: "om_valid (tq_entries q)" using assms(1) by (simp add: queue_inv_def)
  have f: "fired = map snd (filter (due now) (tq_entries q))"
    using assms(2) by (simp add: handle_eq takeWhile_due [OF v])
  show "q' = fold (\<lambda>t r. let r1 = reschedule now t r in fold run_op (acts (ti_callback t) r1) r1) fired
      (q\<lparr>tq_entries := filter (\<lambda>x. now < fst (fst x)) (tq_entries q)\<rparr>)"
    using assms(2) by (auto simp: handle_eq takeWhile_due [OF v] dropWhile_due [OF v] Let_def
        expire_queue_def [abs_def])
  show "set fired = {t. \<exists>s. om_get (tq_active q) s = Some t \<and> ti_expiration t \<le> now}"
    using due_iff_active [OF assms(1), of _ now] by (auto simp: f takeWhile_due [OF v])
  have "sorted_wrt (\<lambda>x y. fst x < fst y) (tq_entries q)"
    using v by (simp add: om_valid_def sorted_wrt_map)
  then have "sorted_wrt (\<lambda>x y. fst x < fst y) (filter (due now) (tq_entries q))"
    by (rule sorted_wrt_filter)
  then have "sorted_wrt (\<lambda>x y. timer_key (snd x) < timer_key (snd y)) (filter (due now) (tq_entries q))"
  proof (rule sorted_wrt_mono_rel [rotated])
    fix x y
    assume "x \<in> set (filter (due now) (tq_entries q))" "y \<in> set (filter (due now) (tq_entries q))"
      "fst x < fst y"
    then show "timer_key (snd x) < timer_key (snd y)"
      using queue_entryD(1) [OF assms(1), of "fst x" "snd x"]
        queue_entryD(1) [OF assms(1), of "fst y" "snd y"] by simp
  qed
  then show "sorted_wrt (\<lambda>t u. timer_key t < timer_key u) fired" by (simp add: f sorted_wrt_map)
qed

lemma fired_active:
  assumes "queue_valid q" "handleExpiredTimers acts now q = (fired, q')" "t \<in> set fired"
  shows "\<exists>s. om_get (tq_active q) s = Some t"
proof -
  obtain k where "(k, t) \<in> set (tq_entries q)"
    using assms(2,3) set_takeWhileD by (fastforce simp: handle_eq)
  then show ?thesis using queue_entryD(2) [OF assms(1)] by blast
qed

section \<open>Cancelling\<close>

text \<open>
  A cancelled timer is gone. After cancelling a valid handle of this queue outside a batch,
  no later batch runs a timer with that handle's sequence number, whatever the batch time, as
  the first thing that happens.
\<close>

lemma cancelled_timer_never_fires:
  assumes "queue_valid q" "timer_id_valid i" "tid_owner i = Some (tq_self q)"
  shows "om_get (tq_active (cancel i q)) (tid_sequence i) = None \<and>
    (\<forall>t \<in> set (fst (handleExpiredTimers acts now (cancel i q))). ti_sequence t \<noteq> tid_sequence i)"
proof -
  have v: "om_valid (tq_active q)" using assms(1) by (simp add: queue_inv_def)
  have n: "om_get (tq_active (cancel i q)) (tid_sequence i) = None"
    using assms(2,3) by (simp add: cancel_def cancelInLoop_def om_get_erase [OF v] split: option.split)
  obtain fired q' where h: "handleExpiredTimers acts now (cancel i q) = (fired, q')" by fastforce
  have "queue_valid (cancel i q)" by (rule cancel_inv [OF assms(1)])
  have "ti_sequence t \<noteq> tid_sequence i" if t: "t \<in> set fired" for t
  proof -
    obtain s where "om_get (tq_active (cancel i q)) s = Some t"
      using fired_active [OF \<open>queue_valid (cancel i q)\<close> h t] by blast
    then show ?thesis using queue_activeD(2) [OF \<open>queue_valid (cancel i q)\<close>] n by force
  qed
  with n h show ?thesis by simp
qed

text \<open>A run of operations that does not cancel a handle leaves its timer alone.\<close>

definition spares :: "'c timer_op list \<Rightarrow> nat \<Rightarrow> bool" where
  "spares ops s \<longleftrightarrow> (\<forall>i. CancelOp i \<in> set ops \<longrightarrow> tid_sequence i \<noteq> s)"

lemma run_ops_spare:
  "queue_inv pend q \<Longrightarrow> spares ops s \<Longrightarrow> om_get (tq_active q) s = Some t \<Longrightarrow>
     om_get (tq_active (fold run_op ops q)) s = Some t"
proof (induction ops arbitrary: q)
  case (Cons oper ops)
  have lt: "s < tq_counter q"
    using active_okD [of pend "tq_counter q" "om_get (tq_active q)" "om_get (tq_entries q)" s t]
      Cons.prems(1,3) by (simp add: queue_inv_def)
  have v: "om_valid (tq_active q)" using Cons.prems(1) by (simp add: queue_inv_def)
  have "om_get (tq_active (run_op oper q)) s = Some t"
    using Cons.prems(2,3) lt
    by (cases oper)
      (auto simp: run_op_def addTimer_def insertInLoop_def Let_def om_get_put cancel_def cancelInLoop_def
        om_get_erase [OF v] spares_def split: option.split)
  moreover have "queue_inv pend (run_op oper q)"
    using run_ops_inv [OF Cons.prems(1), of "[oper]"] by simp
  moreover have "spares ops s" using Cons.prems(2) by (simp add: spares_def)
  ultimately show ?case using Cons.IH by simp
qed simp

lemma expire_spares:
  assumes "queue_inv (u # pend) q" "\<And>q. spares (acts (ti_callback u) q) s" "ti_sequence u \<noteq> s"
    and "om_get (tq_active q) s = Some t"
  shows "om_get (tq_active (expire_queue acts now u q)) s = Some t"
proof -
  let ?q = "if repeat u then insertInLoop (restart now u) q
    else q\<lparr>tq_active := om_erase (ti_sequence u) (tq_active q)\<rparr>"
  have v: "om_valid (tq_active q)" using assms(1) by (simp add: queue_inv_def)
  have "queue_inv pend (expire_queue (\<lambda>c q. []) now u q)" by (rule expire_inv [OF assms(1)])
  then have "queue_inv pend ?q" by (simp add: expire_queue_def reschedule_def)
  moreover have "om_get (tq_active ?q) s = Some t"
    using assms(3,4) by (simp add: insertInLoop_def om_get_put om_get_erase [OF v])
  ultimately show ?thesis
    unfolding expire_queue_def reschedule_def using assms(2) by (intro run_ops_spare)
qed

lemma expire_all_spare:
  "queue_inv us q \<Longrightarrow> \<forall>u \<in> set us. ti_sequence u \<noteq> s \<and> (\<forall>q. spares (acts (ti_callback u) q) s) \<Longrightarrow>
     om_get (tq_active q) s = Some t \<Longrightarrow>
     om_get (tq_active (fold (expire_queue acts now) us q)) s = Some t"
  by (induction us arbitrary: q) (auto simp: expire_inv expire_spares)

lemma expire_repeats:
  assumes "queue_inv (t # pend) q" "repeat t" "\<And>q. spares (acts (ti_callback t) q) (ti_sequence t)"
  shows "om_get (tq_active (expire_queue acts now t q)) (ti_sequence t) = Some (restart now t)"
proof -
  have "queue_inv pend (expire_queue (\<lambda>c q. []) now t q)" by (rule expire_inv [OF assms(1)])
  then have "queue_inv pend (insertInLoop (restart now t) q)"
    using assms(2) by (simp add: expire_queue_def reschedule_def)
  moreover have "om_get (tq_active (insertInLoop (restart now t) q)) (ti_sequence t) = Some (restart now t)"
    by (simp add: insertInLoop_def om_get_put)
  ultimately show ?thesis
    unfolding expire_queue_def reschedule_def if_P [OF assms(2)]
    using assms(3) by (intro run_ops_spare)
qed

lemma expire_prefix_inv: "queue_inv (us @ ts) q \<Longrightarrow> queue_inv ts (fold (expire_queue acts now) us q)"
  by (induction us arbitrary: q) (auto simp: expire_inv)

text \<open>
  C18: repeated timers come back. A repeated timer of a batch is active again afterwards, one
  interval after the batch time, unless its own callback or a later one of the batch cancels it.
  A callback that ran earlier in the batch cannot: its cancellation is undone.
\<close>

theorem repeating_timer_survives_earlier_cancel:
  assumes "queue_valid q" "handleExpiredTimers acts now q = (us @ t # ts, q')" "repeat t"
    and "\<forall>u \<in> set (t # ts). \<forall>q. spares (acts (ti_callback u) q) (ti_sequence t)"
  shows "om_get (tq_active q') (ti_sequence t) = Some (restart now t) \<and>
    ti_expiration (restart now t) = now + secondsToDuration (ti_intervalSeconds t)"
proof -
  let ?q = "q\<lparr>tq_entries := dropWhile (due now) (tq_entries q)\<rparr>"
  let ?q1 = "fold (expire_queue acts now) us ?q"
  have l: "map snd (takeWhile (due now) (tq_entries q)) = us @ t # ts"
    and q': "q' = fold (expire_queue acts now) ts (expire_queue acts now t ?q1)"
    using assms(2) unfolding handle_eq by auto
  have "queue_inv (us @ t # ts) ?q" using collect_inv [OF assms(1), of now] by (simp only: l)
  then have q1: "queue_inv (t # ts) ?q1" by (rule expire_prefix_inv)
  then have d: "ti_sequence t \<notin> ti_sequence ` set ts" by (simp add: queue_inv_def pend_ok_def)
  have "om_get (tq_active (expire_queue acts now t ?q1)) (ti_sequence t) = Some (restart now t)"
    using expire_repeats [OF q1 assms(3)] assms(4) by simp
  then have "om_get (tq_active q') (ti_sequence t) = Some (restart now t)"
    unfolding q' using assms(4) d
    by (intro expire_all_spare [OF expire_inv [OF q1]]) (auto intro: rev_image_eqI)
  then show ?thesis using assms(3) by (simp add: restart_def)
qed

section \<open>The epoll timeout\<close>

text \<open>
  The wait of the loop. With no timer the loop may block for ever. Otherwise the timeout is
  between 0 and a day, never reaches past the expiration of any active timer, and is 0 exactly
  when the earliest one is due or less than a millisecond away.
\<close>

lemma nextTimeoutMs_no_oversleep:
  assumes "queue_valid q" "r = nextTimeoutMs current q"
  shows "(r = - 1 \<longleftrightarrow> tq_active q = []) \<and>
    (\<forall>s t. om_get (tq_active q) s = Some t \<longrightarrow>
       0 \<le> r \<and> r \<le> 86400000 \<and>
       r * 1000000 \<le> max 0 (ti_expiration t - current)) \<and>
    (r = 0 \<longleftrightarrow> (\<exists>s t. om_get (tq_active q) s = Some t \<and> ti_expiration t - current < 1000000))"
proof (cases "tq_entries q")
  case Nil
  have "tq_active q = []"
  proof (cases "tq_active q")
    case c: (Cons p m)
    then have "om_get (tq_active q) (fst p) = Some (snd p)" by (cases p) (simp add: om_get_def)
    then show ?thesis using queue_activeD(1) [OF assms(1)] Nil by fastforce
  qed
  then show ?thesis using Nil by (simp add: assms(2) nextTimeoutMs_def om_get_def)
next
  case (Cons e es)
  obtain k t0 where e: "e = (k, t0)" by (cases e)
  have k: "k = timer_key t0" "om_get (tq_active q) (ti_sequence t0) = Some t0"
    using queue_entryD [OF assms(1), of k t0] Cons e by simp_all
  have v: "om_valid (e # es)" using assms(1) Cons by (simp add: queue_inv_def)
  have le: "ti_expiration t0 \<le> ti_expiration t" if t: "om_get (tq_active q) s = Some t" for s t
  proof -
    have "(timer_key t, t) \<in> set (e # es)" using queue_activeD(1) [OF assms(1) t] Cons by simp
    then have "timer_key t = k \<or> k < timer_key t" using v e by auto
    then show ?thesis using k(1) by (auto simp: timer_key_def less_prod_def)
  qed
  have ms: "msUntil current (fst k) * 1000000 \<le> max 0 (ti_expiration t0 - current)"
      "msUntil current (fst k) \<le> 0 \<longleftrightarrow> ti_expiration t0 - current < 1000000"
    using k(1) by (auto simp: msUntil_def timer_key_def)
  have r: "r = (if msUntil current (fst k) \<le> 0 then 0 else min (msUntil current (fst k)) kMaxTimeoutMs)"
    by (simp add: assms(2) nextTimeoutMs_def Cons e Let_def)
  have nn: "0 \<le> r" "r \<le> 86400000" "r * 1000000 \<le> max 0 (ti_expiration t0 - current)"
    "r = 0 \<longleftrightarrow> ti_expiration t0 - current < 1000000"
    using ms by (auto simp: r kMaxTimeoutMs_def)
  have "tq_active q \<noteq> []" using k(2) by (auto simp: om_get_def)
  moreover have "r * 1000000 \<le> max 0 (ti_expiration t - current)"
    if "om_get (tq_active q) s = Some t" for s t
    using nn(3) le [OF that] by linarith
  moreover have "r = 0 \<longleftrightarrow>
      (\<exists>s t. om_get (tq_active q) s = Some t \<and> ti_expiration t - current < 1000000)"
  proof
    assume "r = 0"
    then show "\<exists>s t. om_get (tq_active q) s = Some t \<and> ti_expiration t - current < 1000000"
      using nn(4) k(2) by blast
  next
    assume "\<exists>s t. om_get (tq_active q) s = Some t \<and> ti_expiration t - current < 1000000"
    then obtain s t where "om_get (tq_active q) s = Some t" "ti_expiration t - current < 1000000" by blast
    with le [OF this(1)] nn(4) show "r = 0" by linarith
  qed
  ultimately show ?thesis using nn(1,2) by simp
qed


section \<open>Inputs\<close>

lemma TimerQueue_new_valid: "0 < n \<Longrightarrow> queue_valid (TimerQueue_new self n)"
  by (simp add: queue_inv_def active_ok_def entries_ok_def pend_ok_def TimerQueue_new_def
      om_empty_def om_get_def)

text \<open>Two timers due at the same time; the callback of the first cancels the second.\<close>

definition demo_q :: "nat timer_queue" where
  "demo_q = snd (addTimer 2 5 1 (snd (addTimer 1 5 0 (TimerQueue_new 9 1))))"

definition demo_acts :: "nat \<Rightarrow> nat timer_queue \<Rightarrow> nat timer_op list" where
  "demo_acts c q = (if c = 1 then [CancelOp \<lparr>tid_sequence = 2, tid_owner = Some 9\<rparr>] else [])"

definition demo_t1 :: "nat timer" where
  "demo_t1 = \<lparr>ti_callback = 1, ti_expiration = 5, ti_intervalSeconds = 0, ti_sequence = 1\<rparr>"

definition demo_t2 :: "nat timer" where
  "demo_t2 = \<lparr>ti_callback = 2, ti_expiration = 5, ti_intervalSeconds = 1, ti_sequence = 2\<rparr>"

lemma demo_q_valid: "queue_valid demo_q"
  unfolding demo_q_def by (intro addTimer_inv TimerQueue_new_valid) simp

lemma demo_q_entries: "tq_entries demo_q = [((5, 1), demo_t1), ((5, 2), demo_t2)]"
  "tq_active demo_q = [(1, demo_t1), (2, demo_t2)]" "tq_self demo_q = 9"
  by (simp_all add: demo_q_def addTimer_def insertInLoop_def TimerQueue_new_def om_empty_def
      set_insert_def om_get_def timer_key_def demo_t1_def demo_t2_def Let_def numeral_2_eq_2)

lemma demo_fired: "fst (handleExpiredTimers demo_acts 10 demo_q) = [demo_t1] @ demo_t2 # []"
  by (simp add: handle_eq demo_q_entries due_def)

theorem timer_indexes_agree_witness:
  "queue_valid (snd (addTimer 3 7 0 demo_q)) \<and>
     queue_valid (cancel \<lparr>tid_sequence = 1, tid_owner = Some 9\<rparr> demo_q) \<and>
     queue_valid (snd (handleExpiredTimers demo_acts 10 demo_q))"
  by (rule timer_indexes_agree [OF demo_q_valid])

theorem due_timers_fire_in_order_witness:
  "set [demo_t1, demo_t2] =
     {t. \<exists>s. om_get (tq_active demo_q) s = Some t \<and> ti_expiration t \<le> 10} \<and>
   snd (handleExpiredTimers demo_acts 10 demo_q) =
     fold (\<lambda>t r. let r1 = reschedule 10 t r in fold run_op (demo_acts (ti_callback t) r1) r1)
       [demo_t1, demo_t2] (demo_q\<lparr>tq_entries := filter (\<lambda>x. 10 < fst (fst x)) (tq_entries demo_q)\<rparr>)"
  using due_timers_fire_in_order [OF demo_q_valid, of demo_acts 10 _ _, OF prod.collapse [symmetric]]
    demo_fired by simp

lemma cancelled_timer_never_fires_witness:
  "2 \<notin> ti_sequence ` set (fst (handleExpiredTimers demo_acts 10
     (cancel \<lparr>tid_sequence = 2, tid_owner = Some 9\<rparr> demo_q)))"
  using cancelled_timer_never_fires [OF demo_q_valid, of "\<lparr>tid_sequence = 2, tid_owner = Some 9\<rparr>" demo_acts 10]
  by (auto simp: timer_id_valid_def demo_q_entries)

theorem repeating_timer_survives_earlier_cancel_witness:
  "om_get (tq_active (snd (handleExpiredTimers demo_acts 10 demo_q))) 2 = Some (restart 10 demo_t2)"
proof -
  have "handleExpiredTimers demo_acts 10 demo_q =
      ([demo_t1] @ demo_t2 # [], snd (handleExpiredTimers demo_acts 10 demo_q))"
    using demo_fired by (metis prod.collapse)
  from repeating_timer_survives_earlier_cancel [OF demo_q_valid this] show ?thesis
    by (simp add: demo_t2_def repeat_def spares_def demo_acts_def)
qed

lemma nextTimeoutMs_no_oversleep_witness:
  "nextTimeoutMs 4 demo_q * 1000000 \<le> max 0 (ti_expiration demo_t1 - 4)"
proof -
  have "om_get (tq_active demo_q) 1 = Some demo_t1" by (simp add: demo_q_entries om_get_def)
  with nextTimeoutMs_no_oversleep [OF demo_q_valid refl, of 4] show ?thesis by blast
qed

end
