(* ===== verification/Idle_Timers_Props.thy ===== *)
theory Idle_Timers_Props
  imports Idle_Timers Timer_Queue_Props
begin

text \<open>
  Properties of the idle timeouts: whatever happens on a loop, the queue holds exactly one idle
  timer for each open connection with a timeout, due its timeout after the last bytes arrived, so
  that a batch closes exactly the connections that have been silent for so long.
\<close>

section \<open>Connection operations and the handle\<close>

text \<open>
  What every operation of a connection other than \<open>refreshIdleTimer\<close> does to the fields of the idle
  timeout: nothing, unless it closes the connection, which resets the handle.
\<close>

definition timer_rel :: "conn \<Rightarrow> conn \<Rightarrow> bool" where
  "timer_rel c c' \<longleftrightarrow> cn_idleTimeoutSeconds c' = cn_idleTimeoutSeconds c \<and>
     (if cn_closed c then cn_closed c' \<and> cn_idleTimer c' = cn_idleTimer c
      else cn_idleTimer c' = (\<not> cn_closed c' \<and> cn_idleTimer c))"

named_theorems timer_intros

lemma timer_rel_refl [simp, timer_intros]: "timer_rel c c"
  by (simp add: timer_rel_def)

lemma timer_rel_trans: "timer_rel c d \<Longrightarrow> timer_rel d e \<Longrightarrow> timer_rel c e"
  by (auto simp: timer_rel_def split: if_splits)

text \<open>Updates of other fields.\<close>

lemma timer_rel_cong:
  "cn_idleTimeoutSeconds d' = cn_idleTimeoutSeconds d \<Longrightarrow> cn_closed d' = cn_closed d \<Longrightarrow>
     cn_idleTimer d' = cn_idleTimer d \<Longrightarrow> timer_rel c d \<Longrightarrow> timer_rel c d'"
  by (simp add: timer_rel_def)

lemma timer_rel_updates [timer_intros]:
  "timer_rel c d \<Longrightarrow> timer_rel c (took s d)"
  "timer_rel c d \<Longrightarrow> timer_rel c (count_error d)"
  "timer_rel c d \<Longrightarrow> timer_rel c (cn_enableWriting d)"
  "timer_rel c d \<Longrightarrow> timer_rel c (cn_disableWriting d)"
  "timer_rel c d \<Longrightarrow> timer_rel c (keep_rest s d)"
  "timer_rel c d \<Longrightarrow> timer_rel c (file_done d)"
  "timer_rel c d \<Longrightarrow> timer_rel c (shutdownWrite d)"
  "timer_rel c d \<Longrightarrow> timer_rel c (write_done d)"
  "timer_rel c d \<Longrightarrow> timer_rel c (d\<lparr>cn_output := b\<rparr>)"
  "timer_rel c d \<Longrightarrow> timer_rel c (d\<lparr>cn_input := b\<rparr>)"
  "timer_rel c d \<Longrightarrow> timer_rel c (d\<lparr>cn_preFileBytes := n\<rparr>)"
  "timer_rel c d \<Longrightarrow> timer_rel c (d\<lparr>cn_fileOffset := n\<rparr>)"
  "timer_rel c d \<Longrightarrow> timer_rel c (d\<lparr>cn_fileRemaining := n\<rparr>)"
  "timer_rel c d \<Longrightarrow> timer_rel c (d\<lparr>cn_pendingFile := f\<rparr>)"
  by (erule timer_rel_cong [rotated 3];
      simp add: took_def count_error_def cn_enableWriting_def cn_disableWriting_def keep_rest_def
        file_done_def shutdownWrite_def write_done_def Let_def)+

lemma timer_rel_close [timer_intros]: "timer_rel c d \<Longrightarrow> timer_rel c (handleClose d)"
  by (auto simp: timer_rel_def handleClose_def)

lemma timer_rel_flush [timer_intros]: "timer_rel c d \<Longrightarrow> timer_rel c (fst (snd (flushOutput limit d rs)))"
proof (induction limit d rs rule: flushOutput.induct)
  case (2 limit d r rs)
  then show ?case by (auto simp: Let_def split: io.split intro!: timer_intros)
qed (auto intro!: timer_intros)

lemma timer_rel_file [timer_intros]: "timer_rel c d \<Longrightarrow> timer_rel c (fst (snd (sendPendingFile files d rs)))"
proof (induction files d rs rule: sendPendingFile.induct)
  case (2 files d r rs)
  then show ?case by (auto simp: Let_def split: io.split intro!: timer_intros)
qed (auto intro!: timer_intros)

lemma timer_rel_stages [timer_intros]:
  assumes "timer_rel c d"
  shows "timer_rel c (fst (snd (write_stage1 d rs)))" "timer_rel c (fst (snd (write_stage2 files d rs)))"
    "timer_rel c (fst (snd (write_stage3 d rs)))"
  using timer_rel_flush [OF assms] timer_rel_file [OF assms] assms
  by (auto simp: write_stage1_def write_stage2_def write_stage3_def split: prod.split
      intro!: timer_intros)
    (metis fst_conv snd_conv)+

lemma timer_rel_write [timer_intros]:
  assumes "timer_rel c d"
  shows "timer_rel c (fst (handleWrite files d rs))"
proof (cases "cn_closed d")
  case False
  obtain ok1 c1 rs1 where 1: "write_stage1 d rs = (ok1, c1, rs1)" by (cases "write_stage1 d rs")
  obtain ok2 c2 rs2 where 2: "write_stage2 files c1 rs1 = (ok2, c2, rs2)" by (cases "write_stage2 files c1 rs1")
  obtain ok3 c3 rs3 where 3: "write_stage3 c2 rs2 = (ok3, c3, rs3)" by (cases "write_stage3 c2 rs2")
  have c1: "timer_rel c c1" using timer_rel_stages(1) [OF assms, of rs] 1 by simp
  have c2: "timer_rel c c2" using timer_rel_stages(2) [OF c1, of files rs1] 2 by simp
  have c3: "timer_rel c c3" using timer_rel_stages(3) [OF c2, of rs2] 3 by simp
  show ?thesis using False c1 c2 c3 by (simp add: handleWrite_def 1 2 3 Let_def timer_intros)
qed (simp add: handleWrite_def assms)

lemma timer_rel_sendInLoop [timer_intros]:
  "timer_rel c d \<Longrightarrow> timer_rel c (fst (sendInLoop data d rs))"
  by (auto simp: sendInLoop_def Let_def split: list.split io.split intro!: timer_intros)

lemma timer_rel_op: "timer_rel c d \<Longrightarrow> timer_rel c (run_conn_op files p d)"
  by (cases p) (auto simp: run_conn_op_def send_def sendFile_def forceClose_def split: callback_op.split
      intro!: timer_intros)

lemma timer_rel_ops [timer_intros]: "timer_rel c d \<Longrightarrow> timer_rel c (run_conn_ops files ps d)"
  unfolding run_conn_ops_def by (induction ps arbitrary: d) (simp_all add: timer_rel_op)

lemma timer_rel_read:
  assumes f: "\<And>d. timer_rel d (f d)"
  shows "timer_rel c d \<Longrightarrow> cn_read_loop f d rs activity = (r, a, c1) \<Longrightarrow> timer_rel c c1"
proof (induction rs arbitrary: d activity)
  case (Cons x rs)
  obtain n err input where x: "readFd (cn_input d) x = (n, err, input)" by (cases "readFd (cn_input d) x")
  have "timer_rel c (f (d\<lparr>cn_input := input\<rparr>))"
    by (rule timer_rel_trans [OF timer_rel_updates(10) f]) (rule Cons.prems(1))
  then show ?case using Cons.IH Cons.prems by (fastforce simp: x split: if_splits)
qed (simp split: if_splits)

section \<open>One connection and the queue\<close>

abbreviation active :: "loop_queue \<Rightarrow> nat \<Rightarrow> loop_callback timer option" where
  "active q \<equiv> om_get (tq_active q)"

text \<open>The timer an open connection must have.\<close>

definition idle_timer :: "nat \<Rightarrow> client \<Rightarrow> loop_callback timer" where
  "idle_timer i cl = \<lparr>ti_callback = IdleOf i,
     ti_expiration = cl_active cl + secondsToDuration (cn_idleTimeoutSeconds (cl_conn cl)),
     ti_intervalSeconds = 0, ti_sequence = tid_sequence (cl_timer cl)\<rparr>"

text \<open>
  The handle of a connection is valid only while it is open, and then it stands for the one timer
  the queue has for the connection.
\<close>

definition handle_ok :: "nat \<Rightarrow> client \<times> loop_queue \<Rightarrow> bool" where
  "handle_ok i s \<longleftrightarrow> (case s of (cl, q) \<Rightarrow>
     (cn_idleTimer (cl_conn cl) \<longleftrightarrow> timer_id_valid (cl_timer cl)) \<and>
     (timer_id_valid (cl_timer cl) \<longrightarrow> \<not> cn_closed (cl_conn cl) \<and> tid_owner (cl_timer cl) = Some (tq_self q) \<and>
        (\<exists>t. active q (tid_sequence (cl_timer cl)) = Some t \<and> ti_callback t = IdleOf i)) \<and>
     (\<forall>k t. active q k = Some t \<and> ti_callback t = IdleOf i \<longrightarrow>
        timer_id_valid (cl_timer cl) \<and> tid_sequence (cl_timer cl) = k))"

text \<open>And it is the right one: there exactly if the connection is open and has a timeout.\<close>

definition deadline_ok :: "nat \<Rightarrow> client \<times> loop_queue \<Rightarrow> bool" where
  "deadline_ok i s \<longleftrightarrow> (case s of (cl, q) \<Rightarrow>
     (timer_id_valid (cl_timer cl) \<longleftrightarrow> \<not> cn_closed (cl_conn cl) \<and> 0 < cn_idleTimeoutSeconds (cl_conn cl)) \<and>
     (timer_id_valid (cl_timer cl) \<longrightarrow> active q (tid_sequence (cl_timer cl)) = Some (idle_timer i cl)))"

text \<open>Timers that are not for this connection are left alone.\<close>

definition others_kept :: "nat \<Rightarrow> loop_queue \<Rightarrow> loop_queue \<Rightarrow> bool" where
  "others_kept i q q' \<longleftrightarrow> tq_self q' = tq_self q \<and>
     (\<forall>k t. ti_callback t \<noteq> IdleOf i \<longrightarrow> (active q' k = Some t \<longleftrightarrow> active q k = Some t))"

lemma others_refl [simp]: "others_kept i q q"
  by (simp add: others_kept_def)

lemma others_trans: "others_kept i q q' \<Longrightarrow> others_kept i q' q'' \<Longrightarrow> others_kept i q q''"
  by (simp add: others_kept_def)

lemma active_fresh: "queue_inv pend q \<Longrightarrow> active q (tq_counter q) = None"
  using active_okD [of pend "tq_counter q" "active q" "om_get (tq_entries q)"]
  by (cases "active q (tq_counter q)") (auto simp: queue_inv_def)

lemma active_positive: "queue_inv pend q \<Longrightarrow> active q k = Some t \<Longrightarrow> 0 < k \<and> ti_sequence t = k"
  using active_okD [of pend "tq_counter q" "active q" "om_get (tq_entries q)"]
  by (auto simp: queue_inv_def)

lemma cancel_active:
  assumes "queue_inv pend q"
  shows "active (cancel h q) =
      (if timer_id_valid h \<and> tid_owner h = Some (tq_self q) then (active q)(tid_sequence h := None) else active q)"
    "tq_self (cancel h q) = tq_self q" "tq_counter (cancel h q) = tq_counter q"
proof -
  have v: "om_valid (tq_active q)" using assms by (simp add: queue_inv_def)
  show "active (cancel h q) =
      (if timer_id_valid h \<and> tid_owner h = Some (tq_self q) then (active q)(tid_sequence h := None) else active q)"
    by (auto simp: cancel_def cancelInLoop_def om_get_erase [OF v] split: option.split)
  show "tq_self (cancel h q) = tq_self q" "tq_counter (cancel h q) = tq_counter q"
    by (simp_all add: cancel_def cancelInLoop_def split: option.split)
qed

lemma addTimer_result:
  "fst (addTimer c w r q) = \<lparr>tid_sequence = tq_counter q, tid_owner = Some (tq_self q)\<rparr>"
  "active (snd (addTimer c w r q)) = (active q)(tq_counter q \<mapsto>
     \<lparr>ti_callback = c, ti_expiration = w, ti_intervalSeconds = r, ti_sequence = tq_counter q\<rparr>)"
  "tq_self (snd (addTimer c w r q)) = tq_self q"
  by (simp_all add: addTimer_def insertInLoop_def Let_def om_get_put)

text \<open>The three ways a connection changes.\<close>

lemma settle_ok:
  assumes q: "queue_inv pend q" and h: "handle_ok i (cl, q)" and c: "timer_rel (cl_conn cl) c'"
    and s: "cl_settle c' (cl, q) = (cl', q')"
  shows "queue_inv pend q'" "handle_ok i (cl', q')" "others_kept i q q'" "cl_conn cl' = c'"
    "cl_active cl' = cl_active cl" "deadline_ok i (cl, q) \<Longrightarrow> deadline_ok i (cl', q')"
proof -
  show "queue_inv pend q'" "cl_conn cl' = c'" "cl_active cl' = cl_active cl"
    using s q by (auto simp: cl_settle_def cancelTimer_def cancel_inv split: if_splits)
  have *: "handle_ok i (cl', q') \<and> others_kept i q q' \<and> (deadline_ok i (cl, q) \<longrightarrow> deadline_ok i (cl', q'))"
  proof (cases "cn_closed c' \<and> \<not> cn_closed (cl_conn cl) \<and> timer_id_valid (cl_timer cl)")
    case True
    then have "cl' = cl\<lparr>cl_conn := c', cl_timer := no_timer\<rparr>" "q' = cancel (cl_timer cl) q"
      using s by (simp_all add: cl_settle_def cancelTimer_def)
    with True h c show ?thesis
      by (auto simp: handle_ok_def deadline_ok_def others_kept_def cancel_active [OF q] timer_rel_def
          no_timer_def timer_id_valid_def split: if_splits)
  next
    case False
    then have "cl' = cl\<lparr>cl_conn := c'\<rparr>" "q' = q" using s by (auto simp: cl_settle_def split: if_splits)
    with False h c show ?thesis
      by (auto simp: handle_ok_def deadline_ok_def timer_rel_def idle_timer_def split: if_splits)
  qed
  then show "handle_ok i (cl', q')" "others_kept i q q'"
    "deadline_ok i (cl, q) \<Longrightarrow> deadline_ok i (cl', q')" by simp_all
qed

lemma refresh_ok:
  assumes q: "queue_inv pend q" and h: "handle_ok i (cl, q)" and a: "cl_active cl = current"
    and s: "cl_refreshIdleTimer i current (cl, q) = (cl', q')"
    and z: "timer_id_valid (cl_timer cl) \<Longrightarrow> 0 < cn_idleTimeoutSeconds (cl_conn cl)"
  shows "queue_inv pend q'" "handle_ok i (cl', q')" "others_kept i q q'" "deadline_ok i (cl', q')"
    "cl_conn cl' = refreshIdleTimer (cl_conn cl)" "cl_active cl' = cl_active cl"
proof -
  let ?skip = "cn_idleTimeoutSeconds (cl_conn cl) \<le> 0 \<or> cn_closed (cl_conn cl)"
  define q1 where "q1 = (if timer_id_valid (cl_timer cl) then cancel (cl_timer cl) q else q)"
  let ?w = "current + secondsToDuration (cn_idleTimeoutSeconds (cl_conn cl))"
  have q1: "queue_inv pend q1" "tq_self q1 = tq_self q"
    using q by (simp_all add: q1_def cancel_inv cancel_active [OF q])
  have gone: "active q1 = (if timer_id_valid (cl_timer cl) then (active q)(tid_sequence (cl_timer cl) := None) else active q)"
    using h by (simp add: q1_def cancel_active [OF q] handle_ok_def)
  have none: "ti_callback t \<noteq> IdleOf i" if "active q1 k = Some t" for k t
    using h that by (auto simp: gone handle_ok_def split: if_splits)
  have s': "cl' = (if ?skip then cl else cl\<lparr>cl_conn := refreshIdleTimer (cl_conn cl),
        cl_timer := fst (addTimer (IdleOf i) ?w 0 q1)\<rparr>)"
    "q' = (if ?skip then q else snd (addTimer (IdleOf i) ?w 0 q1))"
    using s by (auto simp: cl_refreshIdleTimer_def runAfter_def q1_def cancelTimer_def Let_def
        split: prod.splits if_splits)
  show "queue_inv pend q'" using q q1 by (simp add: s' addTimer_inv)
  show "cl_conn cl' = refreshIdleTimer (cl_conn cl)" "cl_active cl' = cl_active cl"
    by (simp_all add: s' refreshIdleTimer_def)
  have *: "handle_ok i (cl', q') \<and> others_kept i q q' \<and> deadline_ok i (cl', q')"
  proof (cases ?skip)
    case True
    then have "\<not> timer_id_valid (cl_timer cl)" using h z by (auto simp: handle_ok_def)
    with True h show ?thesis by (auto simp: s' deadline_ok_def)
  next
    case False
    have fresh: "active q1 (tq_counter q1) = None" by (rule active_fresh [OF q1(1)])
    have pos: "0 < tq_counter q1" using q1(1) by (simp add: queue_inv_def)
    have new: "active q' = (active q1)(tq_counter q1 \<mapsto> \<lparr>ti_callback = IdleOf i, ti_expiration = ?w,
        ti_intervalSeconds = 0, ti_sequence = tq_counter q1\<rparr>)" "tq_self q' = tq_self q"
      using False q1(2) by (simp_all add: s' addTimer_result)
    have cl': "cl_timer cl' = \<lparr>tid_sequence = tq_counter q1, tid_owner = Some (tq_self q)\<rparr>"
      "cl_conn cl' = (cl_conn cl)\<lparr>cn_idleTimer := True\<rparr>" "cl_active cl' = current"
      using False q1(2) a by (simp_all add: s' addTimer_result refreshIdleTimer_def)
    have "others_kept i q q'"
      using h fresh by (auto simp: others_kept_def new gone handle_ok_def split: if_splits)
    then show ?thesis
      using False none pos by (auto simp: handle_ok_def deadline_ok_def idle_timer_def new cl' timer_id_valid_def
          split: if_splits)
  qed
  then show "handle_ok i (cl', q')" "others_kept i q q'" "deadline_ok i (cl', q')" by simp_all
qed

section \<open>The loop\<close>

definition loop_ok :: "loop_callback timer list \<Rightarrow> io_loop \<Rightarrow> bool" where
  "loop_ok pend lp \<longleftrightarrow> queue_inv pend (il_queue lp) \<and>
     (\<forall>t \<in> set pend. active (il_queue lp) (ti_sequence t) = Some t) \<and>
     (\<forall>i cl. il_clients lp i = Some cl \<longrightarrow>
        i < il_next lp \<and> handle_ok i (cl, il_queue lp) \<and> deadline_ok i (cl, il_queue lp)) \<and>
     (\<forall>k t i. active (il_queue lp) k = Some t \<and> ti_callback t = IdleOf i \<longrightarrow>
        i < il_next lp \<and> ti_intervalSeconds t = 0)"

lemma loop_okD:
  assumes "loop_ok pend lp"
  shows "queue_inv pend (il_queue lp)"
    "t \<in> set pend \<Longrightarrow> active (il_queue lp) (ti_sequence t) = Some t"
    "il_clients lp i = Some cl \<Longrightarrow> i < il_next lp \<and> handle_ok i (cl, il_queue lp) \<and> deadline_ok i (cl, il_queue lp)"
    "active (il_queue lp) k = Some t \<Longrightarrow> ti_callback t = IdleOf i \<Longrightarrow> i < il_next lp \<and> ti_intervalSeconds t = 0"
  using assms by (simp_all add: loop_ok_def)

lemma others_frame:
  assumes self: "tq_self q' = tq_self q"
    and k: "\<And>k t. ti_callback t = IdleOf j \<Longrightarrow> active q' k = Some t \<longleftrightarrow> active q k = Some t"
  shows "handle_ok j (cl, q) \<Longrightarrow> handle_ok j (cl, q')" "deadline_ok j (cl, q) \<Longrightarrow> deadline_ok j (cl, q')"
proof -
  have "ti_callback (idle_timer j cl) = IdleOf j" by (simp add: idle_timer_def)
  from k [OF this] show "deadline_ok j (cl, q')" if "deadline_ok j (cl, q)"
    using that by (simp add: deadline_ok_def)
  have a: "(active q' s = Some t \<and> ti_callback t = IdleOf j) \<longleftrightarrow>
      (active q s = Some t \<and> ti_callback t = IdleOf j)" for s t
    using k by blast
  show "handle_ok j (cl, q')" if h: "handle_ok j (cl, q)"
    unfolding handle_ok_def prod.case a self by (rule h [unfolded handle_ok_def prod.case])
qed

text \<open>One connection changes.\<close>

lemma loop_ok_update:
  assumes ok: "loop_ok pend0 lp" "set pend \<subseteq> set pend0" and i: "i < n" "il_next lp \<le> n" and q': "queue_inv pend q'"
    and c: "handle_ok i (cl', q')" "deadline_ok i (cl', q')" and f: "others_kept i (il_queue lp) q'"
    and p: "\<And>t. t \<in> set pend \<Longrightarrow> ti_callback t \<noteq> IdleOf i"
  shows "loop_ok pend (lp\<lparr>il_clients := (il_clients lp)(i \<mapsto> cl'), il_next := n, il_queue := q'\<rparr>)"
proof -
  note d = loop_okD [OF ok(1)]
  have "j < n \<and> handle_ok j (cl, q') \<and> deadline_ok j (cl, q')"
    if "((il_clients lp)(i \<mapsto> cl')) j = Some cl" for j cl
    using that c i d(3) [of j cl] others_frame [of q' "il_queue lp" j cl] f
    by (cases "j = i") (auto simp: others_kept_def)
  moreover have "j < n \<and> ti_intervalSeconds t = 0" if "active q' k = Some t" "ti_callback t = IdleOf j" for k t j
  proof (cases "j = i")
    case True
    then have "timer_id_valid (cl_timer cl')" "tid_sequence (cl_timer cl') = k"
      using c(1) that by (auto simp: handle_ok_def)
    with c(2) that True i show ?thesis by (auto simp: deadline_ok_def idle_timer_def)
  next
    case False
    then show ?thesis using f d(4) [of k t j] that i by (simp add: others_kept_def)
  qed
  moreover have "active q' (ti_sequence t) = Some t" if "t \<in> set pend" for t
    using d(2) [of t] ok(2) p [OF that] f that by (auto simp: others_kept_def)
  ultimately show ?thesis using q' by (simp add: loop_ok_def) blast
qed

lemma loop_ok_client:
  assumes ok: "loop_ok [] lp" and f: "\<And>cl cl' q'. il_clients lp i = Some cl \<Longrightarrow> f (cl, il_queue lp) = (cl', q') \<Longrightarrow>
      queue_inv [] q' \<and> handle_ok i (cl', q') \<and> deadline_ok i (cl', q') \<and> others_kept i (il_queue lp) q'"
  shows "loop_ok [] (with_client i f lp)"
proof (cases "il_clients lp i")
  case (Some cl)
  obtain cl' q' where e: "f (cl, il_queue lp) = (cl', q')" by (cases "f (cl, il_queue lp)")
  have "i < il_next lp" using loop_okD(3) [OF ok Some] by simp
  with f [OF Some e] loop_ok_update [OF ok subset_refl, of i "il_next lp" q' cl'] show ?thesis
    by (simp add: with_client_def Some e)
qed (simp add: with_client_def ok)

lemma settle_client:
  assumes "loop_ok [] lp" "\<And>c. timer_rel c (g c)"
  shows "loop_ok [] (with_client i (\<lambda>s. cl_settle (g (cl_conn (fst s))) s) lp)"
proof (rule loop_ok_client [OF assms(1)])
  fix cl cl' q'
  assume cl: "il_clients lp i = Some cl"
    and e: "cl_settle (g (cl_conn (fst (cl, il_queue lp)))) (cl, il_queue lp) = (cl', q')"
  have d: "handle_ok i (cl, il_queue lp)" "deadline_ok i (cl, il_queue lp)"
    using loop_okD(3) [OF assms(1) cl] by simp_all
  note k = settle_ok [OF loop_okD(1) [OF assms(1)] d(1) assms(2) e [unfolded fst_conv]]
  from k(1-3) k(6) [OF d(2)]
  show "queue_inv [] q' \<and> handle_ok i (cl', q') \<and> deadline_ok i (cl', q') \<and> others_kept i (il_queue lp) q'"
    by blast
qed

section \<open>Reading\<close>

lemma timer_rel_error: "timer_rel c (handleError c)"
  by (simp add: handleError_def timer_intros)

lemma handle_ok_active [simp]: "handle_ok i (cl\<lparr>cl_active := x\<rparr>, q) = handle_ok i (cl, q)"
  by (simp add: handle_ok_def)

lemma read_ok:
  assumes q: "queue_inv pend q" and h: "handle_ok i (cl, q)" "deadline_ok i (cl, q)"
    and f: "\<And>d. timer_rel d (f d)" and r: "cl_handleRead i current f rs (cl, q) = (cl', q')"
  shows "queue_inv pend q' \<and> handle_ok i (cl', q') \<and> deadline_ok i (cl', q') \<and> others_kept i q q'"
proof -
  obtain outcome activity c1 where l: "cn_read_loop f (cl_conn cl) rs False = (outcome, activity, c1)"
    by (cases "cn_read_loop f (cl_conn cl) rs False") auto
  obtain cl1 q1 where s: "cl_settle c1 (cl, q) = (cl1, q1)" by (cases "cl_settle c1 (cl, q)")
  note s1 = settle_ok [OF q h(1) timer_rel_read [OF f timer_rel_refl l] s]
  have d1: "deadline_ok i (cl1, q1)" by (rule s1(6) [OF h(2)])
  have z: "timer_id_valid (cl_timer cl1) \<Longrightarrow> 0 < cn_idleTimeoutSeconds (cl_conn cl1)"
    using d1 by (simp add: deadline_ok_def)
  define s2 where "s2 = (if activity then cl_refreshIdleTimer i current (cl1\<lparr>cl_active := current\<rparr>, q1) else (cl1, q1))"
  obtain cl2 q2 where s2: "s2 = (cl2, q2)" by (cases s2)
  have "queue_inv pend q2 \<and> handle_ok i (cl2, q2) \<and> others_kept i q1 q2 \<and> deadline_ok i (cl2, q2)"
  proof (cases activity)
    case True
    then have "cl_refreshIdleTimer i current (cl1\<lparr>cl_active := current\<rparr>, q1) = (cl2, q2)"
      using s2 by (simp add: s2_def)
    from refresh_ok [OF s1(1) _ _ this] s1(2) z show ?thesis by simp
  qed (use s1 s2 d1 in \<open>simp add: s2_def\<close>)
  then have n2: "queue_inv pend q2" "handle_ok i (cl2, q2)" "others_kept i q q2" "deadline_ok i (cl2, q2)"
    using others_trans [OF s1(3)] by simp_all
  have res: "(cl', q') = (case outcome of
      ReadFailed \<Rightarrow> cl_handleError (cl_settle (count_error c1) (cl1, q1))
    | ReadAgain \<Rightarrow> s2 | ReadClosed \<Rightarrow> cl_handleClose s2)"
    unfolding r [symmetric] s2_def by (cases activity) (simp_all add: cl_handleRead_def l s Let_def)
  show ?thesis
  proof (cases outcome)
    case ReadAgain
    with res s2 n2 show ?thesis by simp
  next
    case ReadClosed
    with res s2 have e: "cl_settle (handleClose (cl_conn cl2)) (cl2, q2) = (cl', q')"
      by (simp add: cl_handleClose_def)
    have t: "timer_rel (cl_conn cl2) (handleClose (cl_conn cl2))" by (simp add: timer_intros)
    note k = settle_ok [OF n2(1,2) t e]
    from k(1,2) k(6) [OF n2(4)] others_trans [OF n2(3) k(3)] show ?thesis by blast
  next
    case ReadFailed
    obtain cl3 q3 where s3: "cl_settle (count_error c1) (cl1, q1) = (cl3, q3)"
      by (cases "cl_settle (count_error c1) (cl1, q1)")
    have t: "timer_rel (cl_conn cl1) (count_error c1)" by (simp add: s1(4) timer_intros)
    note s3' = settle_ok [OF s1(1,2) t s3]
    have e: "cl_settle (handleError (cl_conn cl3)) (cl3, q3) = (cl', q')"
      using ReadFailed res s3 by (simp add: cl_handleError_def)
    note k = settle_ok [OF s3'(1,2) timer_rel_error e]
    from k(1,2) k(6) [OF s3'(6) [OF d1]] others_trans [OF s1(3) others_trans [OF s3'(3) k(3)]]
    show ?thesis by blast
  qed
qed

section \<open>Events\<close>

lemma accept_ok:
  assumes ok: "loop_ok [] lp"
  shows "loop_ok [] (accept_client current secs lp)"
proof -
  let ?i = "il_next lp" and ?q = "il_queue lp"
  define cl where "cl = (client_new current)\<lparr>cl_conn := cn_start (cl_conn (client_new current))\<rparr>"
  note d = loop_okD [OF ok]
  have none: "ti_callback t \<noteq> IdleOf ?i" if "active ?q k = Some t" for k t
    using d(4) [OF that, of ?i] by auto
  have cl: "cl_timer cl = no_timer" "cn_closed (cl_conn cl) = False" "cn_idleTimer (cl_conn cl) = False"
    "cn_idleTimeoutSeconds (cl_conn cl) = 0" "cl_active cl = current"
    by (simp_all add: cl_def client_new_def TcpConnection_new_def cn_start_def)
  have raw: "\<not> cn_closed (cn_start (cl_conn (client_new current)))"
    by (simp add: client_new_def TcpConnection_new_def cn_start_def)
  show ?thesis
  proof (cases "0 < secs")
    case False
    then have "accept_client current secs lp =
        lp\<lparr>il_clients := (il_clients lp)(?i \<mapsto> cl), il_next := ?i + 1, il_queue := ?q\<rparr>"
      by (simp add: accept_client_def Let_def cl_def)
    moreover have "handle_ok ?i (cl, ?q)" "deadline_ok ?i (cl, ?q)"
      using none by (auto simp: handle_ok_def deadline_ok_def cl no_timer_def timer_id_valid_def)
    ultimately show ?thesis using loop_ok_update [OF ok subset_refl, of ?i "?i + 1" ?q cl] d(1) by simp
  next
    case True
    define cl1 where "cl1 = cl\<lparr>cl_conn := (cl_conn cl)\<lparr>cn_idleTimeoutSeconds := secs\<rparr>\<rparr>"
    obtain cl2 q2 where r: "cl_refreshIdleTimer ?i current (cl1, ?q) = (cl2, q2)"
      by (cases "cl_refreshIdleTimer ?i current (cl1, ?q)")
    have "accept_client current secs lp =
        lp\<lparr>il_clients := (il_clients lp)(?i \<mapsto> cl2), il_next := ?i + 1, il_queue := q2\<rparr>"
      using True r raw by (simp add: accept_client_def Let_def cl_setIdleTimeout_def cl1_def cl_def)
    moreover have h: "handle_ok ?i (cl1, ?q)"
      using none by (auto simp: handle_ok_def cl1_def cl no_timer_def timer_id_valid_def)
    have a: "cl_active cl1 = current" by (simp add: cl1_def cl)
    have z: "timer_id_valid (cl_timer cl1) \<Longrightarrow> 0 < cn_idleTimeoutSeconds (cl_conn cl1)"
      by (simp add: cl1_def True)
    note k = refresh_ok [OF d(1) h a r z]
    ultimately show ?thesis
      using loop_ok_update [OF ok subset_refl, of ?i "?i + 1" q2 cl2] k(1-4) by simp
  qed
qed

text \<open>Changes to the queue that touch no idle timer.\<close>

lemma loop_ok_queue:
  assumes ok: "loop_ok pend lp" and q: "queue_inv pend' q'" "tq_self q' = tq_self (il_queue lp)"
    and k: "\<And>k t i. ti_callback t = IdleOf i \<Longrightarrow> active q' k = Some t \<longleftrightarrow> active (il_queue lp) k = Some t"
    and p: "\<And>t. t \<in> set pend' \<Longrightarrow> active q' (ti_sequence t) = Some t"
  shows "loop_ok pend' (lp\<lparr>il_queue := q'\<rparr>)"
proof -
  note d = loop_okD [OF ok]
  have "i < il_next lp \<and> handle_ok i (cl, q') \<and> deadline_ok i (cl, q')" if "il_clients lp i = Some cl" for i cl
    using d(3) [OF that] others_frame [of q' "il_queue lp" i cl, OF q(2)] k [of _ i] by blast
  moreover have "i < il_next lp \<and> ti_intervalSeconds t = 0"
    if "active q' k = Some t" "ti_callback t = IdleOf i" for k t i
    using d(4) k that by blast
  ultimately show ?thesis using q(1) p by (simp add: loop_ok_def) blast
qed

lemma every_ok:
  assumes "loop_ok [] lp" "\<And>i. cb \<noteq> IdleOf i"
  shows "loop_ok [] (lp\<lparr>il_queue := snd (runEvery current interval cb (il_queue lp))\<rparr>)"
  using loop_okD(1) [OF assms(1)] active_fresh [OF loop_okD(1) [OF assms(1)]] assms(2)
  by (intro loop_ok_queue [OF assms(1)])
    (auto simp: runEvery_def addTimer_inv addTimer_result)

lemma counter_inv: "queue_inv pend q \<Longrightarrow> queue_inv pend (q\<lparr>tq_counter := tq_counter q + n\<rparr>)"
  by (induction n) (simp_all add: queue_inv_def index_counter)

lemma counter_ok:
  assumes "loop_ok [] lp"
  shows "loop_ok [] (lp\<lparr>il_queue := (il_queue lp)\<lparr>tq_counter := tq_counter (il_queue lp) + n\<rparr>\<rparr>)"
  using counter_inv [OF loop_okD(1) [OF assms]] by (intro loop_ok_queue [OF assms]) simp_all

lemma drop_ok: "loop_ok pend lp \<Longrightarrow> loop_ok pend (lp\<lparr>il_clients := (il_clients lp)(i := None)\<rparr>)"
  by (auto simp: loop_ok_def)

section \<open>A batch\<close>

text \<open>What the timeout leaves of a connection.\<close>

definition timed_out :: "client \<Rightarrow> client" where
  "timed_out cl = cl\<lparr>cl_conn := handleClose (cl_conn cl), cl_timer := no_timer\<rparr>"

lemma closed_handleClose: "cn_closed (handleClose c)"
  by (simp add: handleClose_def)

lemma rearm_active:
  fixes current :: int
  assumes "queue_inv (t # pend) q"
  defines "q1 \<equiv> reschedule current t q"
  shows "queue_inv pend q1" "tq_self q1 = tq_self q"
    "active q1 = (if repeat t then (active q)(ti_sequence t \<mapsto> restart current t) else (active q)(ti_sequence t := None))"
proof -
  have v: "om_valid (tq_active q)" using assms(1) by (simp add: queue_inv_def)
  show "queue_inv pend q1" unfolding q1_def by (rule reschedule_inv [OF assms(1)])
  show "tq_self q1 = tq_self q"
    "active q1 = (if repeat t then (active q)(ti_sequence t \<mapsto> restart current t) else (active q)(ti_sequence t := None))"
    by (simp_all add: q1_def reschedule_def insertInLoop_def om_get_put om_get_erase [OF v])
qed

lemma pend_distinct:
  assumes "queue_inv (t # pend) q" "u \<in> set pend"
  shows "ti_sequence u \<noteq> ti_sequence t"
proof -
  have "ti_sequence t \<notin> ti_sequence ` set pend" using assms(1) by (simp add: queue_inv_def pend_ok_def)
  then show ?thesis using assms(2) by (metis image_eqI)
qed

lemma expire_other:
  assumes ok: "loop_ok (t # pend) lp" and t: "\<And>i. ti_callback t \<noteq> IdleOf i"
  shows "loop_ok pend (lp\<lparr>il_queue := reschedule current t (il_queue lp)\<rparr>)"
proof -
  note d = loop_okD [OF ok] and r = rearm_active [OF loop_okD(1) [OF ok], of current]
  have st: "active (il_queue lp) (ti_sequence t) = Some t" using d(2) [of t] by simp
  have "ti_sequence u \<noteq> ti_sequence t" if "u \<in> set pend" for u
    by (rule pend_distinct [OF d(1) that])
  then show ?thesis
    using d(2) t st by (intro loop_ok_queue [OF ok r(1,2)]) (auto simp: r(3) restart_def)
qed

lemma expire_idle:
  assumes ok: "loop_ok (t # pend) lp" and t: "ti_callback t = IdleOf i"
  shows "loop_ok pend (io_expire current t lp)"
    "il_clients (io_expire current t lp) =
      (case il_clients lp i of None \<Rightarrow> il_clients lp | Some cl \<Rightarrow> (il_clients lp)(i \<mapsto> timed_out cl))"
proof -
  define q1 where "q1 = reschedule current t (il_queue lp)"
  note d = loop_okD [OF ok]
  have st: "active (il_queue lp) (ti_sequence t) = Some t" using d(2) [of t] by simp
  then have "\<not> repeat t" using d(4) t by (simp add: repeat_def)
  with rearm_active [OF d(1), of current]
  have q1: "queue_inv pend q1" "tq_self q1 = tq_self (il_queue lp)"
    "active q1 = (active (il_queue lp))(ti_sequence t := None)" by (simp_all add: q1_def)
  have seq: "ti_sequence u \<noteq> ti_sequence t" if "u \<in> set pend" for u
    by (rule pend_distinct [OF d(1) that])
  have pend: "active q1 (ti_sequence u) = Some u" if "u \<in> set pend" for u
    using d(2) [of u] seq [OF that] that by (simp add: q1(3))
  have x: "io_expire current t lp = with_client i cl_handleIdleTimeout (lp\<lparr>il_queue := q1\<rparr>)"
    by (simp add: io_expire_def run_loop_callback_def t q1_def)
  have "loop_ok pend (io_expire current t lp) \<and> il_clients (io_expire current t lp) =
      (case il_clients lp i of None \<Rightarrow> il_clients lp | Some cl \<Rightarrow> (il_clients lp)(i \<mapsto> timed_out cl))"
  proof (cases "il_clients lp i")
    case None
    have "j < il_next lp \<and> handle_ok j (cl, q1) \<and> deadline_ok j (cl, q1)" if "il_clients lp j = Some cl" for j cl
    proof -
      have "active q1 k = Some u \<longleftrightarrow> active (il_queue lp) k = Some u" if "ti_callback u = IdleOf j" for k u
        using that t st None \<open>il_clients lp j = Some cl\<close> by (auto simp: q1(3))
      then show ?thesis using d(3) [OF that] others_frame [of q1 "il_queue lp" j cl, OF q1(2)] by blast
    qed
    moreover have "j < il_next lp \<and> ti_intervalSeconds u = 0" if "active q1 k = Some u" "ti_callback u = IdleOf j" for k u j
      using d(4) [of k u j] that by (simp add: q1(3) split: if_splits)
    ultimately have "loop_ok pend (lp\<lparr>il_queue := q1\<rparr>)"
      using q1(1) pend by (simp add: loop_ok_def) blast
    with None show ?thesis by (simp add: x with_client_def)
  next
    case (Some cl)
    then have h: "handle_ok i (cl, il_queue lp)" using d(3) by blast
    then have c: "timer_id_valid (cl_timer cl)" "tid_sequence (cl_timer cl) = ti_sequence t"
      "\<not> cn_closed (cl_conn cl)" "tid_owner (cl_timer cl) = Some (tq_self (il_queue lp))"
      using st t by (auto simp: handle_ok_def)
    define q2 where "q2 = cancel (cl_timer cl) q1"
    have q2: "queue_inv pend q2" "active q2 = active q1" "tq_self q2 = tq_self (il_queue lp)"
      using c q1 by (simp_all add: q2_def cancel_inv cancel_active [OF q1(1)])
    have y: "io_expire current t lp =
        lp\<lparr>il_clients := (il_clients lp)(i \<mapsto> timed_out cl), il_next := il_next lp, il_queue := q2\<rparr>"
      using c by (simp add: x with_client_def Some cl_handleIdleTimeout_def cl_handleClose_def cl_settle_def
          timed_out_def q2_def cancelTimer_def handleClose_def)
    have none: "ti_callback u \<noteq> IdleOf i" if "active q2 k = Some u" for k u
      using h that c(2) by (auto simp: q2(2) q1(3) handle_ok_def split: if_splits)
    have "handle_ok i (timed_out cl, q2)" "deadline_ok i (timed_out cl, q2)"
      using none by (auto simp: handle_ok_def deadline_ok_def timed_out_def no_timer_def timer_id_valid_def
          handleClose_def c)
    moreover have "others_kept i (il_queue lp) q2"
      using q2 st t by (auto simp: others_kept_def q1(3))
    moreover have "ti_callback u \<noteq> IdleOf i" if "u \<in> set pend" for u
      using pend [OF that] none q2(2) by metis
    moreover have "i < il_next lp" using d(3) [OF Some] by simp
    moreover have "set pend \<subseteq> set (t # pend)" by auto
    ultimately have "loop_ok pend (io_expire current t lp)"
      unfolding y by (intro loop_ok_update [OF ok _ _ order_refl q2(1)])
    then show ?thesis by (simp add: Some) (simp add: y)
  qed
  then show "loop_ok pend (io_expire current t lp)"
    "il_clients (io_expire current t lp) =
      (case il_clients lp i of None \<Rightarrow> il_clients lp | Some cl \<Rightarrow> (il_clients lp)(i \<mapsto> timed_out cl))"
    by simp_all
qed

text \<open>The connections after a batch.\<close>

definition expired_for :: "loop_callback timer list \<Rightarrow> nat \<Rightarrow> bool" where
  "expired_for ts i \<longleftrightarrow> (\<exists>t \<in> set ts. ti_callback t = IdleOf i)"

lemma expire_step:
  assumes "loop_ok (t # pend) lp"
  shows "loop_ok pend (io_expire current t lp) \<and>
    il_clients (io_expire current t lp) i =
      map_option (if ti_callback t = IdleOf i then timed_out else id) (il_clients lp i)"
proof (cases "ti_callback t")
  case (IdleOf j)
  then show ?thesis using expire_idle [OF assms IdleOf, of current]
    by (auto split: option.splits simp: option.map_id0)
next
  case StatsTask
  have "loop_ok pend (stats_tick lp') = loop_ok pend lp'" for lp' by (simp add: stats_tick_def loop_ok_def)
  then show ?thesis using StatsTask expire_other [OF assms, of current]
    by (simp add: io_expire_def run_loop_callback_def option.map_id0) (simp add: stats_tick_def)
next
  case ShutdownPoll
  then show ?thesis using expire_other [OF assms, of current]
    by (simp add: io_expire_def run_loop_callback_def option.map_id0)
qed

lemma pend_open:
  assumes "loop_ok pend lp" "expired_for pend i" "il_clients lp i = Some cl"
  shows "\<not> cn_closed (cl_conn cl)"
proof -
  obtain t where "t \<in> set pend" "ti_callback t = IdleOf i" using assms(2) by (auto simp: expired_for_def)
  then show ?thesis using loop_okD(2,3) [OF assms(1)] assms(3) by (fastforce simp: handle_ok_def)
qed

lemma expire_batch:
  "loop_ok ts lp \<Longrightarrow> loop_ok [] (fold (io_expire current) ts lp) \<and>
    il_clients (fold (io_expire current) ts lp) i =
      map_option (if expired_for ts i then timed_out else id) (il_clients lp i)"
proof (induction ts arbitrary: lp)
  case (Cons t ts)
  let ?lp = "io_expire current t lp"
  note s = expire_step [OF Cons.prems, of current i]
  note ih = Cons.IH [OF conjunct1 [OF s]]
  have "\<not> (ti_callback t = IdleOf i \<and> expired_for ts i)" if "il_clients lp i = Some cl" for cl
    using pend_open [OF conjunct1 [OF s], of i] s that by (auto simp: timed_out_def closed_handleClose)
  then show ?case using ih s by (cases "il_clients lp i") (auto simp: expired_for_def)
qed (simp add: expired_for_def option.map_id0)

text \<open>Which connections a batch finds silent for too long.\<close>

definition overdue :: "int \<Rightarrow> client \<Rightarrow> bool" where
  "overdue current cl \<longleftrightarrow> \<not> cn_closed (cl_conn cl) \<and> 0 < cn_idleTimeoutSeconds (cl_conn cl) \<and>
     cl_active cl + secondsToDuration (cn_idleTimeoutSeconds (cl_conn cl)) \<le> current"

lemma handle_expired_ok:
  assumes ok: "loop_ok [] lp"
  shows "loop_ok [] (io_handleExpiredTimers current lp) \<and>
    il_clients (io_handleExpiredTimers current lp) i =
      map_option (\<lambda>cl. if overdue current cl then timed_out cl else cl) (il_clients lp i)"
proof -
  let ?q = "il_queue lp"
  define ts where "ts = map snd (takeWhile (due current) (tq_entries ?q))"
  define q1 where "q1 = ?q\<lparr>tq_entries := dropWhile (due current) (tq_entries ?q)\<rparr>"
  note d = loop_okD [OF ok]
  have ts: "t \<in> set ts \<longleftrightarrow> (\<exists>s. active ?q s = Some t \<and> ti_expiration t \<le> current)" for t
    unfolding ts_def by (rule due_iff_active [OF d(1)])
  have a: "active q1 = active ?q" "tq_self q1 = tq_self ?q" by (simp_all add: q1_def)
  have "active ?q (ti_sequence t) = Some t" if "t \<in> set ts" for t
    using that active_positive [OF d(1)] by (auto simp: ts)
  then have ok1: "loop_ok ts (lp\<lparr>il_queue := q1\<rparr>)"
    using collect_inv [OF d(1), of current]
    by (intro loop_ok_queue [OF ok]) (simp_all add: a flip: ts_def q1_def)
  have e: "expired_for ts i \<longleftrightarrow> overdue current cl" if cl: "il_clients lp i = Some cl" for cl
  proof -
    have h: "handle_ok i (cl, ?q)" "deadline_ok i (cl, ?q)" using d(3) [OF cl] by simp_all
    show ?thesis
    proof
      assume "expired_for ts i"
      then obtain t where t: "t \<in> set ts" "ti_callback t = IdleOf i" by (auto simp: expired_for_def)
      then obtain s where s: "active ?q s = Some t" "ti_expiration t \<le> current" by (auto simp: ts)
      then have "timer_id_valid (cl_timer cl)" "tid_sequence (cl_timer cl) = s"
        using h(1) t(2) by (auto simp: handle_ok_def)
      with h(2) s show "overdue current cl" by (auto simp: deadline_ok_def overdue_def idle_timer_def)
    next
      assume "overdue current cl"
      then have "active ?q (tid_sequence (cl_timer cl)) = Some (idle_timer i cl)"
        "ti_expiration (idle_timer i cl) \<le> current" "ti_callback (idle_timer i cl) = IdleOf i"
        using h(2) by (simp_all add: deadline_ok_def overdue_def idle_timer_def)
      then show "expired_for ts i" unfolding expired_for_def using ts by blast
    qed
  qed
  have "io_handleExpiredTimers current lp = fold (io_expire current) ts (lp\<lparr>il_queue := q1\<rparr>)"
    by (simp add: io_handleExpiredTimers_def collect_due_eq ts_def q1_def)
  with expire_batch [OF ok1, of current i] e show ?thesis
    by (cases "il_clients lp i") auto
qed

text \<open>The connection itself changes as in \<open>Tcp_Connection\<close>.\<close>

lemma settle_conn [simp]: "cl_conn (fst (cl_settle c s)) = c"
  by (simp add: cl_settle_def split: prod.split)

lemma refresh_conn [simp]: "cl_conn (fst (cl_refreshIdleTimer i current s)) = refreshIdleTimer (cl_conn (fst s))"
  by (auto simp: cl_refreshIdleTimer_def refreshIdleTimer_def Let_def split: prod.split)

lemma read_conn: "cl_conn (fst (cl_handleRead i current f rs s)) = handleRead f (cl_conn (fst s)) rs"
proof -
  obtain outcome activity c1 where l: "cn_read_loop f (cl_conn (fst s)) rs False = (outcome, activity, c1)"
    by (cases "cn_read_loop f (cl_conn (fst s)) rs False") auto
  obtain cl q where s1: "cl_settle c1 s = (cl, q)" by (cases "cl_settle c1 s")
  then have "cl_conn cl = c1" using settle_conn [of c1 s] by simp
  then show ?thesis
    by (cases outcome) (simp_all add: cl_handleRead_def handleRead_def l s1 Let_def
        cl_handleClose_def cl_handleError_def)
qed

text \<open>Sending does not count as activity: the timer of a connection that stays open is left alone.\<close>

lemma writes_do_not_refresh:
  assumes "il_clients lp i = Some cl" "il_clients (io_step files (current, WriteReady i rs) lp) i = Some cl'"
    and "\<not> cn_closed (cl_conn cl')"
  shows "cl_timer cl' = cl_timer cl \<and> il_queue (io_step files (current, WriteReady i rs) lp) = il_queue lp"
  using assms by (auto simp: io_step_def on_channel_def with_client_def cl_settle_def split: if_splits prod.splits)

section \<open>Every history\<close>

lemma channel_ok:
  assumes ok: "loop_ok [] lp" and f: "\<And>cl cl' q'. handle_ok i (cl, il_queue lp) \<Longrightarrow> deadline_ok i (cl, il_queue lp) \<Longrightarrow>
      f (cl, il_queue lp) = (cl', q') \<Longrightarrow>
      queue_inv [] q' \<and> handle_ok i (cl', q') \<and> deadline_ok i (cl', q') \<and> others_kept i (il_queue lp) q'"
  shows "loop_ok [] (on_channel i f lp)"
  unfolding on_channel_def
proof (rule loop_ok_client [OF ok])
  fix cl cl' q'
  assume cl: "il_clients lp i = Some cl"
    and e: "(if cn_closed (cl_conn (fst (cl, il_queue lp))) then (cl, il_queue lp) else f (cl, il_queue lp)) = (cl', q')"
  have d: "handle_ok i (cl, il_queue lp)" "deadline_ok i (cl, il_queue lp)"
    using loop_okD(3) [OF ok cl] by simp_all
  show "queue_inv [] q' \<and> handle_ok i (cl', q') \<and> deadline_ok i (cl', q') \<and> others_kept i (il_queue lp) q'"
  proof (cases "cn_closed (cl_conn cl)")
    case True
    then have "cl' = cl" "q' = il_queue lp" using e by simp_all
    then show ?thesis using d loop_okD(1) [OF ok] by simp
  next
    case False
    then show ?thesis using f [OF d] e by simp
  qed
qed

lemma channel_settle_ok:
  assumes ok: "loop_ok [] lp" and g: "\<And>c. timer_rel c (g c)"
  shows "loop_ok [] (on_channel i (\<lambda>s. cl_settle (g (cl_conn (fst s))) s) lp)"
proof (rule channel_ok [OF ok])
  fix cl cl' q'
  assume d: "handle_ok i (cl, il_queue lp)" "deadline_ok i (cl, il_queue lp)"
    and e: "cl_settle (g (cl_conn (fst (cl, il_queue lp)))) (cl, il_queue lp) = (cl', q')"
  note k = settle_ok [OF loop_okD(1) [OF ok] d(1) g e [unfolded fst_conv]]
  from k(1-3) k(6) [OF d(2)]
  show "queue_inv [] q' \<and> handle_ok i (cl', q') \<and> deadline_ok i (cl', q') \<and> others_kept i (il_queue lp) q'"
    by blast
qed

lemma io_step_ok:
  assumes "loop_ok [] lp"
  shows "loop_ok [] (io_step files p lp)"
proof -
  obtain current ev where p: "p = (current, ev)" by (cases p)
  show ?thesis
  proof (cases ev)
    case (ReadReady i replies rs)
    have "loop_ok [] (on_channel i (cl_handleRead i current (\<lambda>c. run_conn_ops files (replies c) c) rs) lp)"
      by (rule channel_ok [OF assms])
        (rule read_ok [OF loop_okD(1) [OF assms] _ _ timer_rel_ops [OF timer_rel_refl]])
    then show ?thesis by (simp add: io_step_def p ReadReady)
  next
    case (WriteReady i rs)
    with channel_settle_ok [OF assms timer_rel_write [OF timer_rel_refl]] show ?thesis
      by (simp add: io_step_def p)
  next
    case (HungUp i)
    with channel_settle_ok [OF assms timer_rel_close [OF timer_rel_refl]] show ?thesis
      by (simp add: io_step_def p cl_handleClose_def [abs_def])
  next
    case (Failed i)
    with channel_settle_ok [OF assms timer_rel_error] show ?thesis
      by (simp add: io_step_def p cl_handleError_def [abs_def])
  next
    case (Task i ops)
    with settle_client [OF assms timer_rel_ops [OF timer_rel_refl]] show ?thesis
      by (simp add: io_step_def p)
  next
    case (Every r cb)
    with every_ok [OF assms] assms show ?thesis by (cases cb) (simp_all add: io_step_def p)
  qed (use assms in \<open>simp_all add: io_step_def p accept_ok drop_ok counter_ok handle_expired_ok\<close>)
qed

lemma io_loop_new_ok: "loop_ok [] (io_loop_new self)"
proof -
  have "queue_valid (TimerQueue_new self 1)" by (rule TimerQueue_new_valid) simp
  then show ?thesis by (simp add: loop_ok_def io_loop_new_def TimerQueue_new_def om_empty_def om_get_def)
qed

lemma io_run_ok: "loop_ok [] (io_run files evs (io_loop_new self))"
proof -
  have "loop_ok [] lp \<Longrightarrow> loop_ok [] (io_run files evs lp)" for lp
    unfolding io_run_def by (induction evs arbitrary: lp) (simp_all add: io_step_ok)
  then show ?thesis using io_loop_new_ok by blast
qed

text \<open>
  C19: no stray timers. Whatever was accepted, read, written, closed, dropped and expired on a
  loop before, the queue holds for each of its connections exactly one idle timer if the
  connection is open and has a timeout, due one timeout after the connection was accepted or last
  received bytes; and none if it is closed or has no timeout.
\<close>

theorem idle_timers_exact:
  assumes "lp = io_run files evs (io_loop_new self)" "il_clients lp i = Some cl"
  shows "{t. \<exists>k. om_get (tq_active (il_queue lp)) k = Some t \<and> ti_callback t = IdleOf i} =
    (if \<not> cn_closed (cl_conn cl) \<and> 0 < cn_idleTimeoutSeconds (cl_conn cl)
     then {\<lparr>ti_callback = IdleOf i,
            ti_expiration = cl_active cl + secondsToDuration (cn_idleTimeoutSeconds (cl_conn cl)),
            ti_intervalSeconds = 0, ti_sequence = tid_sequence (cl_timer cl)\<rparr>}
     else {})"
proof -
  have "loop_ok [] lp" unfolding assms(1) by (rule io_run_ok)
  from loop_okD(3) [OF this assms(2)]
  have d: "handle_ok i (cl, il_queue lp)" "deadline_ok i (cl, il_queue lp)" by simp_all
  show ?thesis
  proof (cases "timer_id_valid (cl_timer cl)")
    case True
    with d(2) have "active (il_queue lp) (tid_sequence (cl_timer cl)) = Some (idle_timer i cl)"
      by (simp add: deadline_ok_def)
    moreover have "k = tid_sequence (cl_timer cl)" if "active (il_queue lp) k = Some t" "ti_callback t = IdleOf i" for k t
      using d(1) that by (auto simp: handle_ok_def)
    moreover have "ti_callback (idle_timer i cl) = IdleOf i" by (simp add: idle_timer_def)
    ultimately have "{t. \<exists>k. active (il_queue lp) k = Some t \<and> ti_callback t = IdleOf i} = {idle_timer i cl}"
      by (intro set_eqI iffI) (force, blast)
    with True d(2) show ?thesis by (simp add: deadline_ok_def idle_timer_def)
  next
    case False
    with d show ?thesis by (auto simp: deadline_ok_def handle_ok_def)
  qed
qed

text \<open>
  C20: the idle timeout is exact. After any history of the loop, running the expired timers at a
  time closes exactly those open connections with a timeout that were accepted or last received
  bytes at least one timeout before, and leaves every other connection untouched.
\<close>

theorem idle_timeout_exact:
  assumes "lp = io_run files evs (io_loop_new self)" "il_clients lp i = Some cl"
  shows "\<exists>cl'. il_clients (io_step files (current, Expire) lp) i = Some cl' \<and>
    (cn_closed (cl_conn cl') \<longleftrightarrow> cn_closed (cl_conn cl) \<or>
       0 < cn_idleTimeoutSeconds (cl_conn cl) \<and>
       cl_active cl + secondsToDuration (cn_idleTimeoutSeconds (cl_conn cl)) \<le> current) \<and>
    (\<not> cn_closed (cl_conn cl') \<longrightarrow> cl' = cl)"
proof -
  have "loop_ok [] lp" unfolding assms(1) by (rule io_run_ok)
  from handle_expired_ok [OF this, of current i]
  have r: "il_clients (io_step files (current, Expire) lp) i = Some (if overdue current cl then timed_out cl else cl)"
    by (simp add: assms(2) io_step_def)
  have "cn_closed (cl_conn (timed_out cl))" by (simp add: timed_out_def closed_handleClose)
  then show ?thesis unfolding r
    by (intro exI [of _ "if overdue current cl then timed_out cl else cl"]) (auto simp: overdue_def)
qed

section \<open>Inputs\<close>

text \<open>Two connections with a timeout of two seconds, the second accepted later.\<close>

definition demo_history :: "(int \<times> io_event) list" where
  "demo_history = [(0, Accept 2), (500, Every 10 StatsTask), (1500000000, Accept 2)]"

definition demo_io :: io_loop where
  "demo_io = io_run (\<lambda>_. []) demo_history (io_loop_new 7)"

lemma demo_io_clients:
  "il_clients demo_io 0 = Some \<lparr>cl_conn = (cn_start TcpConnection_new)\<lparr>cn_idleTimeoutSeconds := 2, cn_idleTimer := True\<rparr>,
     cl_timer = \<lparr>tid_sequence = 1, tid_owner = Some 7\<rparr>, cl_active = 0\<rparr>"
  "il_clients demo_io 1 = Some \<lparr>cl_conn = (cn_start TcpConnection_new)\<lparr>cn_idleTimeoutSeconds := 2, cn_idleTimer := True\<rparr>,
     cl_timer = \<lparr>tid_sequence = 3, tid_owner = Some 7\<rparr>, cl_active = 1500000000\<rparr>"
  by (simp_all add: demo_io_def demo_history_def io_run_def io_step_def io_loop_new_def accept_client_def
      Let_def cl_setIdleTimeout_def cl_refreshIdleTimer_def client_new_def no_timer_def timer_id_valid_def
      runAfter_def runEvery_def addTimer_def insertInLoop_def TimerQueue_new_def refreshIdleTimer_def)
    (simp_all add: cn_start_def TcpConnection_new_def)

lemma two_seconds: "secondsToDuration 2 = 2000000000"
  by (simp add: secondsToDuration_def trunc_rat_def)

theorem idle_timers_exact_witness:
  "{t. \<exists>k. om_get (tq_active (il_queue demo_io)) k = Some t \<and> ti_callback t = IdleOf 1} =
     {\<lparr>ti_callback = IdleOf 1, ti_expiration = 3500000000, ti_intervalSeconds = 0, ti_sequence = 3\<rparr>}"
  using idle_timers_exact [OF demo_io_def demo_io_clients(2)]
  by (simp add: two_seconds) (simp add: cn_start_def TcpConnection_new_def)

theorem idle_timeout_exact_witness:
  "\<exists>cl. il_clients (io_step (\<lambda>_. []) (2000000000, Expire) demo_io) 0 = Some cl \<and> cn_closed (cl_conn cl)"
  using idle_timeout_exact [OF demo_io_def demo_io_clients(1), where current = 2000000000]
  by (auto simp: two_seconds)

end
