(* ===== verification/Event_Loop.thy ===== *)
theory Event_Loop
  imports Prelude "HOL-Library.Sublist"
begin

text \<open>
  The thread side of \<open>net/EventLoop\<close>: \<open>loop\<close>, \<open>quit\<close>, \<open>queueInLoop\<close>, \<open>wakeup\<close>,
  \<open>handleWakeup\<close> and \<open>doPendingFunctors\<close> as a transition system. One step is one access to the
  shared state (the task list under its lock, the atomic flags, the eventfd), taken by the loop
  thread or by another thread. The eventfd is a flag: set by a write, cleared by the reads of
  \<open>handleWakeup\<close>. \<open>epoll_wait\<close> is taken to block for ever unless the flag is set; returning for
  another event or a timer is a step that may never happen.
\<close>

section \<open>States\<close>

text \<open>Where the loop thread is; \<open>Dispatch w\<close> says whether the wake-up event was among the ready ones.\<close>

datatype 'f loop_pc = Idle | Check | Polling | Dispatch bool | Timers | Taking | Running "'f list" | Stopped

text \<open>
  \<open>posters\<close> and \<open>quitters\<close> count the threads between their first action and their write to the
  eventfd; \<open>posted\<close>, \<open>done\<close> and \<open>asked\<close> record the history.
\<close>

record 'f event_loop =
  ev_pc :: "'f loop_pc"
  ev_pending :: "'f list"
  ev_wake :: bool
  ev_calling :: bool
  ev_quit :: bool
  ev_posters :: nat
  ev_quitters :: nat
  ev_posted :: "'f list"
  ev_done :: "'f list"
  ev_asked :: bool

definition loop_init :: "'f event_loop" where
  "loop_init = \<lparr>ev_pc = Idle, ev_pending = [], ev_wake = False, ev_calling = False, ev_quit = False,
     ev_posters = 0, ev_quitters = 0, ev_posted = [], ev_done = [], ev_asked = False\<rparr>"

definition push_task :: "'f \<Rightarrow> 'f event_loop \<Rightarrow> 'f event_loop" where
  "push_task f s = s\<lparr>ev_pending := ev_pending s @ [f], ev_posted := ev_posted s @ [f]\<rparr>"

definition wakeup :: "'f event_loop \<Rightarrow> 'f event_loop" where
  "wakeup s = s\<lparr>ev_wake := True\<rparr>"

definition handleWakeup :: "'f event_loop \<Rightarrow> 'f event_loop" where
  "handleWakeup s = s\<lparr>ev_wake := False\<rparr>"

text \<open>\<open>queueInLoop\<close> on the loop thread: no other step of that thread comes between its two actions.\<close>

definition queue_self :: "'f \<Rightarrow> 'f event_loop \<Rightarrow> 'f event_loop" where
  "queue_self f s = (let s1 = push_task f s in if ev_calling s then wakeup s1 else s1)"

text \<open>\<open>queueInLoop\<close> on another thread, up to its write to the eventfd.\<close>

definition queue_other :: "'f \<Rightarrow> 'f event_loop \<Rightarrow> 'f event_loop" where
  "queue_other f s = (push_task f s)\<lparr>ev_posters := ev_posters s + 1\<rparr>"

text \<open>\<open>runInLoop\<close>: the tasks run at once, before anything that is waiting, and the state.\<close>

definition runInLoop :: "bool \<Rightarrow> 'f \<Rightarrow> 'f event_loop \<Rightarrow> 'f list \<times> 'f event_loop" where
  "runInLoop inLoopThread f s = (if inLoopThread then ([f], s) else ([], queue_other f s))"

definition pendingTaskCount :: "'f event_loop \<Rightarrow> nat" where
  "pendingTaskCount s = length (ev_pending s)"

text \<open>Operations that check the thread abort the process on any other.\<close>

definition assertInLoopThread :: "bool \<Rightarrow> 'a \<Rightarrow> 'a option" where
  "assertInLoopThread inLoopThread x = (if inLoopThread then Some x else None)"

definition batch :: "'f loop_pc \<Rightarrow> 'f list" where
  "batch pc = (case pc of Running fs \<Rightarrow> fs | _ \<Rightarrow> [])"

section \<open>Steps\<close>

text \<open>
  \<open>early\<close> says whether code may call \<open>queueInLoop\<close> on the loop's own thread before \<open>loop\<close> is
  entered.
\<close>

inductive loop_step :: "bool \<Rightarrow> 'f event_loop \<Rightarrow> 'f event_loop \<Rightarrow> bool" for early where
  post_other: "loop_step early s (queue_other f s)"
| post_wake: "0 < ev_posters s \<Longrightarrow> loop_step early s (wakeup s\<lparr>ev_posters := ev_posters s - 1\<rparr>)"
| quit_other: "loop_step early s (s\<lparr>ev_quit := True, ev_asked := True, ev_quitters := ev_quitters s + 1\<rparr>)"
| quit_wake: "0 < ev_quitters s \<Longrightarrow> loop_step early s (wakeup s\<lparr>ev_quitters := ev_quitters s - 1\<rparr>)"
| post_early: "early \<Longrightarrow> ev_pc s = Idle \<Longrightarrow> loop_step early s (queue_self f s)"
| post_dispatch: "ev_pc s = Dispatch w \<Longrightarrow> loop_step early s (queue_self f s)"
| post_timers: "ev_pc s = Timers \<Longrightarrow> loop_step early s (queue_self f s)"
| post_running: "ev_pc s = Running fs \<Longrightarrow> loop_step early s (queue_self f s)"
| quit_self: "ev_pc s = Dispatch w \<or> ev_pc s = Timers \<or> ev_pc s = Running fs \<Longrightarrow>
    loop_step early s (s\<lparr>ev_quit := True, ev_asked := True\<rparr>)"
| start: "ev_pc s = Idle \<Longrightarrow> loop_step early s (s\<lparr>ev_quit := False, ev_pc := Check\<rparr>)"
| check_quit: "ev_pc s = Check \<Longrightarrow> ev_quit s \<Longrightarrow> loop_step early s (s\<lparr>ev_pc := Stopped\<rparr>)"
| check_go: "ev_pc s = Check \<Longrightarrow> \<not> ev_quit s \<Longrightarrow> loop_step early s (s\<lparr>ev_pc := Polling\<rparr>)"
| poll_wake: "ev_pc s = Polling \<Longrightarrow> ev_wake s \<Longrightarrow> loop_step early s (s\<lparr>ev_pc := Dispatch True\<rparr>)"
| poll_other: "ev_pc s = Polling \<Longrightarrow> loop_step early s (s\<lparr>ev_pc := Dispatch False\<rparr>)"
| dispatch_wake: "ev_pc s = Dispatch True \<Longrightarrow> loop_step early s (handleWakeup s\<lparr>ev_pc := Dispatch False\<rparr>)"
| dispatch_end: "ev_pc s = Dispatch False \<Longrightarrow> loop_step early s (s\<lparr>ev_pc := Timers\<rparr>)"
| take_start: "ev_pc s = Timers \<Longrightarrow> loop_step early s (s\<lparr>ev_calling := True, ev_pc := Taking\<rparr>)"
| take_swap: "ev_pc s = Taking \<Longrightarrow>
    loop_step early s (s\<lparr>ev_pc := Running (ev_pending s), ev_pending := []\<rparr>)"
| run_task: "ev_pc s = Running (f # fs) \<Longrightarrow>
    loop_step early s (s\<lparr>ev_pc := Running fs, ev_done := ev_done s @ [f]\<rparr>)"
| run_end: "ev_pc s = Running [] \<Longrightarrow> loop_step early s (s\<lparr>ev_calling := False, ev_pc := Check\<rparr>)"

inductive loop_reach :: "bool \<Rightarrow> 'f event_loop \<Rightarrow> bool" for early where
  init: "loop_reach early loop_init"
| step: "loop_reach early s \<Longrightarrow> loop_step early s t \<Longrightarrow> loop_reach early t"

inductive_cases loop_stepE: "loop_step early s t"

lemmas loop_updates = queue_other_def push_task_def wakeup_def handleWakeup_def queue_self_def batch_def Let_def

section \<open>Invariants\<close>

text \<open>Tasks are taken in the order they were posted, and each is taken once.\<close>

definition fifo_inv :: "'f event_loop \<Rightarrow> bool" where
  "fifo_inv s \<longleftrightarrow> ev_posted s = ev_done s @ batch (ev_pc s) @ ev_pending s"

definition calling_inv :: "'f event_loop \<Rightarrow> bool" where
  "calling_inv s \<longleftrightarrow> (ev_calling s \<longleftrightarrow> ev_pc s = Taking \<or> (\<exists>fs. ev_pc s = Running fs))"

text \<open>Outside the part of a turn that ends in taking the tasks, waiting tasks have a wake-up.\<close>

definition wake_inv :: "'f event_loop \<Rightarrow> bool" where
  "wake_inv s \<longleftrightarrow>
     ((ev_pc s \<in> {Idle, Check, Polling} \<or> (\<exists>fs. ev_pc s = Running fs)) \<and> ev_pending s \<noteq> [] \<longrightarrow>
        ev_wake s \<or> 0 < ev_posters s) \<and>
     (ev_pc s = Polling \<and> ev_quit s \<longrightarrow> ev_wake s \<or> 0 < ev_quitters s)"

lemma fifo_step: "loop_step early s t \<Longrightarrow> fifo_inv s \<Longrightarrow> fifo_inv t"
  by (induction rule: loop_step.induct) (auto simp: fifo_inv_def loop_updates)

lemma calling_step: "loop_step early s t \<Longrightarrow> calling_inv s \<Longrightarrow> calling_inv t"
  by (induction rule: loop_step.induct) (auto simp: calling_inv_def loop_updates)

lemma wake_step: "loop_step False s t \<Longrightarrow> calling_inv s \<Longrightarrow> wake_inv s \<Longrightarrow> wake_inv t"
  by (induction rule: loop_step.induct) (auto simp: calling_inv_def wake_inv_def loop_updates)

lemma reach_fifo: "loop_reach early s \<Longrightarrow> fifo_inv s"
  by (induction rule: loop_reach.induct)
    (simp add: fifo_inv_def loop_init_def batch_def, blast intro: fifo_step)

lemma reach_calling: "loop_reach early s \<Longrightarrow> calling_inv s"
  by (induction rule: loop_reach.induct)
    (simp add: calling_inv_def loop_init_def, blast intro: calling_step)

lemma reach_wake: "loop_reach False s \<Longrightarrow> wake_inv s"
  by (induction rule: loop_reach.induct)
    (simp add: wake_inv_def loop_init_def, blast intro: wake_step reach_calling)

text \<open>A task handed over by another thread is a step of the system and is counted until it is taken.\<close>

lemma runInLoop_step:
  assumes "runInLoop False f s = (now, t)"
  shows "loop_step early s t \<and> now = [] \<and> pendingTaskCount t = pendingTaskCount s + 1"
  using assms post_other [of early s f]
  by (auto simp: runInLoop_def pendingTaskCount_def queue_other_def push_task_def)

text \<open>A task of the loop's own thread overtakes everything that is waiting.\<close>

lemma runInLoop_overtakes: "runInLoop True f s = ([f], s)"
  by (simp add: runInLoop_def)

text \<open>The part of a turn from the wait up to the moment the loop takes the waiting tasks.\<close>

definition before_taking :: "'f loop_pc \<Rightarrow> bool" where
  "before_taking pc \<longleftrightarrow> pc \<in> {Polling, Timers, Taking} \<or> (\<exists>w. pc = Dispatch w)"

definition taken :: "'f list \<Rightarrow> 'f event_loop \<Rightarrow> bool" where
  "taken fs s \<longleftrightarrow> ev_pc s \<noteq> Idle \<and> (before_taking (ev_pc s) \<or> prefix fs (ev_done s @ batch (ev_pc s)))"

lemma posted_grows: "loop_step early s t \<Longrightarrow> prefix (ev_posted s) (ev_posted t)"
  by (induction rule: loop_step.induct) (simp_all add: loop_updates)

lemma taken_step: "loop_step early s t \<Longrightarrow> prefix fs (ev_done s @ batch (ev_pc s) @ ev_pending s) \<Longrightarrow> taken fs s \<Longrightarrow> taken fs t"
  by (induction rule: loop_step.induct) (auto simp: taken_def before_taking_def loop_updates)

text \<open>What was posted before the loop took its tasks has been run when the loop is left.\<close>

lemma taken_before_leaving:
  assumes "loop_reach early s" "before_taking (ev_pc s)" "rtranclp (loop_step early) s t" "ev_pc t = Stopped"
  shows "prefix (ev_posted s) (ev_done t)"
proof -
  from assms(3) have "loop_reach early t \<and> prefix (ev_posted s) (ev_posted t) \<and> taken (ev_posted s) t"
  proof (induction rule: rtranclp_induct)
    case base
    then show ?case using assms(1,2) by (auto simp: taken_def before_taking_def)
  next
    case (step t u)
    then have "prefix (ev_posted s) (ev_done t @ batch (ev_pc t) @ ev_pending t)"
      using reach_fifo [of early t] by (simp add: fifo_inv_def)
    then show ?case using step loop_reach.step taken_step posted_grows prefix_order.order_trans by blast
  qed
  then show ?thesis using assms(4) by (simp add: taken_def before_taking_def batch_def)
qed

text \<open>
  C23: posted tasks run in order, each once. In every reachable state of the loop and the threads
  that post to it, the tasks run so far are a prefix of the tasks posted so far; what is missing
  is still in the running batch or in the list. And whatever had been posted while the loop was
  waiting, or on its way to take the tasks, has been run when the loop is left, whoever asked it
  to quit in between.
\<close>

theorem tasks_run_in_order:
  assumes "loop_reach early s"
  shows "ev_posted s = ev_done s @ batch (ev_pc s) @ ev_pending s \<and>
    (\<forall>t. before_taking (ev_pc s) \<and> rtranclp (loop_step early) s t \<and> ev_pc t = Stopped \<longrightarrow>
       prefix (ev_posted s) (ev_done t))"
  using reach_fifo [OF assms] taken_before_leaving [OF assms] by (simp add: fifo_inv_def)

text \<open>
  C24: no lost wake-up, in the runs (\<open>loop_reach False\<close>) where nothing is queued on the loop's own
  thread before \<open>loop()\<close> is entered. Then, whenever the loop is about to block or blocked in
  epoll_wait and tasks are waiting or quit was requested since it started, the eventfd is readable or
  a thread is about to write it. The condition is needed: \<open>early_task_sleeps\<close> reaches a blocked loop
  with a task waiting and no wake-up on its way. This program meets it, since on the loop's own
  thread it only calls \<open>runInLoop\<close>, which runs the task at once.
\<close>

theorem no_lost_wakeup:
  assumes "loop_reach False s" "ev_pc s = Polling" "ev_pending s \<noteq> [] \<or> ev_quit s"
  shows "ev_wake s \<or> 0 < ev_posters s \<or> 0 < ev_quitters s"
  using reach_wake [OF assms(1)] assms(2,3) by (auto simp: wake_inv_def)

text \<open>A state in which the loop is blocked and nothing is on its way to wake it.\<close>

definition asleep :: "'f event_loop \<Rightarrow> bool" where
  "asleep s \<longleftrightarrow> ev_pc s = Polling \<and> \<not> ev_wake s \<and> ev_posters s = 0 \<and> ev_quitters s = 0"

text \<open>A task queued on the loop's own thread before the loop starts does not keep it awake.\<close>

lemma early_task_sleeps:
  "\<exists>s :: 'f event_loop. loop_reach True s \<and> ev_pending s = [f] \<and> asleep s"
proof -
  let ?i = "loop_init :: 'f event_loop"
  from loop_reach.step [OF loop_reach.init post_early [OF TrueI, where f = f]]
  have "loop_reach True (?i\<lparr>ev_pending := [f], ev_posted := [f]\<rparr>)"
    by (simp add: loop_init_def queue_self_def push_task_def)
  from loop_reach.step [OF this start]
  have "loop_reach True (?i\<lparr>ev_pending := [f], ev_posted := [f], ev_pc := Check\<rparr>)"
    by (simp add: loop_init_def)
  from loop_reach.step [OF this check_go]
  have "loop_reach True (?i\<lparr>ev_pending := [f], ev_posted := [f], ev_pc := Polling\<rparr>)"
    by (simp add: loop_init_def)
  then show ?thesis
    by (intro exI [of _ "?i\<lparr>ev_pending := [f], ev_posted := [f], ev_pc := Polling\<rparr>"])
      (simp add: asleep_def loop_init_def)
qed

text \<open>A state for the witnesses: another thread has posted a task and not yet woken the loop.\<close>

definition demo_loop :: "nat event_loop" where
  "demo_loop = loop_init\<lparr>ev_pending := [7], ev_posted := [7], ev_posters := 1, ev_pc := Polling\<rparr>"

lemma demo_loop_reach: "loop_reach False demo_loop"
proof -
  from loop_reach.step [OF loop_reach.init start]
  have "loop_reach False ((loop_init :: nat event_loop)\<lparr>ev_pc := Check\<rparr>)" by (simp add: loop_init_def)
  from loop_reach.step [OF this check_go]
  have "loop_reach False ((loop_init :: nat event_loop)\<lparr>ev_pc := Polling\<rparr>)" by (simp add: loop_init_def)
  from loop_reach.step [OF this post_other [of _ _ 7]] show ?thesis
    by (simp add: loop_init_def demo_loop_def queue_other_def push_task_def)
qed

theorem tasks_run_in_order_witness:
  "ev_posted demo_loop = ev_done demo_loop @ batch (ev_pc demo_loop) @ ev_pending demo_loop \<and>
     before_taking (ev_pc demo_loop)"
  using tasks_run_in_order [OF demo_loop_reach] by (simp add: demo_loop_def before_taking_def)

theorem no_lost_wakeup_witness:
  "ev_wake demo_loop \<or> 0 < ev_posters demo_loop \<or> 0 < ev_quitters demo_loop"
  by (rule no_lost_wakeup [OF demo_loop_reach]) (simp_all add: demo_loop_def)

end
