(* ===== verification/Loop_Thread.thy ===== *)
theory Loop_Thread
  imports Event_Loop
begin

text \<open>
  \<open>net/EventLoopThread\<close>: the thread that owns an event loop and the object that starts, quits and
  joins it, as steps over the steps of \<open>Event_Loop\<close>. The owner is the thread that calls
  \<open>startLoop\<close> and the destructor. Nobody but the owner asks the loop to quit.
\<close>

section \<open>States and steps\<close>

text \<open>
  \<open>Published\<close>: the loop exists on the stack of the thread; whether \<open>loop\<close> is entered is \<open>ev_pc\<close> of
  the loop. \<open>Ended\<close>: the thread has cleared the pointer and is over.
\<close>

datatype thread_phase = NotStarted | Created | Published | Ended

datatype owner_phase = Fresh | Starting | Using | Joining | Destroyed

text \<open>\<open>lt_early\<close> records whether the destructor asked to quit before \<open>loop\<close> was entered.\<close>

record 'f loop_thread =
  lt_loop :: bool
  lt_inner :: "'f event_loop"
  lt_thread :: thread_phase
  lt_owner :: owner_phase
  lt_early :: bool

definition EventLoopThread_new :: "'f loop_thread" where
  "EventLoopThread_new = \<lparr>lt_loop = False, lt_inner = loop_init, lt_thread = NotStarted,
     lt_owner = Fresh, lt_early = False\<rparr>"

text \<open>\<open>startLoop\<close>: the thread is created, then the owner waits for the pointer.\<close>

definition startLoop :: "'f loop_thread \<Rightarrow> 'f loop_thread" where
  "startLoop x = x\<lparr>lt_owner := Starting, lt_thread := Created\<rparr>"

text \<open>The two critical sections of \<open>threadFunc\<close>.\<close>

definition publish :: "'f loop_thread \<Rightarrow> 'f loop_thread" where
  "publish x = x\<lparr>lt_thread := Published, lt_loop := True\<rparr>"

definition retract :: "'f loop_thread \<Rightarrow> 'f loop_thread" where
  "retract x = x\<lparr>lt_thread := Ended, lt_loop := False\<rparr>"

text \<open>\<open>quit\<close> from another thread, up to its write to the eventfd.\<close>

definition quit_from_other :: "'f event_loop \<Rightarrow> 'f event_loop" where
  "quit_from_other s = s\<lparr>ev_quit := True, ev_asked := True, ev_quitters := ev_quitters s + 1\<rparr>"

text \<open>The destructor: quit if there is a loop, then join.\<close>

definition destroy :: "'f loop_thread \<Rightarrow> 'f loop_thread" where
  "destroy x =
     (if lt_loop x then
        x\<lparr>lt_owner := Joining, lt_inner := quit_from_other (lt_inner x),
          lt_early := (ev_pc (lt_inner x) = Idle)\<rparr>
      else x\<lparr>lt_owner := Joining\<rparr>)"

text \<open>A step of the loop, or of the threads that post to it, that asks for no quit.\<close>

definition quiet_step :: "'f event_loop \<Rightarrow> 'f event_loop \<Rightarrow> bool" where
  "quiet_step s t \<longleftrightarrow> loop_step False s t \<and> ev_asked t = ev_asked s"

inductive lt_step :: "'f loop_thread \<Rightarrow> 'f loop_thread \<Rightarrow> bool" where
  start_thread: "lt_owner x = Fresh \<Longrightarrow> lt_step x (startLoop x)"
| published: "lt_thread x = Created \<Longrightarrow> lt_step x (publish x)"
| started: "lt_owner x = Starting \<Longrightarrow> lt_loop x \<Longrightarrow> lt_step x (x\<lparr>lt_owner := Using\<rparr>)"
| turn: "lt_thread x = Published \<Longrightarrow> quiet_step (lt_inner x) s \<Longrightarrow> lt_step x (x\<lparr>lt_inner := s\<rparr>)"
| left_loop: "lt_thread x = Published \<Longrightarrow> ev_pc (lt_inner x) = Stopped \<Longrightarrow> lt_step x (retract x)"
| destroyed: "lt_owner x = Fresh \<or> lt_owner x = Using \<Longrightarrow> lt_step x (destroy x)"
| joined: "lt_owner x = Joining \<Longrightarrow> lt_thread x = NotStarted \<or> lt_thread x = Ended \<Longrightarrow>
    lt_step x (x\<lparr>lt_owner := Destroyed\<rparr>)"

inductive lt_reach :: "'f loop_thread \<Rightarrow> bool" where
  init: "lt_reach EventLoopThread_new"
| step: "lt_reach x \<Longrightarrow> lt_step x y \<Longrightarrow> lt_reach y"

lemmas lt_ops = startLoop_def publish_def retract_def destroy_def quit_from_other_def

section \<open>Invariants\<close>

text \<open>
  The pointer is set exactly while the loop exists; the owner has it only after the thread set it;
  and a quit asked for while the loop runs is not taken back.
\<close>

definition phases_ok :: "'f loop_thread \<Rightarrow> bool" where
  "phases_ok x \<longleftrightarrow> (lt_loop x \<longleftrightarrow> lt_thread x = Published) \<and>
     (lt_owner x = Fresh \<longrightarrow> lt_thread x = NotStarted) \<and>
     (lt_owner x = Using \<longrightarrow> lt_thread x = Published \<or> lt_thread x = Ended) \<and>
     (lt_thread x = NotStarted \<or> lt_thread x = Created \<longrightarrow> ev_pc (lt_inner x) = Idle) \<and>
     (lt_owner x = Starting \<longrightarrow> lt_thread x \<noteq> NotStarted) \<and>
     (lt_owner x = Joining \<or> lt_owner x = Destroyed \<longrightarrow> lt_thread x \<noteq> Created)"

definition quit_kept :: "'f loop_thread \<Rightarrow> bool" where
  "quit_kept x \<longleftrightarrow> lt_owner x = Joining \<and> lt_thread x = Published \<and> \<not> lt_early x \<longrightarrow>
     ev_quit (lt_inner x) \<and> ev_pc (lt_inner x) \<noteq> Idle"

lemma lt_step_phases: "lt_step x y \<Longrightarrow> phases_ok x \<Longrightarrow> phases_ok y"
  by (induction rule: lt_step.induct) (auto simp: phases_ok_def lt_ops)

lemma quiet_step_quit: "quiet_step s t \<Longrightarrow> ev_quit s \<Longrightarrow> ev_pc s \<noteq> Idle \<Longrightarrow> ev_quit t \<and> ev_pc t \<noteq> Idle"
  unfolding quiet_step_def by (elim conjE, erule loop_stepE) (auto simp: loop_updates)

lemma lt_step_quit: "lt_step x y \<Longrightarrow> phases_ok x \<Longrightarrow> quit_kept x \<Longrightarrow> quit_kept y"
proof (induction rule: lt_step.induct)
  case (turn x s)
  then show ?case using quiet_step_quit [OF turn(2)] by (simp add: quit_kept_def)
qed (auto simp: quit_kept_def phases_ok_def lt_ops)

lemma lt_step_loop: "lt_step x y \<Longrightarrow> loop_reach False (lt_inner x) \<Longrightarrow> loop_reach False (lt_inner y)"
proof (induction rule: lt_step.induct)
  case (turn x s)
  then show ?case using loop_reach.step unfolding quiet_step_def by auto
next
  case (destroyed x)
  then show ?case using loop_reach.step [OF destroyed(2) quit_other] by (simp add: lt_ops)
qed (simp_all add: lt_ops)

lemma lt_reach_inv: "lt_reach x \<Longrightarrow> phases_ok x \<and> quit_kept x \<and> loop_reach False (lt_inner x)"
proof (induction rule: lt_reach.induct)
  case init
  show ?case by (simp add: EventLoopThread_new_def phases_ok_def quit_kept_def loop_init_def
      loop_reach.init [unfolded loop_init_def])
next
  case (step x y)
  then show ?case using lt_step_phases lt_step_quit lt_step_loop by blast
qed

section \<open>Starting, quitting, joining\<close>

text \<open>\<open>startLoop\<close> returns only after the loop exists.\<close>

lemma started_has_loop: "lt_reach x \<Longrightarrow> lt_owner x = Using \<Longrightarrow> lt_thread x \<noteq> Ended \<Longrightarrow> lt_loop x"
  using lt_reach_inv [of x] by (auto simp: phases_ok_def)

lemma lt_turns:
  assumes "quiet_step\<^sup>*\<^sup>* s t" "lt_reach (x\<lparr>lt_inner := s\<rparr>)" "lt_thread x = Published"
  shows "lt_reach (x\<lparr>lt_inner := t\<rparr>)"
  using assms
proof (induction rule: rtranclp_induct)
  case (step t u)
  from lt_reach.step [OF step.IH [OF step.prems] turn, of u] step show ?case by simp
qed simp

text \<open>A loop that starts after the whole \<open>quit\<close> goes to sleep after one turn.\<close>

definition quit_early :: "'f event_loop" where
  "quit_early = quit_from_other loop_init"

definition asleep_late :: "'f event_loop" where
  "asleep_late = loop_init\<lparr>ev_asked := True, ev_pc := Polling\<rparr>"

lemma quiet_trans:
  "quiet_step\<^sup>*\<^sup>* s t \<Longrightarrow> loop_step False t u \<Longrightarrow> ev_asked u = ev_asked t \<Longrightarrow> quiet_step\<^sup>*\<^sup>* s u"
  by (simp add: quiet_step_def rtranclp.rtrancl_into_rtrancl)

lemma quit_early_sleeps: "quiet_step\<^sup>*\<^sup>* quit_early (asleep_late :: 'f event_loop)"
proof -
  define s where "s = quiet_step\<^sup>*\<^sup>* (quit_early :: 'f event_loop)"
  let ?i = "loop_init\<lparr>ev_asked := True\<rparr> :: 'f event_loop"
  have s0: "s quit_early" by (simp add: s_def)
  have step: "s t \<Longrightarrow> loop_step False t u \<Longrightarrow> ev_asked u = ev_asked t \<Longrightarrow> s u" for t u
    unfolding s_def by (rule quiet_trans)
  from step [OF s0 quit_wake] have "s (?i\<lparr>ev_quit := True, ev_wake := True\<rparr>)"
    by (simp add: quit_early_def quit_from_other_def loop_init_def wakeup_def)
  from step [OF this start] have "s (?i\<lparr>ev_wake := True, ev_pc := Check\<rparr>)" by (simp add: loop_init_def)
  from step [OF this check_go] have "s (?i\<lparr>ev_wake := True, ev_pc := Polling\<rparr>)" by (simp add: loop_init_def)
  from step [OF this poll_wake] have "s (?i\<lparr>ev_wake := True, ev_pc := Dispatch True\<rparr>)" by (simp add: loop_init_def)
  from step [OF this dispatch_wake] have "s (?i\<lparr>ev_pc := Dispatch False\<rparr>)"
    by (simp add: loop_init_def handleWakeup_def)
  from step [OF this dispatch_end] have "s (?i\<lparr>ev_pc := Timers\<rparr>)" by (simp add: loop_init_def)
  from step [OF this take_start] have "s (?i\<lparr>ev_calling := True, ev_pc := Taking\<rparr>)" by (simp add: loop_init_def)
  from step [OF this take_swap] have "s (?i\<lparr>ev_calling := True, ev_pc := Running []\<rparr>)" by (simp add: loop_init_def)
  from step [OF this run_end] have "s (?i\<lparr>ev_pc := Check\<rparr>)" by (simp add: loop_init_def)
  from step [OF this check_go] have "s (?i\<lparr>ev_pc := Polling\<rparr>)" by (simp add: loop_init_def)
  then show ?thesis by (simp add: s_def asleep_late_def)
qed

text \<open>The thread is blocked in epoll_wait for good: no poster and no quitter is about to wake it.\<close>

definition join_hangs :: "'f loop_thread \<Rightarrow> bool" where
  "join_hangs x \<longleftrightarrow> lt_owner x = Joining \<and> lt_thread x = Published \<and> asleep (lt_inner x)"

lemma early_destroy_hangs: "\<exists>x :: 'f loop_thread. lt_reach x \<and> join_hangs x"
proof -
  let ?n = "EventLoopThread_new :: 'f loop_thread"
  from lt_reach.step [OF lt_reach.init start_thread]
  have "lt_reach (?n\<lparr>lt_owner := Starting, lt_thread := Created\<rparr>)"
    by (simp add: EventLoopThread_new_def startLoop_def)
  from lt_reach.step [OF this published]
  have "lt_reach (?n\<lparr>lt_owner := Starting, lt_thread := Published, lt_loop := True\<rparr>)"
    by (simp add: EventLoopThread_new_def publish_def)
  from lt_reach.step [OF this started]
  have "lt_reach (?n\<lparr>lt_owner := Using, lt_thread := Published, lt_loop := True\<rparr>)"
    by (simp add: EventLoopThread_new_def)
  from lt_reach.step [OF this destroyed]
  have "lt_reach (?n\<lparr>lt_owner := Joining, lt_thread := Published, lt_loop := True, lt_early := True,
      lt_inner := quit_early\<rparr>)"
    by (simp add: EventLoopThread_new_def destroy_def quit_early_def) (simp add: loop_init_def)
  from lt_turns [OF quit_early_sleeps this]
  have "lt_reach (?n\<lparr>lt_owner := Joining, lt_thread := Published, lt_loop := True, lt_early := True,
      lt_inner := asleep_late\<rparr>)" by simp
  then show ?thesis
    by (intro exI) (auto simp: join_hangs_def asleep_def asleep_late_def loop_init_def)
qed

lemma hangs_early:
  assumes "lt_reach x" "join_hangs x"
  shows "lt_early x"
proof (rule ccontr)
  assume "\<not> lt_early x"
  with lt_reach_inv [OF assms(1)] have "ev_quit (lt_inner x)" "wake_inv (lt_inner x)"
    using assms(2) reach_wake by (auto simp: quit_kept_def join_hangs_def)
  then show False using assms(2) by (simp add: wake_inv_def join_hangs_def asleep_def)
qed

section \<open>A quit that is heard ends the loop\<close>

definition can_stop :: "'f event_loop \<Rightarrow> bool" where
  "can_stop s \<longleftrightarrow> (\<exists>t. quiet_step\<^sup>*\<^sup>* s t \<and> ev_pc t = Stopped)"

lemma can_stop_step: "loop_step False s t \<Longrightarrow> ev_asked t = ev_asked s \<Longrightarrow> can_stop t \<Longrightarrow> can_stop s"
  unfolding can_stop_def using converse_rtranclp_into_rtranclp [of quiet_step s t] by (auto simp: quiet_step_def)

lemma stop_check:
  assumes "ev_pc s = Check" "ev_quit s"
  shows "can_stop s"
proof (rule can_stop_step [OF check_quit [OF assms]])
  show "can_stop (s\<lparr>ev_pc := Stopped\<rparr>)" unfolding can_stop_def by (intro exI [of _ "s\<lparr>ev_pc := Stopped\<rparr>"]) simp
qed simp

lemma stop_running: "ev_pc s = Running fs \<Longrightarrow> ev_quit s \<Longrightarrow> can_stop s"
proof (induction fs arbitrary: s)
  case Nil
  from can_stop_step [OF run_end [OF Nil(1)]] show ?case using Nil(2) by (simp add: stop_check)
next
  case (Cons f fs)
  from can_stop_step [OF run_task [OF Cons.prems(1)]] show ?case using Cons.IH Cons.prems(2) by simp
qed

lemma stop_taking: "ev_pc s = Taking \<Longrightarrow> ev_quit s \<Longrightarrow> can_stop s"
  by (rule can_stop_step [OF take_swap]) (auto intro: stop_running)

lemma stop_timers: "ev_pc s = Timers \<Longrightarrow> ev_quit s \<Longrightarrow> can_stop s"
  by (rule can_stop_step [OF take_start]) (auto intro: stop_taking)

lemma stop_dispatch: "ev_pc s = Dispatch w \<Longrightarrow> ev_quit s \<Longrightarrow> can_stop s"
proof -
  have f: "ev_pc t = Dispatch False \<Longrightarrow> ev_quit t \<Longrightarrow> can_stop t" for t :: "'a event_loop"
    by (rule can_stop_step [OF dispatch_end]) (auto intro: stop_timers)
  assume "ev_pc s = Dispatch w" "ev_quit s"
  then show ?thesis
    using f can_stop_step [OF dispatch_wake [of s False]] by (cases w) (auto simp: handleWakeup_def)
qed

lemma stop_polling:
  assumes "ev_pc s = Polling" "ev_quit s" "ev_wake s \<or> 0 < ev_quitters s"
  shows "can_stop s"
proof -
  have w: "ev_pc t = Polling \<Longrightarrow> ev_quit t \<Longrightarrow> ev_wake t \<Longrightarrow> can_stop t" for t :: "'a event_loop"
    by (rule can_stop_step [OF poll_wake]) (auto intro: stop_dispatch)
  show ?thesis
  proof (cases "ev_wake s")
    case False
    then have q: "0 < ev_quitters s" using assms(3) by simp
    from can_stop_step [OF quit_wake [OF q]] show ?thesis using w assms(1,2) by (simp add: wakeup_def)
  qed (use w assms in blast)
qed

lemma heard_quit_stops:
  assumes "wake_inv s" "ev_quit s" "ev_pc s \<noteq> Idle"
  shows "can_stop s"
proof (cases "ev_pc s")
  case Stopped
  then show ?thesis unfolding can_stop_def by blast
next
  case Polling
  then show ?thesis using assms by (intro stop_polling) (auto simp: wake_inv_def)
qed (use assms stop_check stop_dispatch stop_timers stop_taking stop_running in blast)+

text \<open>A destructor whose quit came after \<open>loop\<close> was entered can always return.\<close>

lemma heard_join_returns:
  assumes "lt_reach x" "lt_owner x = Joining" "\<not> lt_early x"
  shows "\<exists>y. lt_step\<^sup>*\<^sup>* x y \<and> lt_owner y = Destroyed"
proof -
  note i = lt_reach_inv [OF assms(1)]
  have ended: "\<exists>z. lt_step\<^sup>*\<^sup>* y z \<and> lt_owner z = Destroyed"
    if "lt_owner y = Joining" "lt_thread y = NotStarted \<or> lt_thread y = Ended" for y :: "'a loop_thread"
    using joined [OF that] by (intro exI [of _ "y\<lparr>lt_owner := Destroyed\<rparr>"]) auto
  show ?thesis
  proof (cases "lt_thread x = Published")
    case False
    then have "lt_thread x = NotStarted \<or> lt_thread x = Ended"
      using i assms(2) by (cases "lt_thread x") (auto simp: phases_ok_def)
    then show ?thesis using ended assms(2) by blast
  next
    case True
    then have "ev_quit (lt_inner x)" "ev_pc (lt_inner x) \<noteq> Idle" using i assms(2,3) by (simp_all add: quit_kept_def)
    then obtain s where s: "quiet_step\<^sup>*\<^sup>* (lt_inner x) s" "ev_pc s = Stopped"
      using heard_quit_stops reach_wake i unfolding can_stop_def by blast
    from s(1) have run: "lt_step\<^sup>*\<^sup>* x (x\<lparr>lt_inner := s\<rparr>)"
    proof (induction rule: rtranclp_induct)
      case (step t u)
      have "lt_step (x\<lparr>lt_inner := t\<rparr>) (x\<lparr>lt_inner := u\<rparr>)"
        using turn [of "x\<lparr>lt_inner := t\<rparr>" u] True step.hyps(2) by simp
      then show ?case using step.IH by (rule rtranclp.rtrancl_into_rtrancl [rotated])
    qed simp
    have "lt_step (x\<lparr>lt_inner := s\<rparr>) (retract (x\<lparr>lt_inner := s\<rparr>))" using True s(2) by (intro left_loop) simp_all
    moreover obtain z where "lt_step\<^sup>*\<^sup>* (retract (x\<lparr>lt_inner := s\<rparr>)) z" "lt_owner z = Destroyed"
      using ended [of "retract (x\<lparr>lt_inner := s\<rparr>)"] assms(2) by (auto simp: retract_def)
    ultimately show ?thesis
      using run by (meson converse_rtranclp_into_rtranclp rtranclp_trans)
  qed
qed

text \<open>
  The destructor of \<open>EventLoopThreadPool\<close>: it asks every loop to quit before it joins the first
  thread; each thread is left as by its own destructor.
\<close>

definition loop_pool_destroy :: "'f loop_thread list \<Rightarrow> 'f loop_thread list" where
  "loop_pool_destroy threads = map destroy threads"

lemma pool_hangs_early:
  assumes "\<forall>x \<in> set threads. lt_reach x \<and> lt_owner x = Using" "y \<in> set (loop_pool_destroy threads)"
  shows "lt_reach y \<and> lt_owner y = Joining \<and> (join_hangs y \<longrightarrow> lt_early y)"
proof -
  obtain x where x: "x \<in> set threads" "y = destroy x" using assms(2) by (auto simp: loop_pool_destroy_def)
  then have "lt_reach y" using assms(1) lt_reach.step [OF _ destroyed] by blast
  moreover have "lt_owner y = Joining" by (simp add: x destroy_def)
  ultimately show ?thesis using hangs_early by blast
qed

text \<open>
  C25: destroying a loop thread. The destructor can wait for ever only if it asked to quit before
  the thread had entered \<open>loop\<close>. A quit that finds the loop running is never lost, wherever the loop
  is: the steps the loop and the quitting thread still have to make lead to the end of the join. The
  exception is real: \<open>startLoop\<close> returns once the pointer is set, \<open>loop\<close> clears the quit flag when it
  is entered, and the wake-up is spent on one idle turn.
\<close>

theorem join_hangs_only_if_early:
  "(\<forall>x :: 'f loop_thread. lt_reach x \<and> lt_owner x = Joining \<and> \<not> lt_early x \<longrightarrow>
      \<not> join_hangs x \<and> (\<exists>y. lt_step\<^sup>*\<^sup>* x y \<and> lt_owner y = Destroyed)) \<and>
   (\<exists>x :: 'f loop_thread. lt_reach x \<and> join_hangs x)"
  using hangs_early heard_join_returns early_destroy_hangs by blast

text \<open>A loop that has been started and runs when the destructor comes.\<close>

lemma demo_heard: "\<exists>x :: nat loop_thread. lt_reach x \<and> lt_owner x = Joining \<and> \<not> lt_early x"
proof -
  let ?n = "EventLoopThread_new :: nat loop_thread"
  let ?c = "(loop_init :: nat event_loop)\<lparr>ev_pc := Check\<rparr>"
  from lt_reach.step [OF lt_reach.init start_thread]
  have "lt_reach (?n\<lparr>lt_owner := Starting, lt_thread := Created\<rparr>)"
    by (simp add: EventLoopThread_new_def startLoop_def)
  from lt_reach.step [OF this published]
  have "lt_reach (?n\<lparr>lt_owner := Starting, lt_thread := Published, lt_loop := True\<rparr>)"
    by (simp add: EventLoopThread_new_def publish_def)
  from lt_reach.step [OF this started]
  have u: "lt_reach (?n\<lparr>lt_owner := Using, lt_thread := Published, lt_loop := True\<rparr>)"
    by (simp add: EventLoopThread_new_def)
  have "quiet_step (loop_init :: nat event_loop) ?c"
    using start [of "loop_init :: nat event_loop" False] by (simp add: quiet_step_def loop_init_def)
  from lt_reach.step [OF u turn, of ?c] this
  have "lt_reach (?n\<lparr>lt_owner := Using, lt_thread := Published, lt_loop := True, lt_inner := ?c\<rparr>)"
    by (simp add: EventLoopThread_new_def)
  from lt_reach.step [OF this destroyed] have "lt_reach (destroy (?n\<lparr>lt_owner := Using,
      lt_thread := Published, lt_loop := True, lt_inner := ?c\<rparr>))" (is "lt_reach ?x")
    by (simp add: EventLoopThread_new_def)
  moreover have "lt_owner ?x = Joining" "\<not> lt_early ?x" by (simp_all add: destroy_def EventLoopThread_new_def)
  ultimately show ?thesis by blast
qed

theorem join_hangs_only_if_early_witness:
  "\<exists>x y :: nat loop_thread. lt_reach x \<and> lt_owner x = Joining \<and> lt_step\<^sup>*\<^sup>* x y \<and> lt_owner y = Destroyed"
  using join_hangs_only_if_early demo_heard by blast

text \<open>Tasks that are still waiting when the loop sees the quit flag are never run.\<close>

lemma tasks_lost_at_quit:
  "\<exists>s :: 'f event_loop. loop_reach False s \<and> ev_pc s = Stopped \<and> ev_posted s = [f] \<and> ev_done s = []"
proof -
  let ?i = "loop_init :: 'f event_loop"
  from loop_reach.step [OF loop_reach.init start] have "loop_reach False (?i\<lparr>ev_pc := Check\<rparr>)"
    by (simp add: loop_init_def)
  from loop_reach.step [OF this post_other]
  have "loop_reach False (?i\<lparr>ev_pc := Check, ev_pending := [f], ev_posted := [f], ev_posters := 1\<rparr>)"
    by (simp add: loop_init_def queue_other_def push_task_def)
  from loop_reach.step [OF this quit_other]
  have "loop_reach False (?i\<lparr>ev_pc := Check, ev_pending := [f], ev_posted := [f], ev_posters := 1,
      ev_quit := True, ev_asked := True, ev_quitters := 1\<rparr>)" by (simp add: loop_init_def)
  from loop_reach.step [OF this check_quit]
  have "loop_reach False (?i\<lparr>ev_pc := Stopped, ev_pending := [f], ev_posted := [f], ev_posters := 1,
      ev_quit := True, ev_asked := True, ev_quitters := 1\<rparr>)" by (simp add: loop_init_def)
  then show ?thesis by (intro exI) (auto simp: loop_init_def)
qed

end
