(* ===== verification/Metrics.thy ===== *)
theory Metrics
  imports Complex_Main Prelude
begin

text \<open>
  \<open>util/Metrics\<close>: the counters as 64-bit words, the latency histogram, the quantile estimate, the
  snapshot and the sample lines of the Prometheus text. Doubles are exact rationals; their
  printing is a parameter. Each update is one atomic addition, so a sequence of updates is the
  model of the concurrent updates of the simple counters; the maximum, which takes a
  compare-and-swap loop, has a transition system of its own.
\<close>

section \<open>Counters\<close>

definition kBoundsMs :: "rat list" where
  "kBoundsMs = [1, 2, 5, 10, 20, 50, 100, 200, 500, 1000, 2000, 5000]"

definition kFiniteBuckets :: nat where "kFiniteBuckets = 12"
definition kBucketCount :: nat where "kBucketCount = kFiniteBuckets + 1"
definition kMethodCount :: nat where "kMethodCount = 4"

record metrics =
  mt_connectionsTotal :: "64 word"
  mt_connectionsRejected :: "64 word"
  mt_connectionsCurrent :: "64 word"
  mt_connectionsMax :: "64 word"
  mt_requestsTotal :: "64 word"
  mt_requestsRateLimited :: "64 word"
  mt_requestsNotModified :: "64 word"
  mt_requestsProxy :: "64 word"
  mt_requestsProxyErrors :: "64 word"
  mt_errorsTotal :: "64 word"
  mt_bytesReadTotal :: "64 word"
  mt_bytesWrittenTotal :: "64 word"
  mt_statusClasses :: "64 word list"
  mt_methodCounts :: "64 word list"
  mt_latencyBuckets :: "64 word list"
  mt_latencyCount :: "64 word"
  mt_latencySumMicros :: "64 word"
  mt_startTime :: int

definition metrics_reset :: "int \<Rightarrow> metrics" where
  "metrics_reset now = \<lparr>mt_connectionsTotal = 0, mt_connectionsRejected = 0, mt_connectionsCurrent = 0,
     mt_connectionsMax = 0, mt_requestsTotal = 0, mt_requestsRateLimited = 0, mt_requestsNotModified = 0,
     mt_requestsProxy = 0, mt_requestsProxyErrors = 0, mt_errorsTotal = 0, mt_bytesReadTotal = 0,
     mt_bytesWrittenTotal = 0, mt_statusClasses = replicate 5 0, mt_methodCounts = replicate kMethodCount 0,
     mt_latencyBuckets = replicate kBucketCount 0, mt_latencyCount = 0, mt_latencySumMicros = 0,
     mt_startTime = now\<rparr>"

text \<open>Run by one thread alone, the compare-and-swap loop leaves the larger of the two values.\<close>

definition onConnectionOpened :: "metrics \<Rightarrow> metrics" where
  "onConnectionOpened m =
     (let current = mt_connectionsCurrent m + 1 in
      m\<lparr>mt_connectionsTotal := mt_connectionsTotal m + 1, mt_connectionsCurrent := current,
        mt_connectionsMax := (if mt_connectionsMax m < current then current else mt_connectionsMax m)\<rparr>)"

definition onConnectionClosed :: "metrics \<Rightarrow> metrics" where
  "onConnectionClosed m = m\<lparr>mt_connectionsCurrent := mt_connectionsCurrent m - 1\<rparr>"

definition onConnectionRejected :: "metrics \<Rightarrow> metrics" where
  "onConnectionRejected m = m\<lparr>mt_connectionsRejected := mt_connectionsRejected m + 1\<rparr>"

definition onRequestRateLimited :: "metrics \<Rightarrow> metrics" where
  "onRequestRateLimited m = m\<lparr>mt_requestsRateLimited := mt_requestsRateLimited m + 1\<rparr>"

definition onRequestNotModified :: "metrics \<Rightarrow> metrics" where
  "onRequestNotModified m = m\<lparr>mt_requestsNotModified := mt_requestsNotModified m + 1\<rparr>"

definition onRequestProxied :: "metrics \<Rightarrow> metrics" where
  "onRequestProxied m = m\<lparr>mt_requestsProxy := mt_requestsProxy m + 1\<rparr>"

definition onRequestProxyError :: "metrics \<Rightarrow> metrics" where
  "onRequestProxyError m = m\<lparr>mt_requestsProxyErrors := mt_requestsProxyErrors m + 1\<rparr>"

definition onRequestStarted :: "int \<Rightarrow> metrics \<Rightarrow> metrics" where
  "onRequestStarted kind m =
     (if 0 \<le> kind \<and> kind < int kMethodCount
      then m\<lparr>mt_methodCounts := (mt_methodCounts m)[nat kind := mt_methodCounts m ! nat kind + 1]\<rparr>
      else m)"

text \<open>The index of the first bound the latency does not exceed; past the last one, the +Inf bucket.\<close>

fun bucket_index :: "rat \<Rightarrow> rat list \<Rightarrow> nat" where
  "bucket_index l [] = 0"
| "bucket_index l (b # bs) = (if l \<le> b then 0 else Suc (bucket_index l bs))"

definition onRequestFinished :: "int \<Rightarrow> rat \<Rightarrow> metrics \<Rightarrow> metrics" where
  "onRequestFinished statusCode latencyMs m =
     (let m1 = m\<lparr>mt_requestsTotal := mt_requestsTotal m + 1\<rparr>;
          classIndex = c_div statusCode 100 - 1;
          m2 = (if 0 \<le> classIndex \<and> classIndex < 5
                then m1\<lparr>mt_statusClasses := (mt_statusClasses m1)[nat classIndex :=
                       mt_statusClasses m1 ! nat classIndex + 1]\<rparr>
                else m1);
          latency = max 0 latencyMs;
          i = bucket_index latency kBoundsMs in
      m2\<lparr>mt_latencyCount := mt_latencyCount m2 + 1,
         mt_latencySumMicros := mt_latencySumMicros m2 + of_int \<lfloor>latency * 1000\<rfloor>,
         mt_latencyBuckets := (mt_latencyBuckets m2)[i := mt_latencyBuckets m2 ! i + 1]\<rparr>)"

definition onError :: "metrics \<Rightarrow> metrics" where
  "onError m = m\<lparr>mt_errorsTotal := mt_errorsTotal m + 1\<rparr>"

definition onBytesRead :: "nat \<Rightarrow> metrics \<Rightarrow> metrics" where
  "onBytesRead n m = m\<lparr>mt_bytesReadTotal := mt_bytesReadTotal m + of_nat n\<rparr>"

definition onBytesWritten :: "nat \<Rightarrow> metrics \<Rightarrow> metrics" where
  "onBytesWritten n m = m\<lparr>mt_bytesWrittenTotal := mt_bytesWrittenTotal m + of_nat n\<rparr>"

text \<open>The functions of the namespace \<open>metrics\<close>: nothing happens while no instance is installed.\<close>

definition metrics_report :: "(metrics \<Rightarrow> metrics) \<Rightarrow> metrics option \<Rightarrow> metrics option" where
  "metrics_report update global = map_option update global"

section \<open>Quantiles\<close>

definition bucket_lower :: "nat \<Rightarrow> rat" where
  "bucket_lower i = (if i = 0 then 0 else kBoundsMs ! (i - 1))"

definition bucket_upper :: "nat \<Rightarrow> rat" where
  "bucket_upper i = (if i < kFiniteBuckets then kBoundsMs ! i else kBoundsMs ! (kFiniteBuckets - 1) * 2)"

text \<open>The search from bucket \<open>i\<close> on, with the count of the buckets before it.\<close>

fun quantile_from :: "rat \<Rightarrow> nat \<Rightarrow> nat \<Rightarrow> nat list \<Rightarrow> rat" where
  "quantile_from target i before [] = kBoundsMs ! (kFiniteBuckets - 1)"
| "quantile_from target i before (b # bs) =
     (if target \<le> of_nat (before + b) then
        (if b = 0 then bucket_upper i
         else bucket_lower i + (bucket_upper i - bucket_lower i) *
           min 1 (max 0 ((target - of_nat before) / of_nat b)))
      else quantile_from target (Suc i) (before + b) bs)"

definition quantileFromBuckets :: "nat list \<Rightarrow> nat \<Rightarrow> rat \<Rightarrow> rat" where
  "quantileFromBuckets buckets n q =
     (if n = 0 \<or> q \<le> 0 then 0 else quantile_from (min 1 q * of_nat n) 0 0 buckets)"

section \<open>Snapshot and text\<close>

record snapshot =
  sn_counters :: metrics
  sn_latencySumMs :: rat
  sn_latencyP50Ms :: rat
  sn_latencyP95Ms :: rat
  sn_latencyP99Ms :: rat
  sn_uptimeSeconds :: nat

definition quantile_of :: "metrics \<Rightarrow> rat \<Rightarrow> rat" where
  "quantile_of m q = quantileFromBuckets (map unat (mt_latencyBuckets m)) (unat (mt_latencyCount m)) q"

definition metrics_snapshot :: "int \<Rightarrow> metrics \<Rightarrow> snapshot" where
  "metrics_snapshot now m =
     \<lparr>sn_counters = m, sn_latencySumMs = of_nat (unat (mt_latencySumMicros m)) / 1000,
      sn_latencyP50Ms = quantile_of m (1 / 2), sn_latencyP95Ms = quantile_of m (95 / 100),
      sn_latencyP99Ms = quantile_of m (99 / 100),
      sn_uptimeSeconds = nat (c_div (now - mt_startTime m) 1000000000)\<rparr>"

definition show_word :: "64 word \<Rightarrow> string" where
  "show_word w = string_of_nat (unat w)"

text \<open>The running sums of the histogram lines.\<close>

fun cumulative :: "64 word \<Rightarrow> 64 word list \<Rightarrow> 64 word list" where
  "cumulative n [] = []"
| "cumulative n (b # bs) = (n + b) # cumulative (n + b) bs"

definition label :: "string \<Rightarrow> string \<Rightarrow> string \<Rightarrow> string" where
  "label metric key val = metric @ ''{'' @ key @ ''='' @ DQ @ val @ DQ @ ''}''"

definition kBoundNames :: "string list" where
  "kBoundNames = [''1'', ''2'', ''5'', ''10'', ''20'', ''50'', ''100'', ''200'', ''500'', ''1000'', ''2000'', ''5000'', ''+Inf'']"

section \<open>The compare-and-swap loop\<close>

text \<open>
  Several threads in \<open>onConnectionOpened\<close>: each has added 1 to the current count and holds the
  value it got, and the last value it saw of the maximum once it has loaded it. \<open>peak\<close> is the
  largest count there has been.
\<close>

record max_state =
  mx_current :: int
  mx_max :: int
  mx_peak :: int
  mx_threads :: "(int \<times> int option) list"

definition max_init :: max_state where
  "max_init = \<lparr>mx_current = 0, mx_max = 0, mx_peak = 0, mx_threads = []\<rparr>"

inductive max_step :: "max_state \<Rightarrow> max_state \<Rightarrow> bool" where
  opened: "max_step s (s\<lparr>mx_current := mx_current s + 1, mx_peak := max (mx_peak s) (mx_current s + 1),
      mx_threads := mx_threads s @ [(mx_current s + 1, None)]\<rparr>)"
| closed: "0 < mx_current s \<Longrightarrow> max_step s (s\<lparr>mx_current := mx_current s - 1\<rparr>)"
| load: "mx_threads s = xs @ (c, None) # ys \<Longrightarrow>
    max_step s (s\<lparr>mx_threads := xs @ (c, Some (mx_max s)) # ys\<rparr>)"
| leave: "mx_threads s = xs @ (c, Some p) # ys \<Longrightarrow> \<not> p < c \<Longrightarrow> max_step s (s\<lparr>mx_threads := xs @ ys\<rparr>)"
| swap: "mx_threads s = xs @ (c, Some p) # ys \<Longrightarrow> p < c \<Longrightarrow> mx_max s = p \<Longrightarrow>
    max_step s (s\<lparr>mx_max := c, mx_threads := xs @ ys\<rparr>)"
| retry: "mx_threads s = xs @ (c, Some p) # ys \<Longrightarrow> p < c \<Longrightarrow>
    max_step s (s\<lparr>mx_threads := xs @ (c, Some (mx_max s)) # ys\<rparr>)"

inductive max_reach :: "max_state \<Rightarrow> bool" where
  start: "max_reach max_init"
| step: "max_reach s \<Longrightarrow> max_step s t \<Longrightarrow> max_reach t"

end
