(* ===== verification/Format_Double.thy ===== *)
theory Format_Double
  imports Complex_Main Prelude
begin

text \<open>
  What an \<open>ostream\<close> prints for a double after \<open>setprecision(p)\<close>: \<open>p\<close> significant digits, trailing
  zeros dropped, and the exponent form outside 10^-4 to 10^p (\<open>%g\<close>). The metrics page uses six
  digits (\<open>formatDouble\<close> of \<open>util/Metrics\<close>, and the default of a stream), the status page four. A
  double is its exact value, a rational; the conversion rounds that value to the nearest number
  with so many digits, ties to even.
\<close>

section \<open>Rounding\<close>

lemma ceiling_tenth:
  fixes x :: rat
  assumes "1 < x"
  shows "\<lceil>x / 10\<rceil> < \<lceil>x\<rceil>"
proof -
  have "2 \<le> \<lceil>x\<rceil>" using assms by (simp add: le_ceiling_iff)
  then have "(2::rat) \<le> of_int \<lceil>x\<rceil>" by linarith
  moreover have "x \<le> of_int \<lceil>x\<rceil>" by (rule le_of_int_ceiling)
  ultimately have "x / 10 \<le> of_int \<lceil>x\<rceil> - 1" by linarith
  then show ?thesis by (simp add: ceiling_less_iff)
qed

text \<open>The exponent of the first digit.\<close>

function dec_exp :: "rat \<Rightarrow> int" where
  "dec_exp r =
     (if r \<le> 0 then 0
      else if 10 \<le> r then dec_exp (r / 10) + 1
      else if r < 1 then dec_exp (r * 10) - 1
      else 0)"
  by pat_completeness auto
termination
proof (relation "measure (\<lambda>r. if 10 \<le> r then nat \<lfloor>r\<rfloor> else if r < 1 then nat \<lceil>1 / r\<rceil> else 0)")
  fix r :: rat
  assume r: "\<not> r \<le> 0" "10 \<le> r"
  have "\<lfloor>r / 10\<rfloor> < \<lfloor>r\<rfloor>" using r by (simp add: floor_less_iff) linarith
  moreover have "0 \<le> \<lfloor>r / 10\<rfloor>" using r by simp
  moreover have "\<not> r / 10 < 1" using r by simp
  ultimately show "(r / 10, r) \<in> measure (\<lambda>r. if 10 \<le> r then nat \<lfloor>r\<rfloor> else if r < 1 then nat \<lceil>1 / r\<rceil> else 0)"
    using r by (auto simp: nat_less_iff)
next
  fix r :: rat
  assume r: "\<not> r \<le> 0" "\<not> 10 \<le> r" "r < 1"
  have x: "1 < 1 / r" using r by simp
  have "\<lceil>1 / (r * 10)\<rceil> < \<lceil>1 / r\<rceil>"
    using ceiling_tenth [OF x] by (simp add: divide_divide_eq_left)
  moreover have "0 < \<lceil>1 / r\<rceil>" using r by simp
  ultimately show "(r * 10, r) \<in> measure (\<lambda>r. if 10 \<le> r then nat \<lfloor>r\<rfloor> else if r < 1 then nat \<lceil>1 / r\<rceil> else 0)"
    using r by (auto simp: zless_nat_conj)
qed simp

declare dec_exp.simps [simp del]

text \<open>\<open>scale r k\<close> is \<open>r * 10 ^ k\<close>.\<close>

definition scale :: "rat \<Rightarrow> int \<Rightarrow> rat" where
  "scale r k = (if 0 \<le> k then r * 10 ^ nat k else r / 10 ^ nat (- k))"

definition half_even :: "rat \<Rightarrow> int" where
  "half_even x =
     (let f = \<lfloor>x\<rfloor>; d = x - of_int f in
      if d < 1 / 2 then f else if 1 / 2 < d then f + 1 else if even f then f else f + 1)"

text \<open>The digits, as a number, and the exponent of the first.\<close>

definition sig_digits :: "nat \<Rightarrow> rat \<Rightarrow> nat \<times> int" where
  "sig_digits p r =
     (let e = dec_exp r; n = nat (half_even (scale r (int p - 1 - e))) in
      if n = 10 ^ p then (10 ^ (p - 1), e + 1) else (n, e))"

section \<open>The text\<close>

definition strip_zeros :: "string \<Rightarrow> string" where
  "strip_zeros ds = rev (dropWhile (\<lambda>c. c = CHR ''0'') (rev ds))"

definition with_point :: "string \<Rightarrow> string \<Rightarrow> string" where
  "with_point ip fp = (if fp = [] then ip else ip @ ''.'' @ fp)"

definition exponent_text :: "int \<Rightarrow> string" where
  "exponent_text e =
     (if e < 0 then ''e-'' else ''e+'') @
     (if \<bar>e\<bar> < 10 then ''0'' else []) @ string_of_nat (nat \<bar>e\<bar>)"

definition positive_text :: "nat \<Rightarrow> rat \<Rightarrow> string" where
  "positive_text p r =
     (case sig_digits p r of (n, e) \<Rightarrow>
        let ds = string_of_nat n in
        if e < -4 \<or> int p \<le> e then with_point (take 1 ds) (strip_zeros (drop 1 ds)) @ exponent_text e
        else if 0 \<le> e then with_point (take (nat (e + 1)) ds) (strip_zeros (drop (nat (e + 1)) ds))
        else with_point ''0'' (replicate (nat (- e - 1)) (CHR ''0'') @ strip_zeros ds))"

definition print_double :: "nat \<Rightarrow> rat \<Rightarrow> string" where
  "print_double p r =
     (if r = 0 then ''0'' else if r < 0 then ''-'' @ positive_text p (- r) else positive_text p r)"

definition formatDouble :: "rat \<Rightarrow> string" where
  "formatDouble r = print_double 6 r"

end
