(* ===== verification/Prometheus.thy ===== *)
theory Prometheus
  imports Metrics Format_Double
begin

text \<open>
  The text of the metrics page: \<open>renderPrometheus\<close> of \<open>util/Metrics\<close>. The page is a list of
  families, each a HELP line, a TYPE line and its samples. The help texts are Chinese; they are
  written as code points here and encoded in UTF-8, the encoding of the source file. Doubles are
  printed by \<open>formatDouble\<close>.
\<close>

section \<open>Families\<close>

text \<open>
  Name, type, help text, and the samples: what follows the name of the family on the line, up to
  the space, and the value.
\<close>

type_synonym family = "string \<times> string \<times> nat list \<times> (string \<times> string) list"

definition prometheus_families :: "nat \<Rightarrow> snapshot \<Rightarrow> family list" where
  "prometheus_families logLines sn =
     (let m = sn_counters sn in
      [(''myself_connections_total'', ''counter'',
         [0x7d2f, 0x8ba1, 0x63a5, 0x53d7, 0x7684, 0x8fde, 0x63a5, 0x6570],
         [([], show_word (mt_connectionsTotal m))]),
       (''myself_connections_rejected_total'', ''counter'',
         [0x8d85, 0x8fc7, 0x8fde, 0x63a5, 0x4e0a, 0x9650, 0x88ab, 0x62d2, 0x7edd, 0x7684,
         0x8fde, 0x63a5, 0x6570],
         [([], show_word (mt_connectionsRejected m))]),
       (''myself_connections_current'', ''gauge'',
         [0x5f53, 0x524d, 0x5728, 0x7ebf, 0x8fde, 0x63a5, 0x6570],
         [([], string_of_int (sint (mt_connectionsCurrent m)))]),
       (''myself_connections_max'', ''gauge'',
         [0x5728, 0x7ebf, 0x8fde, 0x63a5, 0x6570, 0x5386, 0x53f2, 0x5cf0, 0x503c],
         [([], show_word (mt_connectionsMax m))]),
       (''myself_requests_total'', ''counter'',
         [0x7d2f, 0x8ba1, 0x5904, 0x7406, 0x7684, 32, 72, 84, 84, 80, 32, 0x8bf7, 0x6c42,
         0x6570],
         [([], show_word (mt_requestsTotal m))]),
       (''myself_requests_rate_limited_total'', ''counter'',
         [0x8d85, 0x8fc7, 0x9650, 0x6d41, 0x9608, 0x503c, 0x88ab, 0x62e6, 0x622a, 0x7684,
         32, 72, 84, 84, 80, 32, 0x8bf7, 0x6c42, 0x6570],
         [([], show_word (mt_requestsRateLimited m))]),
       (''myself_requests_not_modified_total'', ''counter'',
         [0x6761, 0x4ef6, 0x8bf7, 0x6c42, 0x547d, 0x4e2d, 0x8fd4, 0x56de, 32, 51, 48, 52,
         32, 0x7684, 0x6b21, 0x6570, 0xff08, 0x7701, 0x4e0b, 0x7684, 0x6574, 0x5305,
         0x4f20, 0x8f93, 0xff09],
         [([], show_word (mt_requestsNotModified m))]),
       (''myself_requests_proxy_total'', ''counter'',
         [0x53cd, 0x5411, 0x4ee3, 0x7406, 0x8f6c, 0x53d1, 0x8bf7, 0x6c42, 0x603b, 0x6570],
         [([], show_word (mt_requestsProxy m))]),
       (''myself_requests_proxy_errors_total'', ''counter'',
         [0x53cd, 0x5411, 0x4ee3, 0x7406, 0x8f6c, 0x53d1, 0x5931, 0x8d25, 0x603b, 0x6570],
         [([], show_word (mt_requestsProxyErrors m))]),
       (''myself_requests_by_status'', ''counter'',
         [0x6309, 0x72b6, 0x6001, 0x7801, 0x7c7b, 0x522b, 0x7edf, 0x8ba1, 0x7684, 0x8bf7,
         0x6c42, 0x6570],
         map (\<lambda>(c, w). (label [] ''class'' c, show_word w))
           (zip [''1xx'', ''2xx'', ''3xx'', ''4xx'', ''5xx''] (mt_statusClasses m))),
       (''myself_requests_by_method'', ''counter'',
         [0x6309, 32, 72, 84, 84, 80, 32, 0x65b9, 0x6cd5, 0x7edf, 0x8ba1, 0x7684, 0x8bf7,
         0x6c42, 0x6570],
         map (\<lambda>(c, w). (label [] ''method'' c, show_word w))
           (zip [''GET'', ''HEAD'', ''POST'', ''OTHER''] (mt_methodCounts m))),
       (''myself_errors_total'', ''counter'',
         [0x7d2f, 0x8ba1, 0x9519, 0x8bef, 0x6570, 0xff08, 115, 111, 99, 107, 101, 116, 32,
         0x9519, 0x8bef, 0x4e0e, 0x975e, 0x6cd5, 0x8bf7, 0x6c42, 0xff09],
         [([], show_word (mt_errorsTotal m))]),
       (''myself_bytes_read_total'', ''counter'',
         [0x7d2f, 0x8ba1, 0x8bfb, 0x53d6, 0x5b57, 0x8282, 0x6570],
         [([], show_word (mt_bytesReadTotal m))]),
       (''myself_bytes_written_total'', ''counter'',
         [0x7d2f, 0x8ba1, 0x5199, 0x5165, 0x5b57, 0x8282, 0x6570],
         [([], show_word (mt_bytesWrittenTotal m))]),
       (''myself_log_lines_total'', ''counter'',
         [0x7d2f, 0x8ba1, 0x65e5, 0x5fd7, 0x884c, 0x6570],
         [([], string_of_nat logLines)]),
       (''myself_uptime_seconds'', ''gauge'',
         [0x8fdb, 0x7a0b, 0x8fd0, 0x884c, 0x65f6, 0x957f],
         [([], string_of_nat (sn_uptimeSeconds sn))]),
       (''myself_request_latency_ms'', ''histogram'',
         [0x8bf7, 0x6c42, 0x5904, 0x7406, 0x5ef6, 0x8fdf, 0x76f4, 0x65b9, 0x56fe, 0xff08,
         0x6beb, 0x79d2, 0xff09],
         map (\<lambda>(c, w). (label ''_bucket'' ''le'' c, show_word w))
           (zip kBoundNames (cumulative 0 (mt_latencyBuckets m))) @
         [(''_sum'', formatDouble (sn_latencySumMs sn)), (''_count'', show_word (mt_latencyCount m))]),
       (''myself_request_latency_ms_quantile'', ''gauge'',
         [0x7531, 0x56fa, 0x5b9a, 0x6876, 0x63d2, 0x503c, 0x4f30, 0x7b97, 0x7684, 0x5206,
         0x4f4d, 0x5ef6, 0x8fdf],
         [(label [] ''quantile'' ''0.5'', formatDouble (sn_latencyP50Ms sn)),
         (label [] ''quantile'' ''0.95'', formatDouble (sn_latencyP95Ms sn)),
         (label [] ''quantile'' ''0.99'', formatDouble (sn_latencyP99Ms sn))])])"

definition sample_line :: "string \<Rightarrow> string \<times> string \<Rightarrow> string" where
  "sample_line name p = name @ fst p @ '' '' @ snd p @ [CHR 0x0A]"

definition family_text :: "family \<Rightarrow> string" where
  "family_text f = (case f of (name, kind, help, samples) \<Rightarrow>
     ''# HELP '' @ name @ '' '' @ utf8_text help @ [CHR 0x0A] @
     ''# TYPE '' @ name @ '' '' @ kind @ [CHR 0x0A] @
     concat (map (sample_line name) samples))"

definition renderPrometheus :: "nat \<Rightarrow> snapshot \<Rightarrow> string" where
  "renderPrometheus logLines sn =
     concat (map family_text (prometheus_families logLines sn))"

section \<open>Reading the page\<close>

text \<open>
  What a scraper does: it takes the lines, skips comments, and splits each other line at its first
  space.
\<close>

fun text_lines :: "string \<Rightarrow> string \<Rightarrow> string list" where
  "text_lines line [] = (if line = [] then [] else [rev line])"
| "text_lines line (c # cs) = (if c = CHR 0x0A then rev line # text_lines [] cs else text_lines (c # line) cs)"

definition split_sample :: "string \<Rightarrow> string \<times> string" where
  "split_sample l = (takeWhile (\<lambda>c. c \<noteq> CHR '' '') l, drop 1 (dropWhile (\<lambda>c. c \<noteq> CHR '' '') l))"

definition is_comment :: "string \<Rightarrow> bool" where
  "is_comment l \<longleftrightarrow> l \<noteq> [] \<and> hd l = CHR ''#''"

definition scrape :: "string \<Rightarrow> (string \<times> string) list" where
  "scrape text = map split_sample (filter (\<lambda>l. \<not> is_comment l) (text_lines [] text))"

definition family_samples :: "family \<Rightarrow> (string \<times> string) list" where
  "family_samples f = (case f of (name, kind, help, samples) \<Rightarrow> map (\<lambda>(s, v). (name @ s, v)) samples)"

end
