(* ===== verification/Format_Double_Props.thy ===== *)
theory Format_Double_Props
  imports Format_Double
begin

text \<open>
  What a reader gets back from a printed double: the value of its six digits, within one part in
  200000 of the original.
\<close>

section \<open>Scaling and rounding\<close>

lemma scale_powi: "scale r k = r * 10 powi k"
  by (simp add: scale_def power_int_def divide_simps)

lemma powi_add: "(10::rat) powi (a + b) = 10 powi a * 10 powi b"
  by (rule power_int_add) simp

lemma powi_pos [simp]: "0 < (10::rat) powi k"
  by (rule zero_less_power_int) simp

lemma dec_exp_bounds: "0 < r \<Longrightarrow> 10 powi (dec_exp r) \<le> r \<and> r < 10 powi (dec_exp r + 1)"
proof (induction r rule: dec_exp.induct)
  case (1 r)
  consider "10 \<le> r" | "r < 1" | "1 \<le> r" "r < 10" by linarith
  then show ?case
  proof cases
    case 1
    then have "10 powi (dec_exp (r / 10)) \<le> r / 10 \<and> r / 10 < 10 powi (dec_exp (r / 10) + 1)"
      using "1.IH"(1) by simp
    then show ?thesis using 1 by (subst (1 2) dec_exp.simps) (simp add: powi_add field_simps)
  next
    case 2
    then have "10 powi (dec_exp (r * 10)) \<le> r * 10 \<and> r * 10 < 10 powi (dec_exp (r * 10) + 1)"
      using "1.IH"(2) "1.prems" by simp
    moreover have "(10::rat) powi (dec_exp (r * 10)) = 10 powi (dec_exp (r * 10) - 1) * 10"
      using powi_add [of "dec_exp (r * 10) - 1" 1] by simp
    ultimately show ?thesis using 2 "1.prems" by (subst (1 2) dec_exp.simps) (simp add: powi_add)
  next
    case 3
    then show ?thesis by (subst (1 2) dec_exp.simps) simp
  qed
qed

lemma half_even_near: "\<bar>of_int (half_even x) - x\<bar> \<le> 1 / 2"
proof -
  have "of_int \<lfloor>x\<rfloor> \<le> x" "x < of_int \<lfloor>x\<rfloor> + 1" by linarith+
  then have "x - of_int \<lfloor>x\<rfloor> \<le> 1 / 2 \<Longrightarrow> \<bar>of_int \<lfloor>x\<rfloor> - x\<bar> \<le> 1 / 2"
    "1 / 2 \<le> x - of_int \<lfloor>x\<rfloor> \<Longrightarrow> \<bar>of_int \<lfloor>x\<rfloor> + 1 - x\<bar> \<le> 1 / 2"
    by linarith+
  then show ?thesis by (simp add: half_even_def Let_def not_less)
qed

lemma half_even_between: "of_int a \<le> x \<Longrightarrow> x < of_int b \<Longrightarrow> a \<le> half_even x \<and> half_even x \<le> b"
  by (simp add: half_even_def Let_def le_floor_iff) (smt (verit) floor_less_iff le_floor_iff)

text \<open>As many digits as asked for, and an error of at most half of the last one.\<close>

lemma sig_digits_near:
  assumes "0 < r" "0 < p" "sig_digits p r = (n, e)"
  shows "10 ^ (p - 1) \<le> n \<and> n < 10 ^ p \<and>
    \<bar>of_nat n * 10 powi (e + 1 - int p) - r\<bar> \<le> r * 5 / 10 ^ p"
proof -
  define e0 where "e0 = dec_exp r"
  define x where "x = r * 10 powi (int p - 1 - e0)"
  define m where "m = half_even x"
  have ip: "int p - 1 = int (p - 1)" using assms(2) by simp
  have b: "10 powi e0 \<le> r" "r < 10 powi (e0 + 1)" using dec_exp_bounds [OF assms(1)] by (simp_all add: e0_def)
  have q: "(10::rat) powi e0 * 10 powi (int p - 1 - e0) = 10 ^ (p - 1)"
    "(10::rat) powi (e0 + 1) * 10 powi (int p - 1 - e0) = 10 ^ p"
  proof -
    have "e0 + (int p - 1 - e0) = int (p - 1)" "e0 + 1 + (int p - 1 - e0) = int p" using ip by linarith+
    then show "(10::rat) powi e0 * 10 powi (int p - 1 - e0) = 10 ^ (p - 1)"
      "(10::rat) powi (e0 + 1) * 10 powi (int p - 1 - e0) = 10 ^ p"
      by (metis powi_add power_int_of_nat)+
  qed
  have x: "of_int (10 ^ (p - 1)) \<le> x" "x < of_int (10 ^ p)"
    using mult_right_mono [OF b(1), of "10 powi (int p - 1 - e0)"]
      mult_strict_right_mono [OF b(2), of "10 powi (int p - 1 - e0)"]
    by (simp_all add: x_def q less_imp_le)
  have m: "10 ^ (p - 1) \<le> m" "m \<le> 10 ^ p" using half_even_between [OF x] by (simp_all add: m_def)
  have xr: "x * 10 powi (e0 + 1 - int p) = r"
    using powi_add [of "int p - 1 - e0" "e0 + 1 - int p"] by (simp add: x_def)
  have "\<bar>of_int m - x\<bar> * 10 powi (e0 + 1 - int p) \<le> 1 / 2 * 10 powi (e0 + 1 - int p)"
    using half_even_near [of x] by (intro mult_right_mono) (simp_all add: m_def less_imp_le)
  moreover have "\<bar>of_int m - x\<bar> * 10 powi (e0 + 1 - int p) = \<bar>of_int m * 10 powi (e0 + 1 - int p) - r\<bar>"
    using xr by (simp add: abs_mult_pos less_imp_le left_diff_distrib)
  moreover have "1 / 2 * 10 powi (e0 + 1 - int p) \<le> r * 5 / 10 ^ p"
  proof -
    have "(10::rat) powi (e0 + 1 - int p) = 10 powi e0 * 10 / 10 ^ p"
      using powi_add [of "e0 + 1" "- int p"] powi_add [of e0 1] by (simp add: power_int_minus divide_inverse)
    then show ?thesis using b(1) by (simp add: divide_right_mono)
  qed
  ultimately have near: "\<bar>of_int m * 10 powi (e0 + 1 - int p) - r\<bar> \<le> r * 5 / 10 ^ p" by linarith
  have pos: "0 \<le> m" using m(1) order_trans [of 0 "10 ^ (p - 1)" m] by simp
  have "nat m = 10 ^ p \<longleftrightarrow> m = 10 ^ p" using pos by (simp add: nat_eq_iff)
  then have s: "sig_digits p r = (if m = 10 ^ p then (10 ^ (p - 1), e0 + 1) else (nat m, e0))"
    by (simp add: sig_digits_def Let_def scale_powi m_def x_def e0_def)
  show ?thesis
  proof (cases "m = 10 ^ p")
    case True
    have "(10::rat) powi (e0 + 1 + 1 - int p) = 10 * 10 powi (e0 + 1 - int p)"
      using powi_add [of 1 "e0 + 1 - int p"] by (simp add: algebra_simps)
    moreover have "(10::rat) ^ p = 10 * 10 ^ (p - 1)" "(10::nat) ^ (p - 1) < 10 ^ p"
      using assms(2) by (cases p; simp)+
    ultimately show ?thesis using s assms(3) near True by (auto simp: algebra_simps)
  next
    case False
    then have "m < 10 ^ p" using m(2) by simp
    then have "nat m < 10 ^ p" "10 ^ (p - 1) \<le> nat m" using m(1) pos by (simp_all add: nat_less_iff le_nat_iff)
    then show ?thesis using s assms(3) near False pos by auto
  qed
qed

section \<open>Reading a number\<close>

text \<open>Digits, perhaps a point and more digits; what is left comes with the value.\<close>

definition read_fixed :: "string \<Rightarrow> rat \<times> string" where
  "read_fixed s =
     (let ip = takeWhile is_digit s; r = dropWhile is_digit s in
      if r \<noteq> [] \<and> hd r = CHR ''.'' then
        let fp = takeWhile is_digit (tl r) in
        (of_nat (nat_of_digits (ip @ fp)) / 10 ^ length fp, dropWhile is_digit (tl r))
      else (of_nat (nat_of_digits ip), r))"

definition read_positive :: "string \<Rightarrow> rat" where
  "read_positive s =
     (case read_fixed s of (v, rest) \<Rightarrow>
        (case rest of
           e # sign # ds \<Rightarrow>
             scale v (if sign = CHR ''-'' then - int (nat_of_digits ds) else int (nat_of_digits ds))
         | _ \<Rightarrow> v))"

definition read_number :: "string \<Rightarrow> rat" where
  "read_number s = (if s \<noteq> [] \<and> hd s = CHR ''-'' then - read_positive (tl s) else read_positive s)"

lemma digits_value_zeros: "digits_value a (replicate k (CHR ''0'')) = a * 10 ^ k"
  by (induction k arbitrary: a) (simp_all add: digit_val_def)

lemma strip_zeros_split: "\<exists>k. ds = strip_zeros ds @ replicate k (CHR ''0'')"
proof -
  have "\<forall>c \<in> set (takeWhile (\<lambda>c. c = CHR ''0'') (rev ds)). c = CHR ''0''" by (auto dest: set_takeWhileD)
  then obtain k where k: "takeWhile (\<lambda>c. c = CHR ''0'') (rev ds) = replicate k (CHR ''0'')"
    by (metis replicate_length_same)
  have "ds = rev (takeWhile (\<lambda>c. c = CHR ''0'') (rev ds) @ dropWhile (\<lambda>c. c = CHR ''0'') (rev ds))"
    by simp
  also have "\<dots> = strip_zeros ds @ replicate k (CHR ''0'')" unfolding k by (simp add: strip_zeros_def)
  finally show ?thesis by blast
qed

text \<open>The point and the dropped zeros do not change the value.\<close>

lemma read_with_point:
  assumes "list_all is_digit ip" "list_all is_digit zs" "list_all is_digit fs"
    and "t \<noteq> [] \<longrightarrow> \<not> is_digit (hd t) \<and> hd t \<noteq> CHR ''.''"
  shows "read_fixed (with_point ip (zs @ strip_zeros fs) @ t) =
    (of_nat (nat_of_digits (ip @ zs @ fs)) / 10 ^ length (zs @ fs), t)"
proof -
  obtain k where k: "fs = strip_zeros fs @ replicate k (CHR ''0'')" using strip_zeros_split by blast
  let ?f = "zs @ strip_zeros fs"
  have d: "list_all is_digit ?f" using assms(2,3) k by (metis list_all_append)
  have v: "nat_of_digits (ip @ zs @ fs) = nat_of_digits (ip @ ?f) * 10 ^ k"
    by (subst k) (simp add: nat_of_digits_def digits_value_append digits_value_zeros)
  have l: "length (zs @ fs) = length ?f + k" by (subst k) simp
  have tw: "takeWhile is_digit (xs @ t) = xs" "dropWhile is_digit (xs @ t) = t" if "list_all is_digit xs" for xs
  proof -
    have "takeWhile is_digit t = []" "dropWhile is_digit t = t" using assms(4) by (cases t; simp)+
    then show "takeWhile is_digit (xs @ t) = xs" "dropWhile is_digit (xs @ t) = t"
      using that by (auto simp: list_all_iff takeWhile_append dropWhile_append)
  qed
  show ?thesis
  proof (cases "?f = []")
    case True
    then have "zs = []" "fs = replicate k (CHR ''0'')" using k by auto
    then show ?thesis
      using assms(4) tw [OF assms(1)] v l True by (auto simp: read_fixed_def with_point_def Let_def)
  next
    case False
    have p: "takeWhile is_digit (ip @ CHR ''.'' # ?f @ t) = ip"
      "dropWhile is_digit (ip @ CHR ''.'' # ?f @ t) = CHR ''.'' # ?f @ t"
      using assms(1) by (auto simp: list_all_iff takeWhile_append dropWhile_append is_digit_def)
    have "read_fixed (with_point ip ?f @ t) = (of_nat (nat_of_digits (ip @ ?f)) / 10 ^ length ?f, t)"
    proof -
      have "with_point ip ?f @ t = ip @ CHR ''.'' # ?f @ t" using False by (simp add: with_point_def)
      then show ?thesis unfolding read_fixed_def Let_def using p tw [OF d] by (simp only: list.sel list.distinct) simp
    qed
    then show ?thesis unfolding v l by (simp add: power_add)
  qed
qed

section \<open>Reading a printed number\<close>

lemma digits_value_less: "list_all is_digit s \<Longrightarrow> digits_value a s < (a + 1) * 10 ^ length s"
proof (induction s arbitrary: a)
  case (Cons c s)
  then have "of_char c \<le> (57::nat)" by (simp add: is_digit_def)
  then have "digit_val c \<le> 9" by (simp add: digit_val_def)
  then have "(10 * a + digit_val c + 1) * 10 ^ length s \<le> (10 * a + 10) * 10 ^ length s"
    by (intro mult_right_mono) simp_all
  moreover have "digits_value (10 * a + digit_val c) s < (10 * a + digit_val c + 1) * 10 ^ length s"
    using Cons by simp
  ultimately have "digits_value (10 * a + digit_val c) s < (10 * a + 10) * 10 ^ length s" by (rule less_le_trans [rotated])
  then show ?case by (simp add: algebra_simps)
qed simp

lemma sig_digit_text:
  assumes "10 ^ (p - 1) \<le> n" "n < 10 ^ p" "0 < p"
  shows "length (string_of_nat n) = p"
proof -
  have "length (string_of_nat n) \<le> p" using assms(2,3) by (rule string_of_nat_length)
  moreover have "\<not> length (string_of_nat n) \<le> p - 1"
  proof
    assume l: "length (string_of_nat n) \<le> p - 1"
    have "n < 10 ^ length (string_of_nat n)"
      using digits_value_less [OF string_of_nat_digits, of 0 n] nat_of_digits_string_of_nat [of n]
      by (simp add: nat_of_digits_def)
    also have "\<dots> \<le> 10 ^ (p - 1)" using l by (intro power_increasing) simp_all
    finally show False using assms(1) by simp
  qed
  ultimately show ?thesis by simp
qed

lemma exponent_text_read:
  obtains ds where "exponent_text e = CHR ''e'' # (if e < 0 then CHR ''-'' else CHR ''+'') # ds"
    "nat_of_digits ds = nat \<bar>e\<bar>" "list_all is_digit ds"
proof
  let ?ds = "(if \<bar>e\<bar> < 10 then ''0'' else []) @ string_of_nat (nat \<bar>e\<bar>)"
  show "exponent_text e = CHR ''e'' # (if e < 0 then CHR ''-'' else CHR ''+'') # ?ds" by (simp add: exponent_text_def)
  have "digits_value 0 (CHR ''0'' # string_of_nat k) = digits_value 0 (string_of_nat k)" for k
    by (simp add: digit_val_def)
  then show "nat_of_digits ?ds = nat \<bar>e\<bar>"
    using nat_of_digits_string_of_nat [of "nat \<bar>e\<bar>"] by (simp add: nat_of_digits_def)
  show "list_all is_digit ?ds" using string_of_nat_digits by (simp add: is_digit_def)
qed

text \<open>The reader finds the digits and the exponent.\<close>

lemma read_positive_text:
  assumes "0 < r" "0 < p" "sig_digits p r = (n, e)"
  shows "read_positive (positive_text p r) = of_nat n * 10 powi (e + 1 - int p)"
proof -
  define ds where "ds = string_of_nat n"
  have d: "list_all is_digit ds" "length ds = p" "nat_of_digits ds = n"
    using sig_digits_near [OF assms] sig_digit_text [OF _ _ assms(2)] string_of_nat_digits by (simp_all add: ds_def)
  have cut: "list_all is_digit (take k ds)" "list_all is_digit (drop k ds)" for k
    using d(1) by (auto simp: list_all_iff dest: in_set_takeD in_set_dropD)
  have down: "(10::rat) powi (e + 1 - int p) = inverse (10 powi (int p - 1 - e))"
  proof -
    have "e + 1 - int p = - (int p - 1 - e)" by simp
    then show ?thesis by (simp only: power_int_minus)
  qed
  consider "e < -4 \<or> int p \<le> e" | "0 \<le> e" "e < int p" | "-4 \<le> e" "e < 0" by linarith
  then show ?thesis
  proof cases
    case 1
    obtain xs where xs: "exponent_text e = CHR ''e'' # (if e < 0 then CHR ''-'' else CHR ''+'') # xs"
      "nat_of_digits xs = nat \<bar>e\<bar>" using exponent_text_read by blast
    have "positive_text p r = with_point (take 1 ds) ([] @ strip_zeros (drop 1 ds)) @ exponent_text e"
      using 1 by (auto simp: positive_text_def assms(3) ds_def Let_def)
    moreover have "read_fixed (with_point (take 1 ds) ([] @ strip_zeros (drop 1 ds)) @ exponent_text e) =
        (of_nat n / 10 ^ (p - 1), exponent_text e)"
      using read_with_point [OF cut(1) _ cut(2), of "[]" "exponent_text e" 1 1] d
      by (simp add: xs(1) is_digit_def)
    ultimately have "read_positive (positive_text p r) = scale (of_nat n / 10 ^ (p - 1)) e"
      using xs by (auto simp: read_positive_def)
    moreover have "(10::rat) powi (e + 1 - int p) = 10 powi e / 10 ^ (p - 1)"
    proof -
      have "e + 1 - int p = e + - int (p - 1)" using assms(2) by simp
      then show ?thesis by (simp only: powi_add power_int_minus power_int_of_nat divide_inverse)
    qed
    ultimately show ?thesis by (simp add: scale_powi)
  next
    case 2
    then have "positive_text p r = with_point (take (nat (e + 1)) ds) ([] @ strip_zeros (drop (nat (e + 1)) ds)) @ []"
      by (simp add: positive_text_def assms(3) ds_def Let_def)
    then have "read_positive (positive_text p r) = of_nat n / 10 ^ (p - nat (e + 1))"
      using read_with_point [OF cut(1) _ cut(2), of "[]" "[]" "nat (e + 1)" "nat (e + 1)"] d
      by (simp add: read_positive_def)
    moreover have "int p - 1 - e = int (p - nat (e + 1))" using 2 by simp
    ultimately show ?thesis unfolding down by (simp only: power_int_of_nat divide_inverse)
  next
    case 3
    let ?z = "replicate (nat (- e - 1)) (CHR ''0'')"
    have "positive_text p r = with_point ''0'' (?z @ strip_zeros ds) @ []"
      using 3 by (simp add: positive_text_def assms(3) ds_def Let_def)
    moreover have "nat_of_digits (''0'' @ ?z @ ds) = n"
      using d(3) by (simp add: nat_of_digits_def digits_value_append digits_value_zeros digit_val_def)
    ultimately have "read_positive (positive_text p r) = of_nat n / 10 ^ (nat (- e - 1) + p)"
      using read_with_point [of "''0''" ?z ds "[]"] d
      by (simp add: read_positive_def is_digit_def list_all_iff)
    moreover have "int p - 1 - e = int (nat (- e - 1) + p)" using 3 by simp
    ultimately show ?thesis unfolding down by (simp only: power_int_of_nat divide_inverse)
  qed
qed

lemma with_point_digits:
  "set (with_point ip fp) \<subseteq> insert (CHR ''.'') (set ip \<union> set fp)"
  by (auto simp: with_point_def)

lemma strip_zeros_subset: "set (strip_zeros ds) \<subseteq> set ds"
  by (auto simp: strip_zeros_def dest: set_dropWhileD)

lemma positive_text_chars:
  "set (positive_text p r) \<subseteq> {c. is_digit c} \<union> {CHR ''.'', CHR ''e'', CHR ''+'', CHR ''-''}"
proof -
  obtain n e where ne: "sig_digits p r = (n, e)" by (cases "sig_digits p r")
  have d: "set (string_of_nat k) \<subseteq> {c. is_digit c}" for k
    using string_of_nat_digits [of k] by (auto simp: list_all_iff)
  have z: "is_digit (CHR ''0'')" by (simp add: is_digit_def)
  obtain xs where x: "exponent_text e = CHR ''e'' # (if e < 0 then CHR ''-'' else CHR ''+'') # xs" "list_all is_digit xs"
    using exponent_text_read by blast
  let ?ds = "string_of_nat n"
  have "set (with_point (take k ?ds) (strip_zeros (drop k ?ds))) \<subseteq> {c. is_digit c} \<union> {CHR ''.''}" for k
    using with_point_digits [of "take k ?ds" "strip_zeros (drop k ?ds)"] strip_zeros_subset [of "drop k ?ds"] d [of n]
      set_take_subset [of k ?ds] set_drop_subset [of k ?ds] by blast
  moreover have "set (with_point ''0'' (replicate k (CHR ''0'') @ strip_zeros ?ds)) \<subseteq> {c. is_digit c} \<union> {CHR ''.''}" for k
  proof -
    have "set (replicate k (CHR ''0'') @ strip_zeros ?ds) \<subseteq> {c. is_digit c}"
      using strip_zeros_subset [of ?ds] d [of n] z by (auto simp: set_replicate_conv_if)
    moreover have "set ''0'' \<subseteq> {c. is_digit c}" using z by simp
    ultimately show ?thesis using with_point_digits by blast
  qed
  moreover have "set (exponent_text e) \<subseteq> {c. is_digit c} \<union> {CHR ''e'', CHR ''+'', CHR ''-''}"
    using x by (auto simp: list_all_iff)
  ultimately show ?thesis
    by (simp add: positive_text_def ne Let_def) blast
qed

lemma print_double_no_newline: "CHR 0x0A \<notin> set (print_double p r)"
  using positive_text_chars [of p r] positive_text_chars [of p "- r"]
  by (auto simp: print_double_def is_digit_def)

lemma positive_text_head:
  assumes "0 < r"
  shows "positive_text p r \<noteq> [] \<and> hd (positive_text p r) \<noteq> CHR ''-''"
proof -
  obtain n e where ne: "sig_digits p r = (n, e)" by (cases "sig_digits p r")
  obtain c cs where c: "string_of_nat n = c # cs" "is_digit c"
    using string_of_nat_digits [of n] isDigitString_string_of_nat [of n]
    by (cases "string_of_nat n") (auto simp: isDigitString_def)
  have t: "take (nat (e + 1)) (c # cs) = c # take (nat (e + 1) - 1) cs" if "0 \<le> e"
    using that by (cases "nat (e + 1)") auto
  show ?thesis using c t is_digit_props [OF c(2)]
    by (auto simp: positive_text_def ne Let_def with_point_def)
qed

text \<open>What is printed with \<open>p\<close> digits reads back as the number, up to half a unit of the last one.\<close>

lemma print_double_near:
  assumes "0 < p"
  shows "\<bar>read_number (print_double p r) - r\<bar> \<le> \<bar>r\<bar> * 5 / 10 ^ p"
proof -
  have near: "\<bar>read_positive (positive_text p q) - q\<bar> \<le> q * 5 / 10 ^ p" if "0 < q" for q
    using sig_digits_near [OF that assms] read_positive_text [OF that assms] by (cases "sig_digits p q") auto
  consider "r = 0" | "0 < r" | "r < 0" by linarith
  then show ?thesis
  proof cases
    case 1
    then show ?thesis
      by (simp add: print_double_def read_number_def read_positive_def read_fixed_def is_digit_def
          nat_of_digits_def digit_val_def Let_def)
  next
    case 2
    then show ?thesis using near [OF 2] positive_text_head [OF 2] by (simp add: print_double_def read_number_def)
  next
    case 3
    then show ?thesis using near [of "- r"] by (simp add: print_double_def read_number_def)
  qed
qed

text \<open>The metrics page is exact to one part in 200000, the status page to one in 2000.\<close>

lemma formatDouble_near: "\<bar>read_number (formatDouble r) - r\<bar> \<le> \<bar>r\<bar> / 200000"
  using print_double_near [of 6 r] by (simp add: formatDouble_def)

end
