(* ===== verification/Prometheus_Props.thy ===== *)
theory Prometheus_Props
  imports Prometheus Format_Double_Props
begin

text \<open>
  Properties of the metrics page: a scraper that takes it apart gets back exactly the samples that
  were written, and the counters as numbers.
\<close>

section \<open>Lines\<close>

lemma text_lines_line:
  "CHR 0x0A \<notin> set l \<Longrightarrow> text_lines acc (l @ CHR 0x0A # rest) = (rev acc @ l) # text_lines [] rest"
  by (induction l arbitrary: acc) auto

text \<open>A byte of UTF-8 is a newline only if it is the newline.\<close>

lemma char_not_newline: "k mod 256 \<noteq> 10 \<Longrightarrow> char_of (k :: nat) \<noteq> CHR 0x0A"
proof
  assume "k mod 256 \<noteq> 10" "char_of k = CHR 0x0A"
  then have "(of_char (char_of k :: char) :: nat) = of_char (CHR 0x0A)" by simp
  with \<open>k mod 256 \<noteq> 10\<close> show False by simp
qed

lemma utf8_newline:
  assumes "n \<noteq> 10" "n < 0x110000"
  shows "CHR 0x0A \<notin> set (utf8 n)"
proof -
  have lead: "char_of (k :: nat) \<noteq> CHR 0x0A" if "128 \<le> k" "k < 256" for k
    using that by (intro char_not_newline) simp
  have trail: "char_of (128 + j mod 64 :: nat) \<noteq> CHR 0x0A" for j
    using mod_less_divisor [of 64 j] by (intro lead) linarith+
  consider "n < 0x80" | "0x80 \<le> n" "n < 0x800" | "0x800 \<le> n" "n < 0x10000" | "0x10000 \<le> n" by linarith
  then show ?thesis
  proof cases
    case 1
    then show ?thesis using assms(1) char_not_newline [of n] by (simp add: utf8_def)
  next
    case 2
    then have "char_of (0xC0 + n div 0x40) \<noteq> CHR 0x0A" by (intro lead) auto
    then show ?thesis using 2 trail by (simp add: utf8_def) metis
  next
    case 3
    then have "char_of (0xE0 + n div 0x1000) \<noteq> CHR 0x0A" by (intro lead) auto
    then show ?thesis using 3 trail by (simp add: utf8_def) metis
  next
    case 4
    then have "char_of (0xF0 + n div 0x40000) \<noteq> CHR 0x0A" using assms(2) by (intro lead) auto
    then show ?thesis using 4 trail by (simp add: utf8_def) metis
  qed
qed

section \<open>Families\<close>

text \<open>A family whose parts cannot be confused with the layout.\<close>

definition sample_ok :: "string \<times> string \<Rightarrow> bool" where
  "sample_ok p \<longleftrightarrow> CHR '' '' \<notin> set (fst p) \<and> CHR 0x0A \<notin> set (fst p) \<and> CHR 0x0A \<notin> set (snd p)"

definition family_ok :: "family \<Rightarrow> bool" where
  "family_ok f \<longleftrightarrow> (case f of (name, kind, help, samples) \<Rightarrow>
     name \<noteq> [] \<and> hd name \<noteq> CHR ''#'' \<and> CHR '' '' \<notin> set name \<and> CHR 0x0A \<notin> set name \<and>
     CHR 0x0A \<notin> set kind \<and> list_all (\<lambda>n. n \<noteq> 10 \<and> n < 0x110000) help \<and> list_all sample_ok samples)"

lemma utf8_text_newline: "list_all (\<lambda>n. n \<noteq> 10 \<and> n < 0x110000) ns \<Longrightarrow> CHR 0x0A \<notin> set (utf8_text ns)"
  by (induction ns) (simp_all add: utf8_text_def utf8_newline)

lemma split_sample_line:
  "CHR '' '' \<notin> set a \<Longrightarrow> split_sample (a @ CHR '' '' # v) = (a, v)"
  by (induction a) (auto simp: split_sample_def)

lemma scrape_samples:
  assumes "name \<noteq> []" "hd name \<noteq> CHR ''#''" "CHR '' '' \<notin> set name" "CHR 0x0A \<notin> set name"
  shows "list_all sample_ok samples \<Longrightarrow>
    scrape (concat (map (sample_line name) samples) @ rest) = map (\<lambda>(s, v). (name @ s, v)) samples @ scrape rest"
proof (induction samples)
  case (Cons p samples)
  obtain s v where p: "p = (s, v)" by (cases p)
  have ok: "CHR '' '' \<notin> set s" "CHR 0x0A \<notin> set s" "CHR 0x0A \<notin> set v"
    using Cons.prems by (simp_all add: p sample_ok_def)
  define l where "l = (name @ s) @ CHR '' '' # v"
  have "CHR 0x0A \<notin> set l" using ok assms(4) by (simp add: l_def)
  note line = text_lines_line [OF this, of "[]"]
  have "\<not> is_comment l" using assms(1,2) by (cases name) (simp_all add: l_def is_comment_def)
  moreover have "split_sample l = (name @ s, v)"
    unfolding l_def using ok assms(3) by (intro split_sample_line) simp
  moreover have "concat (map (sample_line name) (p # samples)) @ rest =
      l @ CHR 0x0A # concat (map (sample_line name) samples) @ rest"
    by (simp add: p sample_line_def l_def)
  ultimately show ?case
    using Cons by (simp add: scrape_def line p)
qed simp

lemma scrape_comment:
  assumes "CHR 0x0A \<notin> set l"
  shows "scrape ((CHR ''#'' # l) @ CHR 0x0A # rest) = scrape rest"
  using text_lines_line [of "CHR ''#'' # l" "[]" rest] assms
  by (simp add: scrape_def is_comment_def del: text_lines.simps)

lemma scrape_family:
  assumes "family_ok f"
  shows "scrape (family_text f @ rest) = family_samples f @ scrape rest"
proof -
  obtain name kind doc samples where f: "f = (name, kind, doc, samples)" by (cases f) auto
  note ok = assms [unfolded f family_ok_def prod.case]
  let ?h = "'' HELP '' @ name @ '' '' @ utf8_text doc" and ?t = "'' TYPE '' @ name @ '' '' @ kind"
  have e: "family_text f @ rest = (CHR ''#'' # ?h) @ CHR 0x0A # (CHR ''#'' # ?t) @ CHR 0x0A #
      concat (map (sample_line name) samples) @ rest"
    by (simp add: f family_text_def)
  have h: "CHR 0x0A \<notin> set ?h" "CHR 0x0A \<notin> set ?t" using ok utf8_text_newline by auto
  show ?thesis
    unfolding e scrape_comment [OF h(1)] scrape_comment [OF h(2)]
    using scrape_samples [of name samples rest] ok by (simp add: f family_samples_def)
qed

lemma scrape_families:
  "list_all family_ok fs \<Longrightarrow> scrape (concat (map family_text fs)) = concat (map family_samples fs)"
  by (induction fs) (simp_all add: scrape_family, simp add: scrape_def)

section \<open>The page\<close>

lemma digits_safe:
  assumes "list_all is_digit s"
  shows "CHR 0x0A \<notin> set s" "CHR '' '' \<notin> set s"
  using assms by (auto simp: list_all_iff is_digit_def)

lemma number_safe: "CHR 0x0A \<notin> set (string_of_nat n)" "CHR 0x0A \<notin> set (show_word w)"
    "CHR 0x0A \<notin> set (string_of_int i)"
  using digits_safe [OF string_of_nat_digits] by (auto simp: show_word_def string_of_int_def)

text \<open>Samples whose labels come from a fixed list, whatever the list of values is.\<close>

lemma labelled_ok:
  assumes "list_all (\<lambda>c. sample_ok (label pre key c, [])) cs"
  shows "list_all sample_ok (map (\<lambda>(c, w). (label pre key c, show_word w)) (zip cs ws))"
  using assms set_zip_leftD number_safe by (fastforce simp: list_all_iff sample_ok_def)

lemma prometheus_families_ok: "list_all family_ok (prometheus_families n sn)"
proof -
  have l: "sample_ok (label pre key c, v)"
    if "sample_ok (pre, v)" "sample_ok (key, v)" "sample_ok (c, v)" for pre key c v
    using that by (simp add: sample_ok_def label_def DQ_def)
  have s: "sample_ok (c, v)" if "list_all (\<lambda>x. x \<noteq> CHR '' '' \<and> x \<noteq> CHR 0x0A) c" "CHR 0x0A \<notin> set v" for c v
    using that by (auto simp: sample_ok_def list_all_iff)
  have z: "list_all sample_ok (map (\<lambda>(c, w). (label pre key c, show_word w)) (zip cs ws))"
    if "list_all (list_all (\<lambda>x. x \<noteq> CHR '' '' \<and> x \<noteq> CHR 0x0A)) (pre # key # cs)" for pre key cs ws
  proof (rule labelled_ok, unfold list_all_iff [of _ cs], rule ballI)
    fix c
    assume "c \<in> set cs"
    then have "sample_ok (c, [])" using that by (intro s) (simp_all add: list_all_iff [of _ cs])
    moreover have "sample_ok (pre, [])" "sample_ok (key, [])" using that by (simp_all add: s)
    ultimately show "sample_ok (label pre key c, [])" by (intro l)
  qed
  show ?thesis
    using print_double_no_newline number_safe
    by (simp add: prometheus_families_def Let_def family_ok_def z l s kBoundNames_def formatDouble_def)
qed

text \<open>The counters without labels.\<close>

definition plain_counters :: "snapshot \<Rightarrow> (string \<times> 64 word) list" where
  "plain_counters sn = (let m = sn_counters sn in
     [(''myself_connections_total'', mt_connectionsTotal m),
      (''myself_connections_rejected_total'', mt_connectionsRejected m),
      (''myself_connections_max'', mt_connectionsMax m),
      (''myself_requests_total'', mt_requestsTotal m),
      (''myself_requests_rate_limited_total'', mt_requestsRateLimited m),
      (''myself_requests_not_modified_total'', mt_requestsNotModified m),
      (''myself_requests_proxy_total'', mt_requestsProxy m),
      (''myself_requests_proxy_errors_total'', mt_requestsProxyErrors m),
      (''myself_errors_total'', mt_errorsTotal m),
      (''myself_bytes_read_total'', mt_bytesReadTotal m),
      (''myself_bytes_written_total'', mt_bytesWrittenTotal m),
      (''myself_request_latency_ms_count'', mt_latencyCount m)])"

text \<open>The numbers printed as doubles.\<close>

definition plain_doubles :: "snapshot \<Rightarrow> (string \<times> rat) list" where
  "plain_doubles sn =
     [(''myself_request_latency_ms_sum'', sn_latencySumMs sn),
      (label ''myself_request_latency_ms_quantile'' ''quantile'' ''0.5'', sn_latencyP50Ms sn),
      (label ''myself_request_latency_ms_quantile'' ''quantile'' ''0.95'', sn_latencyP95Ms sn),
      (label ''myself_request_latency_ms_quantile'' ''quantile'' ''0.99'', sn_latencyP99Ms sn)]"

text \<open>The names of the finite buckets are their printed bounds.\<close>

lemma bound_names: "kBoundNames = map formatDouble kBoundsMs @ [''+Inf'']"
  by (simp add: kBoundNames_def kBoundsMs_def formatDouble_def print_double_def positive_text_def
      sig_digits_def dec_exp.simps scale_def half_even_def string_of_nat.simps strip_zeros_def
      with_point_def digit_char_def char_of_def bit_0 Let_def)

text \<open>
  C31: the metrics page can be read back. A scraper that drops the comment lines and splits the
  others at their first space finds exactly the samples of the families, in order, none lost in a
  help text; every plain counter, read as a number, is the value of the metrics; and the latency
  sum and the quantiles, printed with six digits, are off by at most one part in 200000.
\<close>

theorem prometheus_roundtrip:
  "scrape (renderPrometheus n sn) = concat (map family_samples (prometheus_families n sn)) \<and>
   list_all (\<lambda>(name, w). \<exists>v. (name, v) \<in> set (scrape (renderPrometheus n sn)) \<and> strtoul v = unat w)
     (plain_counters sn) \<and>
   list_all (\<lambda>(name, x). \<exists>v. (name, v) \<in> set (scrape (renderPrometheus n sn)) \<and>
     \<bar>read_number v - x\<bar> \<le> \<bar>x\<bar> / 200000) (plain_doubles sn)"
proof -
  have e: "scrape (renderPrometheus n sn) = concat (map family_samples (prometheus_families n sn))"
    unfolding renderPrometheus_def by (rule scrape_families [OF prometheus_families_ok])
  have r: "strtoul (show_word w) = unat w" for w
    using unsigned_less [of w, where ?'a = nat] by (simp add: show_word_def strtoul_string_of_nat)
  have c: "list_all (\<lambda>(name, w). (name, show_word w) \<in>
      set (concat (map family_samples (prometheus_families n sn)))) (plain_counters sn)"
    by (simp add: plain_counters_def prometheus_families_def family_samples_def Let_def)
  have "list_all (\<lambda>(name, x). (name, formatDouble x) \<in>
      set (concat (map family_samples (prometheus_families n sn)))) (plain_doubles sn)"
    by (simp add: plain_doubles_def prometheus_families_def family_samples_def label_def Let_def)
  with c show ?thesis unfolding e using r formatDouble_near by (fastforce simp: list_all_iff)
qed

definition demo_snapshot :: snapshot where
  "demo_snapshot = metrics_snapshot 5000000000 (onBytesRead 77 (metrics_reset 0))"

theorem prometheus_roundtrip_witness:
  "\<exists>v. (''myself_bytes_read_total'', v) \<in> set (scrape (renderPrometheus 3 demo_snapshot)) \<and> strtoul v = 77"
  using conjunct1 [OF conjunct2 [OF prometheus_roundtrip [of 3 demo_snapshot]]]
  by (simp add: plain_counters_def Let_def demo_snapshot_def metrics_snapshot_def onBytesRead_def metrics_reset_def)

end
