(* ===== verification/Server_Options.thy ===== *)
theory Server_Options
  imports Complex_Main Prelude Reverse_Proxy
begin

text \<open>
  The command line of \<open>main.cpp\<close>: the options record, \<open>parseArgs\<close>, and the proxy options made
  from the \<open>-P\<close> value. \<open>strtod\<close> is a parameter: what the C library makes of a number text, as a
  rational. What goes to the console is a value beside the result.
\<close>

section \<open>Options\<close>

record server_options =
  op_port :: int
  op_wwwRoot :: string
  op_ioThreads :: nat
  op_workerThreads :: nat
  op_idleTimeoutSeconds :: rat
  op_logLevel :: string
  op_logDir :: string
  op_logRollSizeMb :: nat
  op_quiet :: bool
  op_maxConnections :: nat
  op_rateLimitQps :: rat
  op_rateLimitBurst :: rat
  op_zeroCopyThreshold :: nat
  op_proxyPass :: string
  op_proxyPrefix :: string
  op_proxyTimeoutSeconds :: rat

definition ServerOptions_new :: server_options where
  "ServerOptions_new = \<lparr>op_port = 8080, op_wwwRoot = ''www'', op_ioThreads = 4, op_workerThreads = 0,
     op_idleTimeoutSeconds = 0, op_logLevel = ''info'', op_logDir = [], op_logRollSizeMb = 32,
     op_quiet = False, op_maxConnections = 0, op_rateLimitQps = 0, op_rateLimitBurst = 0,
     op_zeroCopyThreshold = 64 * 1024, op_proxyPass = ''127.0.0.1:8081'',
     op_proxyPrefix = ''/api/gateway'', op_proxyTimeoutSeconds = 3\<rparr>"

datatype args_result = ArgsOk | ArgsExit | ArgsError

text \<open>The options that take a value; \<^term>\<open>None\<close> for a name that is none of them.\<close>

definition set_option :: "(string \<Rightarrow> rat) \<Rightarrow> string \<Rightarrow> string \<Rightarrow> server_options \<Rightarrow> server_options option" where
  "set_option strtod a v opts =
     (if a = ''-p'' then Some (opts\<lparr>op_port := atoi v\<rparr>)
      else if a = ''-r'' then Some (opts\<lparr>op_wwwRoot := v\<rparr>)
      else if a = ''-t'' then Some (opts\<lparr>op_ioThreads := strtoul v\<rparr>)
      else if a = ''-w'' then Some (opts\<lparr>op_workerThreads := strtoul v\<rparr>)
      else if a = ''-i'' then Some (opts\<lparr>op_idleTimeoutSeconds := strtod v\<rparr>)
      else if a = ''-l'' then Some (opts\<lparr>op_logLevel := v\<rparr>)
      else if a = ''-g'' then Some (opts\<lparr>op_logDir := v\<rparr>)
      else if a = ''-s'' then Some (opts\<lparr>op_logRollSizeMb := strtoul v\<rparr>)
      else if a = ''-m'' then Some (opts\<lparr>op_maxConnections := strtoul v\<rparr>)
      else if a = ''-R'' then Some (opts\<lparr>op_rateLimitQps := strtod v\<rparr>)
      else if a = ''-B'' then Some (opts\<lparr>op_rateLimitBurst := strtod v\<rparr>)
      else if a = ''-Z'' then Some (opts\<lparr>op_zeroCopyThreshold := strtoul v\<rparr>)
      else if a = ''-P'' \<or> a = ''--proxy-pass'' then Some (opts\<lparr>op_proxyPass := v\<rparr>)
      else if a = ''--proxy-prefix'' then Some (opts\<lparr>op_proxyPrefix := v\<rparr>)
      else None)"

text \<open>The loop over \<open>argv\<close> from its second element on.\<close>

fun parseArgs :: "(string \<Rightarrow> rat) \<Rightarrow> string list \<Rightarrow> server_options \<Rightarrow> args_result \<times> server_options" where
  "parseArgs strtod [] opts = (ArgsOk, opts)"
| "parseArgs strtod (a # rest) opts =
     (if a = ''-h'' \<or> a = ''--help'' then (ArgsExit, opts)
      else if a = ''-q'' then parseArgs strtod rest (opts\<lparr>op_quiet := True\<rparr>)
      else case rest of
        [] \<Rightarrow> (ArgsError, opts)
      | v # rest' \<Rightarrow>
          (case set_option strtod a v opts of
             None \<Rightarrow> (ArgsError, opts)
           | Some opts' \<Rightarrow> parseArgs strtod rest' opts'))"

section \<open>The usage text\<close>

text \<open>One line for an option: its name, then the rest of the line.\<close>

definition usage_options :: "(string \<times> string) list" where
  "usage_options =
     [(''-p'', '' port          '' @ utf8_text [0x76d1, 0x542c, 0x7aef, 0x53e3, 0xff0c, 0x9ed8,
        0x8ba4] @ '' 8080''),
      (''-r'', '' wwwRoot       '' @ utf8_text [0x9759, 0x6001, 0x8d44, 0x6e90, 0x76ee, 0x5f55,
        0xff0c, 0x9ed8, 0x8ba4] @ '' www''),
      (''-t'', '' ioThreads     IO '' @ utf8_text [0x7ebf, 0x7a0b, 0x6570, 0xff0c, 0x9ed8,
        0x8ba4] @ '' 4'' @ utf8_text [0xff0c] @ ''0 '' @ utf8_text [0x8868, 0x793a, 0x5355,
        0x7ebf, 0x7a0b]),
      (''-w'', '' workerThreads '' @ utf8_text [0x8ba1, 0x7b97, 0x7ebf, 0x7a0b, 0x6c60, 0x5927,
        0x5c0f, 0xff0c, 0x9ed8, 0x8ba4] @ '' 0'' @ utf8_text [0xff08, 0x5173, 0x95ed, 0xff09]),
      (''-i'', '' idleSeconds   '' @ utf8_text [0x7a7a, 0x95f2, 0x8fde, 0x63a5, 0x8d85, 0x65f6,
        0x79d2, 0x6570, 0xff0c, 0x9ed8, 0x8ba4] @ '' 0'' @ utf8_text [0xff08, 0x4e0d, 0x542f,
        0x7528, 0xff09]),
      (''-m'', '' maxConnections '' @ utf8_text [0x6700, 0x5927, 0x5e76, 0x53d1, 0x8fde,
        0x63a5, 0x6570, 0xff0c, 0x9ed8, 0x8ba4] @ '' 0'' @ utf8_text [0xff08, 0x4e0d, 0x9650,
        0x5236, 0xff09, 0xff0c, 0x8d85, 0x51fa, 0x8fd4, 0x56de] @ '' 503''),
      (''-R'', '' rateLimitQps  '' @ utf8_text [0x4ee4, 0x724c, 0x6876, 0x9650, 0x6d41, 0x901f,
        0x7387] @ '' (QPS)'' @ utf8_text [0xff0c, 0x9ed8, 0x8ba4] @ '' 0'' @ utf8_text [0xff08,
        0x4e0d, 0x9650, 0x5236, 0xff09, 0xff0c, 0x8d85, 0x51fa, 0x8fd4, 0x56de] @ '' 429''),
      (''-B'', '' burst         '' @ utf8_text [0x4ee4, 0x724c, 0x6876, 0x7a81, 0x53d1, 0x5bb9,
        0x91cf] @ '' (Burst)'' @ utf8_text [0xff0c, 0x9ed8, 0x8ba4, 0x4e0e] @
        '' rateLimitQps '' @ utf8_text [0x76f8, 0x540c]),
      (''-Z'', '' zeroCopyBytes '' @ utf8_text [0x96f6, 0x62f7, 0x8d1d, 0x9608, 0x503c,
        0xff1a] @ ''>=('' @ utf8_text [0x5b57, 0x8282] @ '') '' @ utf8_text [0x7684, 0x9759,
        0x6001, 0x6587, 0x4ef6, 0x8d70] @ '' sendfile'' @ utf8_text [0xff0c, 0x9ed8, 0x8ba4] @
        '' 65536'' @ utf8_text [0xff0c] @ ''0 '' @ utf8_text [0x8868, 0x793a, 0x5173, 0x95ed]),
      (''-P'', '' proxyTarget   '' @ utf8_text [0x53cd, 0x5411, 0x4ee3, 0x7406, 0x4e0a, 0x6e38,
        0x5730, 0x5740, 0xff0c, 0x9ed8, 0x8ba4] @ '' 127.0.0.1:8081'' @ utf8_text [0xff08,
        0x8bbe, 0x4e3a] @ '' none '' @ utf8_text [0x5173, 0x95ed, 0xff09]),
      (''--proxy-prefix'', '' prefix '' @ utf8_text [0x53cd, 0x5411, 0x4ee3, 0x7406, 0x8def,
        0x7531, 0x524d, 0x7f00, 0xff0c, 0x9ed8, 0x8ba4] @ '' /api/gateway''),
      (''-l'', '' logLevel      '' @ utf8_text [0x65e5, 0x5fd7, 0x7ea7, 0x522b] @
        '' trace/debug/info/warn/error'' @ utf8_text [0xff0c, 0x9ed8, 0x8ba4] @ '' info''),
      (''-g'', '' logDir        '' @ utf8_text [0x65e5, 0x5fd7, 0x76ee, 0x5f55, 0xff08, 0x542f,
        0x7528, 0x5f02, 0x6b65, 0x843d, 0x76d8, 0xff09, 0xff0c, 0x9ed8, 0x8ba4, 0x53ea, 0x8f93,
        0x51fa, 0x63a7, 0x5236, 0x53f0]),
      (''-s'', '' rollSizeMb    '' @ utf8_text [0x5355, 0x4e2a, 0x65e5, 0x5fd7, 0x6587, 0x4ef6,
        0x5927, 0x5c0f, 0x4e0a, 0x9650, 0xff0c, 0x9ed8, 0x8ba4] @ '' 32MB''),
      (''-q'', ''               '' @ utf8_text [0x9759, 0x9ed8, 0x6a21, 0x5f0f, 0xff1a, 0x53ea,
        0x5199, 0x6587, 0x4ef6, 0x6216, 0x4e22, 0x5f03, 0xff0c, 0x4e0d, 0x8f93, 0x51fa, 0x5230,
        0x63a7, 0x5236, 0x53f0]),
      (''-h'', ''               '' @ utf8_text [0x663e, 0x793a, 0x5e2e, 0x52a9])]"

definition printUsage :: "string \<Rightarrow> string" where
  "printUsage program =
     ''usage: '' @ program @ '' [-p port] [-r wwwRoot] [-t ioThreads] '' @
     ''[-w workerThreads] [-i idleSeconds] [-m maxConnections]'' @ [CHR 0x0A] @
     ''       [-R rateLimitQps] [-B rateLimitBurst] [-Z zeroCopyBytes]'' @ [CHR 0x0A] @
     ''       [-P proxyTarget] [--proxy-prefix prefix]'' @ [CHR 0x0A] @
     ''       [-l logLevel] [-g logDir] [-s rollSizeMb] [-q] [-h]'' @ [CHR 0x0A] @
     concat (map (\<lambda>(option, line). ''  '' @ option @ line @ [CHR 0x0A]) usage_options)"

text \<open>
  What \<open>parseArgs\<close> writes to the standard output and the standard error on its way through the
  arguments after the program name.
\<close>

fun args_output :: "string \<Rightarrow> string list \<Rightarrow> string \<times> string" where
  "args_output program [] = ([], [])"
| "args_output program (a # rest) =
     (if a = ''-h'' \<or> a = ''--help'' then (printUsage program, [])
      else if a = ''-q'' then args_output program rest
      else case rest of
        [] \<Rightarrow> (printUsage program, ''unknown or incomplete argument: '' @ a @ [CHR 0x0A])
      | v # rest' \<Rightarrow>
          (case set_option (\<lambda>_. 0) a v ServerOptions_new of
             None \<Rightarrow> (printUsage program, ''unknown or incomplete argument: '' @ a @ [CHR 0x0A])
           | Some _ \<Rightarrow> args_output program rest'))"

lemma set_option_name: "set_option strtod a v opts = None \<longleftrightarrow> set_option strtod' a v' opts' = None"
  by (simp add: set_option_def)

text \<open>
  The server starts exactly when nothing was printed; the usage goes with every other result, and
  the standard error with an error only.
\<close>

lemma args_output_result:
  "fst (parseArgs strtod args opts) = ArgsOk \<longleftrightarrow> args_output program args = ([], [])"
  "fst (parseArgs strtod args opts) = ArgsExit \<longleftrightarrow> args_output program args = (printUsage program, [])"
proof -
  have u: "printUsage program \<noteq> []" by (simp add: printUsage_def)
  have "(fst (parseArgs strtod args opts) = ArgsOk \<longleftrightarrow> args_output program args = ([], [])) \<and>
    (fst (parseArgs strtod args opts) = ArgsExit \<longleftrightarrow> args_output program args = (printUsage program, []))"
  proof (induction strtod args opts rule: parseArgs.induct)
    case (2 strtod a rest opts)
    show ?case
    proof (cases rest)
      case (Cons v rest')
      then show ?thesis
        using "2.IH" u set_option_name [of strtod a v opts "\<lambda>_. 0" v ServerOptions_new]
        by (auto split: option.split)
    qed (use "2.IH"(1) u in simp)
  qed (use u in simp)
  then show "fst (parseArgs strtod args opts) = ArgsOk \<longleftrightarrow> args_output program args = ([], [])"
    "fst (parseArgs strtod args opts) = ArgsExit \<longleftrightarrow> args_output program args = (printUsage program, [])"
    by simp_all
qed

text \<open>Every option is in the usage text, apart from the long forms of \<open>-P\<close> and \<open>-h\<close>.\<close>

lemma usage_complete:
  "set_option strtod a v opts \<noteq> None \<or> a = ''-q'' \<or> a = ''-h'' \<Longrightarrow>
     a = ''--proxy-pass'' \<or> a \<in> fst ` set usage_options"
  by (auto simp: set_option_def usage_options_def split: if_splits)

text \<open>The proxy of the options: host and port of the \<open>-P\<close> value, port 80 without a colon.\<close>

definition proxy_of_options :: "server_options \<Rightarrow> proxy_options" where
  "proxy_of_options opts =
     (let p = ProxyOptions_new\<lparr>po_prefix := op_proxyPrefix opts,
            po_timeoutSeconds := op_proxyTimeoutSeconds opts,
            po_enabled := (op_proxyPass opts \<noteq> [] \<and> op_proxyPass opts \<noteq> ''none'')\<rparr> in
      if po_enabled p then
        (case find_char (CHR '':'') (op_proxyPass opts) of
           Some colon \<Rightarrow> p\<lparr>po_targetHost := substr (op_proxyPass opts) 0 colon,
             po_targetPort := strtoul (substr_from (op_proxyPass opts) (colon + 1)) mod 2 ^ 16\<rparr>
         | None \<Rightarrow> p\<lparr>po_targetHost := op_proxyPass opts, po_targetPort := 80\<rparr>)
      else p)"

section \<open>Writing a command line\<close>

definition option_args :: "(rat \<Rightarrow> string) \<Rightarrow> server_options \<Rightarrow> string list" where
  "option_args show opts =
     [''-p'', string_of_int (op_port opts), ''-r'', op_wwwRoot opts,
      ''-t'', string_of_nat (op_ioThreads opts), ''-w'', string_of_nat (op_workerThreads opts),
      ''-i'', show (op_idleTimeoutSeconds opts), ''-l'', op_logLevel opts, ''-g'', op_logDir opts,
      ''-s'', string_of_nat (op_logRollSizeMb opts), ''-m'', string_of_nat (op_maxConnections opts),
      ''-R'', show (op_rateLimitQps opts), ''-B'', show (op_rateLimitBurst opts),
      ''-Z'', string_of_nat (op_zeroCopyThreshold opts), ''-P'', op_proxyPass opts,
      ''--proxy-prefix'', op_proxyPrefix opts] @ (if op_quiet opts then [''-q''] else [])"

text \<open>
  Writing the options as a command line and parsing it gives the options back, whatever the
  options were before, for a port in the range of \<open>int\<close>, counts below \<open>2 ^ 64\<close> and any number
  format \<open>strtod\<close> reads back. The proxy timeout has no option and keeps its value, and nothing
  turns the quiet mode off again.
\<close>

lemma parse_args_roundtrip:
  assumes "- (2 ^ 31) \<le> op_port opts" "op_port opts < 2 ^ 31"
    and "\<forall>n \<in> {op_ioThreads opts, op_workerThreads opts, op_logRollSizeMb opts, op_maxConnections opts,
      op_zeroCopyThreshold opts}. n < 2 ^ 64"
    and "\<forall>r \<in> {op_idleTimeoutSeconds opts, op_rateLimitQps opts, op_rateLimitBurst opts}. strtod (show r) = r"
  shows "parseArgs strtod (option_args show opts) old =
    (ArgsOk, opts\<lparr>op_proxyTimeoutSeconds := op_proxyTimeoutSeconds old,
       op_quiet := (op_quiet opts \<or> op_quiet old)\<rparr>)"
  using assms by (simp add: option_args_def set_option_def atoi_string_of_int strtoul_string_of_nat)

lemma parse_args_roundtrip_witness:
  "parseArgs (\<lambda>s. of_nat (nat_of_digits s))
     (option_args (\<lambda>r. string_of_nat (nat \<lfloor>r\<rfloor>)) (ServerOptions_new\<lparr>op_rateLimitQps := 50, op_port := 9090\<rparr>))
     ServerOptions_new = (ArgsOk, ServerOptions_new\<lparr>op_rateLimitQps := 50, op_port := 9090\<rparr>)"
  using parse_args_roundtrip [of "ServerOptions_new\<lparr>op_rateLimitQps := 50, op_port := 9090\<rparr>"
      "\<lambda>s. of_nat (nat_of_digits s)" "\<lambda>r. string_of_nat (nat \<lfloor>r\<rfloor>)" ServerOptions_new]
  by (simp add: ServerOptions_new_def)

end
