(* ===== verification/Token_Bucket.thy ===== *)
theory Token_Bucket
  imports Complex_Main
begin

text \<open>
  \<open>util/TokenBucket\<close>: the lazily refilled token bucket of the rate limiter. Doubles are exact
  rationals here; a time point is a number of nanoseconds. Every operation takes the time the
  clock showed; the calls of several threads may present times out of order, because the code
  reads the clock before it takes the lock.
\<close>

record token_bucket =
  tb_rate :: rat
  tb_burst :: rat
  tb_tokens :: rat
  tb_lastRefill :: int

definition configure :: "rat \<Rightarrow> rat \<Rightarrow> int \<Rightarrow> token_bucket" where
  "configure rate burst now =
     (let r = max 0 rate; b = (if burst \<le> 0 then r else burst) in
      \<lparr>tb_rate = r, tb_burst = b, tb_tokens = b, tb_lastRefill = now\<rparr>)"

definition TokenBucket_new :: "rat \<Rightarrow> rat \<Rightarrow> int \<Rightarrow> token_bucket" where
  "TokenBucket_new rate burst now = configure rate burst now"

text \<open>\<open>duration_cast<microseconds>(now - lastRefillTime_).count()\<close>; truncation towards zero.\<close>

definition elapsed_us :: "int \<Rightarrow> int \<Rightarrow> int" where
  "elapsed_us t0 t1 = (if t0 \<le> t1 then (t1 - t0) div 1000 else - ((t0 - t1) div 1000))"

definition refillLocked :: "int \<Rightarrow> token_bucket \<Rightarrow> token_bucket" where
  "refillLocked now b =
     (if tb_rate b \<le> 0 then b
      else let elapsed = elapsed_us (tb_lastRefill b) now in
        if elapsed \<le> 0 then b
        else b\<lparr>tb_tokens := min (tb_burst b) (tb_tokens b + of_int elapsed / 1000000 * tb_rate b),
               tb_lastRefill := now\<rparr>)"

definition tryAcquire :: "rat \<Rightarrow> int \<Rightarrow> token_bucket \<Rightarrow> bool \<times> token_bucket" where
  "tryAcquire n now b =
     (if tb_rate b \<le> 0 \<or> n \<le> 0 then (True, b)
      else let b' = refillLocked now b in
        if n \<le> tb_tokens b' then (True, b'\<lparr>tb_tokens := tb_tokens b' - n\<rparr>)
        else (False, b'))"

definition availableTokens :: "int \<Rightarrow> token_bucket \<Rightarrow> rat" where
  "availableTokens now b =
     (if tb_rate b \<le> 0 then 0
      else let elapsed = elapsed_us (tb_lastRefill b) now in
        if 0 < elapsed
        then min (tb_burst b) (tb_tokens b + of_int elapsed / 1000000 * tb_rate b)
        else tb_tokens b)"

definition isEnabled :: "token_bucket \<Rightarrow> bool" where
  "isEnabled b \<longleftrightarrow> 0 < tb_rate b"

definition bucket_reset :: "int \<Rightarrow> token_bucket \<Rightarrow> token_bucket" where
  "bucket_reset now b = b\<lparr>tb_tokens := tb_burst b, tb_lastRefill := now\<rparr>"

section \<open>The invariant\<close>

definition bucket_valid :: "token_bucket \<Rightarrow> bool" where
  "bucket_valid b \<longleftrightarrow> 0 \<le> tb_rate b \<and> (0 < tb_rate b \<longrightarrow> 0 < tb_burst b) \<and>
     0 \<le> tb_tokens b \<and> tb_tokens b \<le> tb_burst b"

text \<open>
  What a limiter built on a bucket needs of it: never more tokens than time and stock allow.
\<close>

locale credit_source =
  fixes acquire :: "rat \<Rightarrow> int \<Rightarrow> 'b \<Rightarrow> bool \<times> 'b"
    and stock :: "'b \<Rightarrow> rat"
    and clock :: "'b \<Rightarrow> int"
    and rate :: rat
    and ok :: "'b \<Rightarrow> bool"
  assumes ok_acquire: "ok b \<Longrightarrow> acquire n now b = (r, b') \<Longrightarrow> ok b'"
    and stock_nonneg: "ok b \<Longrightarrow> 0 \<le> stock b"
    and clock_acquire: "ok b \<Longrightarrow> acquire n now b = (r, b') \<Longrightarrow>
      clock b \<le> clock b' \<and> clock b' \<le> max (clock b) now"
    and credit: "ok b \<Longrightarrow> 0 < n \<Longrightarrow> acquire n now b = (r, b') \<Longrightarrow>
      (if r then n else 0) + stock b' \<le> stock b + rate * of_int (clock b' - clock b)"
begin

text \<open>The sum of the granted amounts of a run of calls.\<close>

fun granted :: "(rat \<times> int) list \<Rightarrow> 'b \<Rightarrow> rat \<times> 'b" where
  "granted [] b = (0, b)"
| "granted ((n, now) # calls) b =
     (let (r, b') = acquire n now b; (g, b'') = granted calls b' in ((if r then n else 0) + g, b''))"

lemma granted_potential:
  "ok b \<Longrightarrow> \<forall>(n, now) \<in> set calls. 0 < n \<Longrightarrow> granted calls b = (g, b') \<Longrightarrow>
     ok b' \<and> g + stock b' \<le> stock b + rate * of_int (clock b' - clock b) \<and> clock b \<le> clock b' \<and>
     clock b' \<le> fold (\<lambda>(n, now). max now) calls (clock b)"
proof (induction calls arbitrary: b g b')
  case Nil
  then show ?case by simp
next
  case (Cons c calls)
  obtain n now where c: "c = (n, now)" by (cases c)
  obtain r b1 where a: "acquire n now b = (r, b1)" by fastforce
  obtain g1 where g: "granted calls b1 = (g1, b')" "g = (if r then n else 0) + g1"
    using Cons.prems(3) a by (auto simp: c split: prod.splits)
  have n: "0 < n" using Cons.prems(2) c by simp
  note ih = Cons.IH [OF ok_acquire [OF Cons.prems(1) a] _ g(1)]
  have "fold (\<lambda>(n, now). max now) calls x \<le> fold (\<lambda>(n, now). max now) calls y" if "x \<le> y" for x y :: int
    using that by (induction calls arbitrary: x y) (auto split: prod.splits)
  then have "fold (\<lambda>(n, now). max now) calls (clock b1) \<le> fold (\<lambda>(n, now). max now) calls (max now (clock b))"
    using clock_acquire [OF Cons.prems(1) a] by (simp add: max.commute)
  moreover have "rate * of_int (clock b' - clock b) =
      rate * of_int (clock b' - clock b1) + rate * of_int (clock b1 - clock b)"
    by (simp add: algebra_simps)
  ultimately show ?case
    using ih Cons.prems(2) credit [OF Cons.prems(1) n a] clock_acquire [OF Cons.prems(1) a] g(2) c
    by auto
qed

end


section \<open>The bucket is a credit source\<close>

lemma configure_valid: "bucket_valid (configure rate burst now)"
  by (auto simp: bucket_valid_def configure_def Let_def)

lemma bucket_reset_valid: "bucket_valid b \<Longrightarrow> bucket_valid (bucket_reset now b)"
  by (auto simp: bucket_valid_def bucket_reset_def)

lemma elapsed_us_pos: "0 < elapsed_us t0 t1 \<Longrightarrow> t0 < t1 \<and> 1000 * elapsed_us t0 t1 \<le> t1 - t0"
proof (cases "t0 \<le> t1")
  case True
  assume "0 < elapsed_us t0 t1"
  then have "0 < (t1 - t0) div 1000" using True by (simp add: elapsed_us_def)
  then have "t0 < t1" by (cases "t0 = t1") (simp_all add: True less_le)
  moreover have "1000 * ((t1 - t0) div 1000) \<le> t1 - t0" by simp
  ultimately show ?thesis using True by (simp add: elapsed_us_def)
next
  case False
  assume "0 < elapsed_us t0 t1"
  moreover have "0 \<le> (t0 - t1) div 1000" using False by (simp add: pos_imp_zdiv_nonneg_iff)
  ultimately show ?thesis using False by (simp add: elapsed_us_def)
qed

lemma refill_props:
  fixes now :: int
  assumes "bucket_valid b"
  defines "b' \<equiv> refillLocked now b"
  shows "bucket_valid b'" "tb_rate b' = tb_rate b" "tb_burst b' = tb_burst b"
    "tb_lastRefill b \<le> tb_lastRefill b'" "tb_lastRefill b' \<le> max (tb_lastRefill b) now"
    "tb_tokens b \<le> tb_tokens b'"
    "tb_tokens b' \<le> tb_tokens b + tb_rate b / 1000000000 * of_int (tb_lastRefill b' - tb_lastRefill b)"
proof -
  let ?e = "elapsed_us (tb_lastRefill b) now"
  have "bucket_valid b' \<and> tb_rate b' = tb_rate b \<and> tb_burst b' = tb_burst b \<and>
    tb_lastRefill b \<le> tb_lastRefill b' \<and> tb_lastRefill b' \<le> max (tb_lastRefill b) now \<and>
    tb_tokens b \<le> tb_tokens b' \<and>
    tb_tokens b' \<le> tb_tokens b + tb_rate b / 1000000000 * of_int (tb_lastRefill b' - tb_lastRefill b)"
  proof (cases "tb_rate b \<le> 0 \<or> ?e \<le> 0")
    case True
    then have "b' = b" by (auto simp: b'_def refillLocked_def)
    then show ?thesis using assms(1) by simp
  next
    case False
    let ?t = "of_int ?e / 1000000 * tb_rate b"
    have b': "b' = b\<lparr>tb_tokens := min (tb_burst b) (tb_tokens b + ?t), tb_lastRefill := now\<rparr>"
      using False by (simp add: b'_def refillLocked_def)
    have e: "tb_lastRefill b < now" "1000 * ?e \<le> now - tb_lastRefill b"
      using False elapsed_us_pos by auto
    have t1: "0 \<le> ?t" using False by simp
    have "of_int (1000 * ?e) * tb_rate b \<le> of_int (now - tb_lastRefill b) * tb_rate b"
      using False e(2) by (intro mult_right_mono) (simp_all only: of_int_le_iff, simp)
    then have t2: "?t \<le> tb_rate b / 1000000000 * of_int (now - tb_lastRefill b)"
      by (simp add: field_simps)
    define x y where "x = ?t" and "y = tb_rate b / 1000000000 * of_int (now - tb_lastRefill b)"
    have "0 \<le> x" "x \<le> y" using t1 t2 by (simp_all only: x_def y_def)
    then have "min (tb_burst b) (tb_tokens b + x) \<le> tb_tokens b + y"
      "tb_tokens b \<le> min (tb_burst b) (tb_tokens b + x)"
      using assms(1) by (simp_all add: min_le_iff_disj bucket_valid_def)
    then show ?thesis
      using assms(1) e(1) \<open>0 \<le> x\<close> unfolding b' x_def [symmetric] y_def
      by (auto simp: bucket_valid_def)
  qed
  then show "bucket_valid b'" "tb_rate b' = tb_rate b" "tb_burst b' = tb_burst b"
    "tb_lastRefill b \<le> tb_lastRefill b'" "tb_lastRefill b' \<le> max (tb_lastRefill b) now"
    "tb_tokens b \<le> tb_tokens b'"
    "tb_tokens b' \<le> tb_tokens b + tb_rate b / 1000000000 * of_int (tb_lastRefill b' - tb_lastRefill b)"
    by simp_all
qed

lemma tryAcquire_cases:
  assumes "tryAcquire n now b = (r, b')" "0 < tb_rate b" "0 < n"
  shows "b' = (if r then refillLocked now b\<lparr>tb_tokens := tb_tokens (refillLocked now b) - n\<rparr>
      else refillLocked now b)" "r \<longleftrightarrow> n \<le> tb_tokens (refillLocked now b)"
  using assms by (auto simp: tryAcquire_def Let_def split: if_splits)

lemma tryAcquire_valid:
  assumes "bucket_valid b" "tryAcquire n now b = (r, b')"
  shows "bucket_valid b' \<and> tb_rate b' = tb_rate b \<and> tb_burst b' = tb_burst b"
proof (cases "tb_rate b \<le> 0 \<or> n \<le> 0")
  case True
  then show ?thesis using assms by (auto simp: tryAcquire_def)
next
  case False
  then show ?thesis
    using tryAcquire_cases [OF assms(2)] refill_props(1-3) [OF assms(1), of now]
    by (auto simp: bucket_valid_def)
qed

interpretation tb: credit_source tryAcquire tb_tokens tb_lastRefill "R / 1000000000"
  "\<lambda>b. bucket_valid b \<and> tb_rate b = R \<and> 0 < R" for R
proof unfold_locales
  fix b b' n now r
  assume ok: "bucket_valid b \<and> tb_rate b = R \<and> 0 < R" and a: "tryAcquire n now b = (r, b')"
  then have v: "bucket_valid b" "0 < tb_rate b" by auto
  show "bucket_valid b' \<and> tb_rate b' = R \<and> 0 < R" using tryAcquire_valid [OF v(1) a] ok by simp
  show "tb_lastRefill b \<le> tb_lastRefill b' \<and> tb_lastRefill b' \<le> max (tb_lastRefill b) now"
  proof (cases "n \<le> 0")
    case True
    then show ?thesis using a by (auto simp: tryAcquire_def)
  next
    case False
    then show ?thesis
      using tryAcquire_cases [OF a v(2)] refill_props(4,5) [OF v(1), of now] by (cases r) simp_all
  qed
  assume "0 < n"
  then show "(if r then n else 0) + tb_tokens b' \<le>
      tb_tokens b + R / 1000000000 * of_int (tb_lastRefill b' - tb_lastRefill b)"
    using tryAcquire_cases [OF a v(2)] refill_props(7) [OF v(1), of now] ok by (cases r) simp_all
qed (simp add: bucket_valid_def)

section \<open>The limiter\<close>

text \<open>A run of \<open>tryAcquire\<close> calls and the sum of what it granted.\<close>

fun acquire_run :: "(rat \<times> int) list \<Rightarrow> token_bucket \<Rightarrow> rat \<times> token_bucket" where
  "acquire_run [] b = (0, b)"
| "acquire_run ((n, now) # calls) b =
     (let (r, b') = tryAcquire n now b; (g, b'') = acquire_run calls b' in
      ((if r then n else 0) + g, b''))"

lemma acquire_run_granted: "acquire_run calls b = tb.granted calls b"
  by (induction calls b rule: acquire_run.induct) (auto split: prod.splits)

text \<open>
  The long-term rate. Over any sequence of requests, granted tokens are at most the burst
  plus the rate times the span from the configuration of the bucket to the latest clock value
  presented, in whatever order the threads present them.
\<close>

lemma admission_since_configure:
  assumes "0 < rate" "acquire_run calls (configure rate burst t0) = (g, b')"
    and "\<forall>(n, now) \<in> set calls. 0 < n \<and> now \<le> t1" "t0 \<le> t1"
  shows "g \<le> (if burst \<le> 0 then rate else burst) + rate * of_int (t1 - t0) / 1000000000"
proof -
  let ?b = "configure rate burst t0"
  have r: "tb_rate ?b = rate" "tb_lastRefill ?b = t0" "tb_tokens ?b = (if burst \<le> 0 then rate else burst)"
    using assms(1) by (simp_all add: configure_def Let_def)
  have "fold (\<lambda>(n, now). max now) calls t \<le> t1" if "t \<le> t1" for t
    using assms(3) that by (induction calls arbitrary: t) auto
  from this [OF assms(4)] have f: "fold (\<lambda>(n, now). max now) calls t0 \<le> t1" .
  have pos: "\<forall>(n, now) \<in> set calls. 0 < n" using assms(3) by auto
  have "bucket_valid ?b \<and> tb_rate ?b = rate \<and> 0 < rate" using configure_valid r assms(1) by simp
  note gp = tb.granted_potential [OF this pos assms(2) [unfolded acquire_run_granted]]
  then have b: "0 \<le> tb_tokens b'" "tb_lastRefill b' \<le> t1"
    "g + tb_tokens b' \<le> tb_tokens ?b + rate / 1000000000 * of_int (tb_lastRefill b' - t0)"
    using f r(2) by (simp_all add: bucket_valid_def)
  have "rate * of_int (tb_lastRefill b' - t0) \<le> rate * of_int (t1 - t0)"
    using assms(1) b(2) by (intro mult_left_mono) simp_all
  then show ?thesis using b r by (simp add: field_simps)
qed

text \<open>A clock value that moves the refill time brings the stock to the burst at most.\<close>

lemma refill_then_run:
  assumes "0 < tb_rate b" "0 < elapsed_us (tb_lastRefill b) now" "0 < n"
  shows "acquire_run ((n, now) # calls) b = acquire_run ((n, now) # calls) (refillLocked now b)"
proof -
  have "refillLocked now (refillLocked now b) = refillLocked now b"
    using assms by (simp add: refillLocked_def elapsed_us_def)
  moreover have "tb_rate (refillLocked now b) = tb_rate b" by (simp add: refillLocked_def Let_def)
  ultimately show ?thesis using assms by (simp add: tryAcquire_def)
qed

lemma window_bound:
  assumes v: "bucket_valid b" "0 < tb_rate b" and run: "acquire_run calls b = (g, b')"
    and w: "\<forall>(n, now) \<in> set calls. 0 < n \<and> t1 \<le> now \<and> now \<le> t2" "t1 \<le> t2"
  shows "g \<le> tb_burst b + tb_rate b * of_int (t2 - t1 + 1000) / 1000000000"
proof -
  have potential: "g \<le> tb_burst c + tb_rate c / 1000000000 * of_int (max (tb_lastRefill c) t2 - tb_lastRefill c)"
    if c: "bucket_valid c" "0 < tb_rate c" "acquire_run calls c = (g, b')" for c
  proof -
    have "fold (\<lambda>(n, now). max now) calls t \<le> max t t2" for t
      using w(1)
    proof (induction calls arbitrary: t)
      case (Cons x xs)
      obtain n now where x: "x = (n, now)" by (cases x)
      have "fold (\<lambda>(n, now). max now) xs (max now t) \<le> max (max now t) t2" using Cons by simp
      also have "\<dots> \<le> max t t2" using Cons.prems x by auto
      finally show ?case by (simp add: x)
    qed simp
    moreover have "\<forall>(n, now) \<in> set calls. 0 < n" using w(1) by auto
    note gp = tb.granted_potential [OF _ this c(3) [unfolded acquire_run_granted], of "tb_rate c"]
    ultimately have b: "0 \<le> tb_tokens b'" "tb_lastRefill b' \<le> max (tb_lastRefill c) t2"
      "g + tb_tokens b' \<le> tb_tokens c + tb_rate c / 1000000000 * of_int (tb_lastRefill b' - tb_lastRefill c)"
      using gp c order_trans by (simp_all add: bucket_valid_def) blast
    have "tb_rate c / 1000000000 * of_int (tb_lastRefill b' - tb_lastRefill c) \<le>
        tb_rate c / 1000000000 * of_int (max (tb_lastRefill c) t2 - tb_lastRefill c)"
      using c(2) b(2) by (intro mult_left_mono) simp_all
    then show ?thesis using b(1,3) c(1) by (simp add: bucket_valid_def)
  qed
  have close: "g \<le> tb_burst b + tb_rate b * of_int (t2 - t1 + 1000) / 1000000000"
    if c: "bucket_valid c" "tb_rate c = tb_rate b" "tb_burst c = tb_burst b" "acquire_run calls c = (g, b')"
      "t1 - 1000 \<le> tb_lastRefill c" for c
  proof -
    have m: "tb_rate b / 1000000000 * of_int (max (tb_lastRefill c) t2 - tb_lastRefill c) \<le>
        tb_rate b / 1000000000 * of_int (t2 - t1 + 1000)"
      using v(2) c(5) w(2) by (intro mult_left_mono) simp_all
    have "0 < tb_rate c" using v(2) c(2) by simp
    from potential [OF c(1) this c(4)] m
    have "g \<le> tb_burst b + tb_rate b / 1000000000 * of_int (t2 - t1 + 1000)" unfolding c(2,3) by linarith
    then show ?thesis by simp
  qed
  show ?thesis
  proof (cases calls)
    case Nil
    then have "g = 0" using run by simp
    moreover have "0 \<le> tb_burst b" using v by (simp add: bucket_valid_def)
    moreover have "0 \<le> tb_rate b * of_int (t2 - t1 + 1000) / 1000000000" using v(2) w(2) by simp
    ultimately show ?thesis by simp
  next
    case (Cons c0 rest)
    obtain n now where c0: "c0 = (n, now)" by (cases c0)
    have n: "0 < n" "t1 \<le> now" using w(1) Cons c0 by auto
    show ?thesis
    proof (cases "0 < elapsed_us (tb_lastRefill b) now")
      case True
      note r = refill_props [OF v(1), of now]
      have "tb_lastRefill (refillLocked now b) = now" using v(2) True by (simp add: refillLocked_def)
      then show ?thesis
        using close [OF r(1-3)] run refill_then_run [OF v(2) True n(1), of rest] n(2) Cons c0 by simp
    next
      case False
      have "now - 1000 \<le> tb_lastRefill b"
      proof (rule ccontr)
        assume "\<not> ?thesis"
        then have "1 \<le> (now - tb_lastRefill b) div 1000" "tb_lastRefill b \<le> now" by simp_all
        then show False using False by (simp add: elapsed_us_def)
      qed
      then show ?thesis using close [OF v(1) refl refl run] n(2) by simp
    qed
  qed
qed

lemma acquire_run_valid:
  "bucket_valid b \<Longrightarrow> acquire_run calls b = (g, b') \<Longrightarrow>
     bucket_valid b' \<and> tb_rate b' = tb_rate b \<and> tb_burst b' = tb_burst b"
proof (induction calls arbitrary: b g)
  case (Cons c calls)
  obtain n now where c: "c = (n, now)" by (cases c)
  obtain r b1 where a: "tryAcquire n now b = (r, b1)" by fastforce
  then show ?case using Cons tryAcquire_valid [OF Cons.prems(1) a] by (auto simp: c split: prod.splits)
qed simp

text \<open>
  C15: the admitted rate in any window of time. Take a bucket that has been used in any way since it was
  configured, however long it has been idle. What the requests of a window of clock values are granted
  is at most the burst plus the rate times the length of the window and one microsecond, the grain of the
  refill: idle time earns no more than the burst. The threads may present their clock values in any order.
\<close>

theorem bucket_admission_bound:
  assumes "0 < rate" "acquire_run before (configure rate burst t0) = (g0, b)"
    and "acquire_run calls b = (g, b')"
    and "\<forall>(n, now) \<in> set calls. 0 < n \<and> t1 \<le> now \<and> now \<le> t2" "t1 \<le> t2"
  shows "g \<le> (if burst \<le> 0 then rate else burst) + rate * of_int (t2 - t1 + 1000) / 1000000000"
proof -
  let ?c = "configure rate burst t0"
  have "tb_rate ?c = rate" "tb_burst ?c = (if burst \<le> 0 then rate else burst)"
    using assms(1) by (simp_all add: configure_def Let_def)
  then have "bucket_valid b" "tb_rate b = rate" "tb_burst b = (if burst \<le> 0 then rate else burst)"
    using acquire_run_valid [OF configure_valid assms(2)] by simp_all
  then show ?thesis using window_bound [of b calls g b' t1 t2] assms(1,3-5) by simp
qed

text \<open>
  A bucket of two, emptied of one, idle for an hour: two more are granted at once and no third.
\<close>

theorem bucket_admission_bound_witness:
  "fst (acquire_run [(1, 3600000000000), (1, 3600000000000), (1, 3600000000000)]
     (snd (acquire_run [(1, 5)] (configure 1 2 0)))) \<le> 2 + 1 * of_int (3600000000000 - 3600000000000 + 1000) / 1000000000"
  using bucket_admission_bound [of 1 "[(1, 5)]" 2 0 "fst (acquire_run [(1, 5)] (configure 1 2 0))"
      "snd (acquire_run [(1, 5)] (configure 1 2 0))" "[(1, 3600000000000), (1, 3600000000000), (1, 3600000000000)]"
      _ _ 3600000000000 3600000000000, OF _ _ prod.collapse [symmetric]]
  by (simp del: acquire_run.simps)

text \<open>
  No starvation. A request for no more than the burst is granted once the clock shows enough
  whole microseconds since the last refill for the rate to fill it, however empty the bucket was.
\<close>

lemma bucket_refills:
  assumes "bucket_valid b" "0 < tb_rate b" "n \<le> tb_burst b"
    and "n * 1000000 \<le> tb_rate b * of_int (elapsed_us (tb_lastRefill b) now)"
  shows "fst (tryAcquire n now b)"
proof (cases "n \<le> 0")
  case True
  then show ?thesis by (simp add: tryAcquire_def)
next
  case False
  then have "0 < tb_rate b * of_int (elapsed_us (tb_lastRefill b) now)" using assms(4) by simp
  then have e: "0 < elapsed_us (tb_lastRefill b) now" using assms(2) by (simp add: zero_less_mult_iff)
  have "n \<le> of_int (elapsed_us (tb_lastRefill b) now) / 1000000 * tb_rate b"
    using assms(4) by (simp add: field_simps)
  moreover have "0 \<le> tb_tokens b" using assms(1) by (simp add: bucket_valid_def)
  ultimately have "n \<le> tb_tokens (refillLocked now b)"
    using e assms(2,3) by (simp add: refillLocked_def)
  then show ?thesis by (simp add: tryAcquire_def Let_def)
qed

lemma bucket_refills_witness: "fst (tryAcquire 1 1000000000 (configure 1 1 0\<lparr>tb_tokens := 0\<rparr>))"
  by (rule bucket_refills) (simp_all add: bucket_valid_def configure_def elapsed_us_def)

text \<open>
  A bucket smaller than one request. When the burst is below the amount asked for, every
  request is refused for ever; with the default burst, the rate itself, this is what a configured
  rate below one request per second does.
\<close>

lemma small_bucket_refuses_all:
  assumes "0 < rate" "rate < 1" "\<forall>(n, now) \<in> set calls. n = 1"
  shows "fst (acquire_run calls (configure rate 0 t0)) = 0"
proof -
  have "fst (acquire_run calls b) = 0" if "bucket_valid b" "tb_rate b = rate" "tb_burst b < 1" for b
    using assms(3) that
  proof (induction calls arbitrary: b)
    case Nil
    then show ?case by simp
  next
    case (Cons c calls)
    obtain now where c: "c = (1, now)" using Cons.prems(1) by (cases c) simp
    obtain r b1 where a: "tryAcquire 1 now b = (r, b1)" by fastforce
    have "tb_tokens (refillLocked now b) \<le> tb_burst b"
      using refill_props(1,3) [OF Cons.prems(2), of now] by (simp add: bucket_valid_def)
    then have "\<not> r" using tryAcquire_cases [OF a] Cons.prems(3,4) assms(1) by simp
    moreover have "fst (acquire_run calls b1) = 0"
      using Cons.IH tryAcquire_valid [OF Cons.prems(2) a] Cons.prems by simp
    ultimately show ?case using a by (auto simp: c split: prod.splits)
  qed
  then show ?thesis
    using assms(1,2) configure_valid [of rate 0 t0] by (simp add: configure_def Let_def)
qed

lemma small_bucket_refuses_all_witness:
  "fst (acquire_run [(1, 0), (1, 1000000000000)] (configure (1 / 2) 0 0)) = 0"
  by (rule small_bucket_refuses_all) simp_all

end
