(* ===== verification/Server.thy ===== *)
theory Server
  imports Server_Options Http_Parser_Props Router Token_Bucket Prometheus Tcp_Connection
begin

text \<open>
  \<open>main.cpp\<close>: the connection table, the routes of the server, and the message callback that ties
  parser, rate limiter, router, worker pool, connection and metrics together. The callback works
  on one connection; the metrics and the bucket it shares with the others are part of the state
  it is given. The clocks and the proxy's network are parameters, indexed by the number of
  clock readings so far so that every reading may differ.
\<close>

section \<open>The connection table\<close>

type_synonym registry = "(int, nat) omap"

definition registry_add :: "int \<Rightarrow> nat \<Rightarrow> registry \<Rightarrow> registry" where
  "registry_add fd c reg = om_put fd c reg"

definition registry_remove :: "int \<Rightarrow> registry \<Rightarrow> registry" where
  "registry_remove fd reg = om_erase fd reg"

definition registry_size :: "registry \<Rightarrow> nat" where
  "registry_size reg = length reg"

text \<open>\<open>closeAll\<close> empties the table; the connections it held are handed to their loops for closing.\<close>

definition registry_closeAll :: "registry \<Rightarrow> (int \<times> nat) list \<times> registry" where
  "registry_closeAll reg = (reg, om_empty)"

section \<open>The environment\<close>

record server_env =
  se_files :: "int \<Rightarrow> string"
  se_fs :: file_sys
  se_options :: server_options
  se_forward :: "nat \<Rightarrow> http_request \<Rightarrow> string \<Rightarrow> http_response"
  se_now :: "nat \<Rightarrow> int"
  se_date :: "nat \<Rightarrow> string"
  se_timers :: "nat \<Rightarrow> nat"
  se_logLines :: "nat \<Rightarrow> nat"
  se_peerIp :: string

text \<open>A request handed to the worker pool, with what \<open>respond\<close> captured.\<close>

record job =
  jb_request :: http_request
  jb_headOnly :: bool
  jb_keepAlive :: bool
  jb_start :: int

record session =
  ss_parser :: http_parser
  ss_conn :: conn
  ss_io :: "io list"
  ss_metrics :: metrics
  ss_bucket :: token_bucket
  ss_readings :: nat
  ss_jobs :: "job list"

definition tick :: "session \<Rightarrow> session" where
  "tick s = s\<lparr>ss_readings := ss_readings s + 1\<rparr>"

definition on_metrics :: "(metrics \<Rightarrow> metrics) \<Rightarrow> session \<Rightarrow> session" where
  "on_metrics f s = s\<lparr>ss_metrics := f (ss_metrics s)\<rparr>"

text \<open>
  An operation on the connection. What it does to the counters of the process is read off the
  connection: the bytes the kernel took, the errors counted and the calls of the close callback,
  which counts the connection out.
\<close>

definition report :: "conn \<Rightarrow> conn \<Rightarrow> metrics \<Rightarrow> metrics" where
  "report c c' m =
     (onConnectionClosed ^^ (cn_closeCalls c' - cn_closeCalls c))
       ((onError ^^ (cn_errors c' - cn_errors c))
         (onBytesWritten (length (cn_sent c') - length (cn_sent c)) m))"

definition on_conn :: "(conn \<Rightarrow> io list \<Rightarrow> conn \<times> io list) \<Rightarrow> session \<Rightarrow> session" where
  "on_conn f s = (case f (ss_conn s) (ss_io s) of (c, rs) \<Rightarrow>
     s\<lparr>ss_conn := c, ss_io := rs, ss_metrics := report (ss_conn s) c (ss_metrics s)\<rparr>)"

definition update_conn :: "(conn \<Rightarrow> conn) \<Rightarrow> session \<Rightarrow> session" where
  "update_conn f = on_conn (\<lambda>c rs. (f c, rs))"

definition methodKindOf :: "http_method \<Rightarrow> int" where
  "methodKindOf m = (case m of kGet \<Rightarrow> 0 | kHead \<Rightarrow> 1 | kPost \<Rightarrow> 2 | _ \<Rightarrow> 3)"

section \<open>Routes\<close>

definition version :: string where "version = ''1.0.0''"

definition buildInfo :: string where
  "buildInfo = ''MyselfWebServer '' @ version @ '' (C++17 / epoll ET reactor)''"

text \<open>A JSON member, its name quoted.\<close>

definition member :: "string \<Rightarrow> string \<Rightarrow> string" where
  "member key val = DQ @ key @ DQ @ '':'' @ val"

fun commas :: "string list \<Rightarrow> string" where
  "commas [] = []"
| "commas [x] = x"
| "commas (x # y # xs) = x @ '','' @ commas (y # xs)"

definition object :: "string list \<Rightarrow> string" where
  "object members = ''{'' @ commas members @ ''}''"

definition statusJson ::
  "snapshot \<Rightarrow> nat \<Rightarrow> nat \<Rightarrow> rat \<Rightarrow> nat \<Rightarrow> nat \<Rightarrow> string" where
  "statusJson sn ioThreads workerThreads idleSeconds timers logLines =
     (let m = sn_counters sn;
          averageMs = (if mt_latencyCount m = 0 then 0
            else sn_latencySumMs sn / of_nat (unat (mt_latencyCount m)));
          class = (\<lambda>i. show_word (mt_statusClasses m ! i)) in
      object [
        member ''name'' (DQ @ ''MyselfWebServer'' @ DQ),
        member ''version'' (DQ @ version @ DQ),
        member ''uptimeSeconds'' (string_of_nat (sn_uptimeSeconds sn)),
        member ''ioThreads'' (string_of_nat ioThreads),
        member ''workerThreads'' (string_of_nat workerThreads),
        member ''idleTimeoutSeconds'' (print_double 4 idleSeconds),
        member ''timers'' (string_of_nat timers),
        member ''connections'' (object [
          member ''current'' (string_of_int (sint (mt_connectionsCurrent m))),
          member ''total'' (show_word (mt_connectionsTotal m)),
          member ''max'' (show_word (mt_connectionsMax m))]),
        member ''requests'' (object [
          member ''total'' (show_word (mt_requestsTotal m)),
          member ''rateLimited'' (show_word (mt_requestsRateLimited m)),
          member ''notModified'' (show_word (mt_requestsNotModified m)),
          member ''proxy'' (object [
            member ''total'' (show_word (mt_requestsProxy m)),
            member ''errors'' (show_word (mt_requestsProxyErrors m))]),
          member ''errors'' (show_word (mt_errorsTotal m)),
          member ''byStatusClass'' (object [
            member ''1xx'' (class 0), member ''2xx'' (class 1), member ''3xx'' (class 2),
            member ''4xx'' (class 3), member ''5xx'' (class 4)])]),
        member ''bytes'' (object [
          member ''read'' (show_word (mt_bytesReadTotal m)),
          member ''written'' (show_word (mt_bytesWrittenTotal m))]),
        member ''latencyMs'' (object [
          member ''p50'' (print_double 4 (sn_latencyP50Ms sn)), member ''p95'' (print_double 4 (sn_latencyP95Ms sn)),
          member ''p99'' (print_double 4 (sn_latencyP99Ms sn)), member ''avg'' (print_double 4 averageMs),
          member ''count'' (show_word (mt_latencyCount m))]),
        member ''logLines'' (string_of_nat logLines),
        member ''status'' (DQ @ ''ok'' @ DQ)])"

text \<open>
  The router of \<open>main\<close>. The handlers of the two diagnostic routes read the metrics of the moment,
  so the router is built for the state in which a request is handled.
\<close>

definition status_handler :: "server_env \<Rightarrow> nat \<Rightarrow> metrics \<Rightarrow> handler" where
  "status_handler e k m request =
     setBody (statusJson (metrics_snapshot (se_now e k) m)
         (op_ioThreads (se_options e)) (op_workerThreads (se_options e))
         (op_idleTimeoutSeconds (se_options e)) (se_timers e k) (se_logLines e k))
       (setContentType ''application/json; charset=utf-8'' (setStatus 200 ''OK'' (HttpResponse_new False)))"

definition metrics_handler :: "server_env \<Rightarrow> nat \<Rightarrow> metrics \<Rightarrow> handler" where
  "metrics_handler e k m request =
     setBody (renderPrometheus (se_logLines e k) (metrics_snapshot (se_now e k) m))
       (setContentType ''text/plain; version=0.0.4; charset=utf-8''
         (setStatus 200 ''OK'' (HttpResponse_new False)))"

definition server_router :: "server_env \<Rightarrow> nat \<Rightarrow> metrics \<Rightarrow> router" where
  "server_router e k m =
     (let opts = se_options e; proxy = proxy_of_options opts;
          rt = registerHandler ''/metrics'' (metrics_handler e k m)
            (registerHandler ''/api/status'' (status_handler e k m)
              (setZeroCopyThreshold (op_zeroCopyThreshold opts) (Router_new (op_wwwRoot opts)))) in
      if po_enabled proxy then registerPrefixHandler (po_prefix proxy) (se_forward e k) rt else rt)"

text \<open>Whether \<open>Router::handle\<close> reaches the prefix handler, whose side effect is to count.\<close>

definition proxied :: "router \<Rightarrow> http_request \<Rightarrow> bool" where
  "proxied rt request \<longleftrightarrow> isPathSafe (rq_path request) \<and>
     om_get (rt_handlers rt) (rq_path request) = None \<and>
     match_prefix (rq_path request) (rt_prefixHandlers rt) \<noteq> None"

definition server_handle :: "server_env \<Rightarrow> http_request \<Rightarrow> session \<Rightarrow> http_response \<times> session" where
  "server_handle e request s =
     (let rt = server_router e (ss_readings s) (ss_metrics s);
          response = handle (se_fs e) rt request (se_peerIp e);
          s1 = tick s in
      (response,
       if proxied rt request then
         on_metrics (\<lambda>m. let m1 = onRequestProxied m in
           if 500 \<le> rs_statusCode response then onRequestProxyError m1 else m1) s1
       else s1))"

section \<open>The message callback\<close>

text \<open>\<open>msBetween\<close>.\<close>

definition msBetween :: "int \<Rightarrow> int \<Rightarrow> rat" where
  "msBetween t0 t1 = of_int (t1 - t0) / 1000000"

text \<open>The lambda \<open>respond\<close>: the only way out for a response.\<close>

definition respond :: "server_env \<Rightarrow> bool \<Rightarrow> bool \<Rightarrow> int \<Rightarrow> http_response \<Rightarrow> session \<Rightarrow> session" where
  "respond e headOnly keepAlive requestStart response0 s =
     (let response = setCloseConnection (\<not> keepAlive) response0;
          s1 = (if rs_statusCode response = 304 then on_metrics onRequestNotModified s else s);
          s2 = on_conn (send (serialize (se_date e (ss_readings s1)) (\<not> headOnly) response)) (tick s1);
          s3 = (case rs_fileBody response of
             Some f \<Rightarrow> if headOnly then s2 else on_conn (sendFile (se_files e) f) s2
           | None \<Rightarrow> s2);
          s4 = on_metrics (onRequestFinished (rs_statusCode response)
             (msBetween requestStart (se_now e (ss_readings s3)))) (tick s3) in
      if keepAlive then s4 else update_conn shutdownWrite s4)"

definition isManagement :: "http_request \<Rightarrow> bool" where
  "isManagement request \<longleftrightarrow> rq_path request = ''/api/status'' \<or> rq_path request = ''/metrics''"

definition offloaded :: "server_env \<Rightarrow> http_request \<Rightarrow> bool" where
  "offloaded e request \<longleftrightarrow>
     (let proxy = proxy_of_options (se_options e);
          isProxyReq = po_enabled proxy \<and> starts_with (po_prefix proxy) (rq_path request) in
      0 < op_workerThreads (se_options e) \<and> (isProxyReq \<or> \<not> starts_with ''/api/'' (rq_path request)))"

text \<open>The rate limiter: management routes pass without asking it.\<close>

definition admit :: "server_env \<Rightarrow> http_request \<Rightarrow> session \<Rightarrow> bool \<times> session" where
  "admit e request s =
     (if isManagement request then (True, s)
      else case tryAcquire 1 (se_now e (ss_readings s)) (ss_bucket s) of
        (ok, b) \<Rightarrow> (ok, (tick s)\<lparr>ss_bucket := b\<rparr>))"

text \<open>
  What becomes of an admitted or refused request: a response now, or \<^term>\<open>None\<close> when a worker is
  to compute it.
\<close>

definition decide :: "server_env \<Rightarrow> http_request \<Rightarrow> session \<Rightarrow> http_response option \<times> session" where
  "decide e request s =
     (case admit e request s of
        (False, s1) \<Rightarrow> (Some (tooManyRequests 1), on_metrics onRequestRateLimited s1)
      | (True, s1) \<Rightarrow>
          if offloaded e request then (None, s1)
          else (case server_handle e request s1 of (response, s2) \<Rightarrow> (Some response, s2)))"

definition start_request :: "http_request \<Rightarrow> session \<Rightarrow> session" where
  "start_request request s = on_metrics (onRequestStarted (methodKindOf (rq_method request))) (tick s)"

text \<open>One complete request, from \<open>takeRequest\<close> to the response or the hand-over to a worker.\<close>

definition serve_request :: "server_env \<Rightarrow> http_request \<Rightarrow> session \<Rightarrow> session" where
  "serve_request e request s =
     (let headOnly = (rq_method request = kHead); keepAlive = rq_keepAlive request;
          requestStart = se_now e (ss_readings s) in
      case decide e request (start_request request s) of
        (Some response, s1) \<Rightarrow> respond e headOnly keepAlive requestStart response s1
      | (None, s1) \<Rightarrow> s1\<lparr>ss_jobs := ss_jobs s1 @ [\<lparr>jb_request = request, jb_headOnly = headOnly,
          jb_keepAlive = keepAlive, jb_start = requestStart\<rparr>]\<rparr>)"

text \<open>A worker has computed the response of a job and the IO thread runs \<open>respond\<close>.\<close>

definition finish_job :: "server_env \<Rightarrow> nat \<Rightarrow> session \<Rightarrow> session" where
  "finish_job e i s =
     (if i < length (ss_jobs s) then
        let j = ss_jobs s ! i;
            s1 = s\<lparr>ss_jobs := take i (ss_jobs s) @ drop (Suc i) (ss_jobs s)\<rparr> in
        (case server_handle e (jb_request j) s1 of
           (response, s2) \<Rightarrow> respond e (jb_headOnly j) (jb_keepAlive j) (jb_start j) response s2)
      else s)"

definition bad_request_bytes :: "server_env \<Rightarrow> nat \<Rightarrow> string" where
  "bad_request_bytes e k = serialize (se_date e k) True (badRequest ''Bad Request'')"

definition reject_request :: "server_env \<Rightarrow> session \<Rightarrow> session" where
  "reject_request e s =
     update_conn shutdownWrite
       (on_metrics onError (on_conn (send (bad_request_bytes e (ss_readings s))) (tick s)))"

lemma retrieve_le: "readableBytes (retrieve b n) \<le> readableBytes b"
  by (auto simp: retrieve_def retrieveAll_def readableBytes_def)

lemma parseHeaders_smaller:
  "parseHeaders p b = (res, p', b') \<Longrightarrow>
     readableBytes b' \<le> readableBytes b \<and>
     (res = kComplete \<or> ps_state p' \<noteq> ps_state p \<longrightarrow> readableBytes b' < readableBytes b)"
proof (induction p b arbitrary: res p' b' rule: parseHeaders.induct)
  case (1 p b)
  show ?case
  proof (cases "findCRLF (contents b)")
    case None
    with "1.prems" show ?thesis by (subst (asm) parseHeaders.simps) (auto split: if_splits)
  next
    case (Some n)
    note sm = retrieve_smaller [OF Some]
    show ?thesis
    proof (cases "headerLine p (take n (contents b))")
      case (Inl q)
      with "1.prems" Some sm headerLine_state [of p "take n (contents b)" q] show ?thesis
        by (subst (asm) parseHeaders.simps)
          (auto simp: Let_def numeral_2_eq_2 split: if_splits prod.splits)
    next
      case (Inr q)
      with "1.prems" Some sm "1.IH" [OF Some _ refl refl Inr] headerLine_state [OF disjI2, OF Inr] show ?thesis
        by (subst (asm) parseHeaders.simps)
          (fastforce simp: Let_def numeral_2_eq_2 split: if_splits prod.splits)
    qed
  qed
qed

text \<open>A complete request takes bytes from the buffer, unless its head had been read before.\<close>

definition parser_rank :: "http_parser \<Rightarrow> nat" where
  "parser_rank p = (if ps_state p = kBody \<or> ps_state p = kGotAll then 1 else 0)"

lemma parse_loop_smaller:
  "parse_loop p b = (res, p', b') \<Longrightarrow>
     readableBytes b' \<le> readableBytes b \<and>
     (res = kComplete \<and> parser_rank p = 0 \<longrightarrow> readableBytes b' < readableBytes b)"
proof (induction p b arbitrary: res p' b' rule: parse_loop.induct)
  case (1 p b)
  show ?case
  proof (cases "ps_state p")
    case kRequestLine
    obtain r q c where q: "parseRequestLine p b = (r, q, c)" by (cases "parseRequestLine p b") auto
    have le: "readableBytes c \<le> readableBytes b" and
      lt: "r = kNeedMore \<and> ps_state q = kHeaders \<longrightarrow> readableBytes c < readableBytes b" and
      nc: "r \<noteq> kComplete"
      using q retrieve_smaller [of b] retrieve_le kRequestLine
      by (auto simp: parseRequestLine_def Let_def split: option.splits if_splits sum.splits)
    have st: "r = kNeedMore \<Longrightarrow> ps_state q \<noteq> kRequestLine \<Longrightarrow> ps_state q = kHeaders"
      using parseRequestLine_state [of p b q c] q kRequestLine by auto
    show ?thesis
    proof (cases "r = kNeedMore \<and> ps_state q \<noteq> kRequestLine")
      case True
      then have e: "parse_loop p b = parse_loop q c" using q kRequestLine by (simp add: parse_loop.simps [of p b])
      show ?thesis
        using "1.IH"(1) [OF kRequestLine q [symmetric] refl] True "1.prems" e lt st by fastforce
    next
      case False
      then show ?thesis using "1.prems" q kRequestLine le nc
        by (auto simp: parse_loop.simps [of p b] split: if_splits)
    qed
  next
    case kHeaders
    obtain r q c where q: "parseHeaders p b = (r, q, c)" by (cases "parseHeaders p b") auto
    note sm = parseHeaders_smaller [OF q]
    show ?thesis
    proof (cases "r = kNeedMore \<and> ps_state q \<noteq> kHeaders")
      case True
      then have e: "parse_loop p b = parse_loop q c" using q kHeaders by (simp add: parse_loop.simps [of p b])
      have "readableBytes c < readableBytes b" using sm True kHeaders by simp
      then show ?thesis
        using "1.IH"(2) [OF kHeaders q [symmetric] refl] True "1.prems" e by fastforce
    next
      case False
      then show ?thesis using "1.prems" q kHeaders sm
        by (auto simp: parse_loop.simps [of p b] split: if_splits)
    qed
  next
    case kBody
    then show ?thesis using "1.prems" retrieve_le
      by (auto simp: parse_loop.simps [of p b] parser_rank_def parseBody_def retrieveAsString_def Let_def
          split: if_splits)
  qed (use "1.prems" in \<open>auto simp: parse_loop.simps [of p b] parser_rank_def\<close>)
qed

lemma parse_smaller:
  "parse p b = (kComplete, p', b') \<Longrightarrow>
     readableBytes b' < readableBytes b \<or> readableBytes b' \<le> readableBytes b \<and> parser_rank p = 1"
  using parse_loop_smaller [of p b kComplete p' b']
  by (auto simp: parse_def parser_rank_def split: if_splits)

lemma takeRequest_rank: "takeRequest p = (r, q) \<Longrightarrow> parser_rank q = 0"
  by (auto simp: takeRequest_def parser_reset_def parser_rank_def)

text \<open>
  The \<open>for (;;)\<close> of the callback, with the parser and the input buffer beside the rest of the
  state; it ends because every turn but the first takes bytes.
\<close>

function message_loop ::
    "server_env \<Rightarrow> http_parser \<Rightarrow> net_buffer \<Rightarrow> session \<Rightarrow> http_parser \<times> net_buffer \<times> session" where
  "message_loop e p b s = (case parse p b of
     (kBadRequest, p1, b1) \<Rightarrow> (p1, b1, reject_request e s)
   | (kNeedMore, p1, b1) \<Rightarrow> (p1, b1, s)
   | (kComplete, p1, b1) \<Rightarrow>
       (case takeRequest p1 of (request, p2) \<Rightarrow>
          let s1 = serve_request e request s in
          if rq_keepAlive request then message_loop e p2 b1 s1 else (p2, b1, s1)))"
  by pat_completeness auto
termination
  by (relation "measures [\<lambda>(e, p, b, s). readableBytes b, \<lambda>(e, p, b, s). parser_rank p]")
    (auto dest!: parse_smaller [OF sym] takeRequest_rank [OF sym])

declare message_loop.simps [simp del]

definition on_message :: "server_env \<Rightarrow> session \<Rightarrow> session" where
  "on_message e s =
     (case message_loop e (ss_parser s) (cn_input (ss_conn s)) s of
        (p, b, s1) \<Rightarrow> s1\<lparr>ss_parser := p, ss_conn := (ss_conn s1)\<lparr>cn_input := b\<rparr>\<rparr>)"

section \<open>Events of the connection\<close>

text \<open>
  \<open>TcpConnection::handleRead\<close> with the message callback of the server, which works on the whole
  session: the loop over the reads, and what follows it.
\<close>

fun session_read_loop ::
  "server_env \<Rightarrow> (int + string) list \<Rightarrow> bool \<Rightarrow> session \<Rightarrow> read_end \<times> bool \<times> session" where
  "session_read_loop e [] activity s =
     (if cn_closed (ss_conn s) then ReadFailed else ReadAgain, activity, s)"
| "session_read_loop e (r # rs) activity s =
     (if cn_closed (ss_conn s) then (ReadFailed, activity, s)
      else case readFd (cn_input (ss_conn s)) r of (n, err, b) \<Rightarrow>
        let s1 = s\<lparr>ss_conn := (ss_conn s)\<lparr>cn_input := b\<rparr>\<rparr> in
        if 0 < n then
          session_read_loop e rs True (on_message e (on_metrics (onBytesRead (nat n)) s1))
        else if n = 0 then (ReadClosed, activity, s)
        else if err = Some kEAGAIN then (ReadAgain, activity, s)
        else if err = Some kEINTR then session_read_loop e rs activity s
        else (ReadFailed, activity, s))"

definition session_read :: "server_env \<Rightarrow> (int + string) list \<Rightarrow> session \<Rightarrow> session" where
  "session_read e rs s =
     (case session_read_loop e rs False s of
        (ReadFailed, activity, s1) \<Rightarrow> update_conn (\<lambda>c. handleError (count_error c)) s1
      | (ReadAgain, activity, s1) \<Rightarrow> if activity then update_conn refreshIdleTimer s1 else s1
      | (ReadClosed, activity, s1) \<Rightarrow>
          update_conn (\<lambda>c. handleClose (if activity then refreshIdleTimer c else c)) s1)"

text \<open>
  What can happen to a connection: the callbacks of its channel and of its idle timer. Each comes
  with the answers the socket gives to the writes it causes.
\<close>

datatype session_event = Readable "(int + string) list" | Writable | HungUp | SocketError | IdleTimeout

fun session_event_step :: "server_env \<Rightarrow> session_event \<times> io list \<Rightarrow> session \<Rightarrow> session" where
  "session_event_step e (ev, io) s0 =
     (let s = s0\<lparr>ss_io := io\<rparr> in case ev of
        Readable rs \<Rightarrow> session_read e rs s
      | Writable \<Rightarrow> on_conn (handleWrite (se_files e)) s
      | HungUp \<Rightarrow> update_conn handleClose s
      | SocketError \<Rightarrow> update_conn handleError s
      | IdleTimeout \<Rightarrow> update_conn handleIdleTimeout s)"

section \<open>Accepting connections\<close>

text \<open>
  The descriptors of the server. \<open>fr_open\<close> is the truth: which connection the kernel has behind a
  descriptor; \<open>fr_registry\<close> is the table of \<open>main\<close>. \<open>fr_opening\<close> holds the accepted connections
  whose task has not run yet, \<open>fr_closing\<close> those whose socket is closed while the close callback
  has not run. With no IO threads everything runs on the main thread and both stay empty.
\<close>

record front =
  fr_open :: registry
  fr_registry :: registry
  fr_opening :: "(int \<times> nat) list"
  fr_closing :: "(int \<times> nat) list"
  fr_metrics :: metrics
  fr_rejected :: "int list"
  fr_next :: nat

definition front_new :: "int \<Rightarrow> front" where
  "front_new now = \<lparr>fr_open = om_empty, fr_registry = om_empty, fr_opening = [], fr_closing = [],
     fr_metrics = metrics_reset now, fr_rejected = [], fr_next = 0\<rparr>"

definition remove_nth :: "nat \<Rightarrow> 'a list \<Rightarrow> 'a list" where
  "remove_nth i xs = take i xs @ drop (Suc i) xs"

text \<open>The task on the IO loop: the connection enters the table and is counted.\<close>

definition open_connection :: "int \<times> nat \<Rightarrow> front \<Rightarrow> front" where
  "open_connection x f = (case x of (fd, c) \<Rightarrow>
     f\<lparr>fr_registry := registry_add fd c (fr_registry f), fr_metrics := onConnectionOpened (fr_metrics f)\<rparr>)"

text \<open>
  The callback of the acceptor: over the limit the client gets a 503 and the descriptor is closed,
  otherwise the task goes to the next IO loop.
\<close>

definition new_connection :: "server_options \<Rightarrow> int \<Rightarrow> front \<Rightarrow> front" where
  "new_connection opts fd f =
     (if 0 < op_maxConnections opts \<and> op_maxConnections opts \<le> registry_size (fr_registry f) then
        f\<lparr>fr_metrics := onConnectionRejected (fr_metrics f), fr_rejected := fr_rejected f @ [fd]\<rparr>
      else
        let c = fr_next f; f1 = f\<lparr>fr_open := om_put fd c (fr_open f), fr_next := c + 1\<rparr> in
        if op_ioThreads opts = 0 then open_connection (fd, c) f1
        else f1\<lparr>fr_opening := fr_opening f1 @ [(fd, c)]\<rparr>)"

definition run_opening :: "nat \<Rightarrow> front \<Rightarrow> front" where
  "run_opening i f =
     open_connection (fr_opening f ! i) (f\<lparr>fr_opening := remove_nth i (fr_opening f)\<rparr>)"

text \<open>The close callback; it removes the descriptor it captured, whatever the table holds there.\<close>

definition close_callback :: "int \<times> nat \<Rightarrow> front \<Rightarrow> front" where
  "close_callback x f = (case x of (fd, c) \<Rightarrow>
     f\<lparr>fr_registry := registry_remove fd (fr_registry f), fr_metrics := onConnectionClosed (fr_metrics f)\<rparr>)"

text \<open>\<open>handleClose\<close>: first the socket is closed, then the callback is invoked.\<close>

definition close_connection :: "server_options \<Rightarrow> int \<times> nat \<Rightarrow> front \<Rightarrow> front" where
  "close_connection opts x f =
     (let f1 = f\<lparr>fr_open := om_erase (fst x) (fr_open f)\<rparr> in
      if op_ioThreads opts = 0 then close_callback x f1
      else f1\<lparr>fr_closing := fr_closing f1 @ [x]\<rparr>)"

definition run_closing :: "nat \<Rightarrow> front \<Rightarrow> front" where
  "run_closing i f = close_callback (fr_closing f ! i) (f\<lparr>fr_closing := remove_nth i (fr_closing f)\<rparr>)"

text \<open>The kernel never hands out a descriptor that is open.\<close>

inductive front_step :: "server_options \<Rightarrow> front \<Rightarrow> front \<Rightarrow> bool" for opts where
  accept: "om_get (fr_open f) fd = None \<Longrightarrow> front_step opts f (new_connection opts fd f)"
| open_task: "i < length (fr_opening f) \<Longrightarrow> front_step opts f (run_opening i f)"
| shut: "om_get (fr_open f) fd = Some c \<Longrightarrow> (fd, c) \<notin> set (fr_opening f) \<Longrightarrow>
    front_step opts f (close_connection opts (fd, c) f)"
| close_task: "i < length (fr_closing f) \<Longrightarrow> front_step opts f (run_closing i f)"

inductive front_reach :: "server_options \<Rightarrow> front \<Rightarrow> bool" for opts where
  init: "front_reach opts (front_new now)"
| step: "front_reach opts f \<Longrightarrow> front_step opts f g \<Longrightarrow> front_reach opts g"

end
