(* ===== verification/Tcp_Connection_Props.thy ===== *)
theory Tcp_Connection_Props
  imports Tcp_Connection
begin

text \<open>
  Properties of a connection: its bytes leave in the order they were given, nothing is stuck
  without a pending write event, the half-close waits for the data, and closing happens once.
\<close>

section \<open>The stream of a connection\<close>

text \<open>
  What the peer has received, followed by what is still to be sent: the bytes buffered before the
  file, the rest of the file, the bytes buffered after it.
\<close>

definition backlog :: "(int \<Rightarrow> string) \<Rightarrow> conn \<Rightarrow> string" where
  "backlog files c = take (cn_preFileBytes c) (contents (cn_output c)) @ file_rest files c @
     drop (cn_preFileBytes c) (contents (cn_output c))"

definition out_stream :: "(int \<Rightarrow> string) \<Rightarrow> conn \<Rightarrow> string" where
  "out_stream files c = cn_sent c @ backlog files c"

definition conn_inv :: "conn \<Rightarrow> bool" where
  "conn_inv c \<longleftrightarrow> buffer_valid (cn_output c) \<and>
     cn_preFileBytes c \<le> readableBytes (cn_output c) \<and>
     (cn_pendingFile c = None \<longrightarrow> cn_preFileBytes c = 0 \<and> cn_fileRemaining c = 0) \<and>
     (cn_closed c \<longrightarrow> cn_pendingFile c = None \<and> cn_events c = 0 \<and> \<not> cn_idleTimer c) \<and>
     (\<not> cn_closed c \<and> (0 < readableBytes (cn_output c) \<or> cn_pendingFile c \<noteq> None) \<longrightarrow>
        cn_events c AND EPOLLOUT \<noteq> 0)"

text \<open>Everything handed over so far, sent or dropped by closing.\<close>

definition advances :: "(int \<Rightarrow> string) \<Rightarrow> string \<Rightarrow> conn \<Rightarrow> conn \<Rightarrow> bool" where
  "advances files new c c' \<longleftrightarrow>
     (\<exists>more. cn_sent c' = cn_sent c @ more) \<and>
     (if cn_closed c' then \<exists>lost. out_stream files c @ new = cn_sent c' @ lost
      else out_stream files c' = out_stream files c @ new)"

lemma out_enabled: "(ev OR kWriteEvent) AND EPOLLOUT \<noteq> 0"
proof -
  have "bit ((ev OR kWriteEvent) AND EPOLLOUT) 2"
    by (simp add: bit_and_iff bit_or_iff kWriteEvent_def epoll_defs)
  then show ?thesis by auto
qed

lemma isWriting_if: "cn_events c AND EPOLLOUT \<noteq> 0 \<Longrightarrow> cn_isWriting c"
proof -
  assume "cn_events c AND EPOLLOUT \<noteq> 0"
  moreover have "cn_events c AND EPOLLOUT = (cn_events c AND kWriteEvent) AND EPOLLOUT"
    by (simp add: and.assoc) (simp add: kWriteEvent_def epoll_defs)
  ultimately show ?thesis by (auto simp: cn_isWriting_def)
qed

lemma took_simps [simp]:
  "cn_sent (took s c) = cn_sent c @ s" "cn_output (took s c) = cn_output c"
  "cn_closed (took s c) = cn_closed c" "cn_preFileBytes (took s c) = cn_preFileBytes c"
  "cn_pendingFile (took s c) = cn_pendingFile c" "cn_fileRemaining (took s c) = cn_fileRemaining c"
  "cn_fileOffset (took s c) = cn_fileOffset c" "cn_events (took s c) = cn_events c"
  "cn_idleTimer (took s c) = cn_idleTimer c" "cn_shutdownAfterWrite (took s c) = cn_shutdownAfterWrite c"
  "cn_shut (took s c) = cn_shut c" "cn_closeCalls (took s c) = cn_closeCalls c"
  by (simp_all add: took_def)

lemma file_rest_cong:
  "cn_pendingFile c' = cn_pendingFile c \<Longrightarrow> cn_fileRemaining c' = cn_fileRemaining c \<Longrightarrow>
     cn_fileOffset c' = cn_fileOffset c \<Longrightarrow> file_rest files c' = file_rest files c"
  by (simp add: file_rest_def split: option.split)

text \<open>Closing drops the backlog and keeps what was sent.\<close>

lemma handleClose_simps [simp]:
  "cn_sent (handleClose c) = cn_sent c" "cn_closed (handleClose c)" "cn_output (handleClose c) = cn_output c"
  "cn_shut (handleClose c) = cn_shut c"
  by (simp_all add: handleClose_def)

lemma count_error_simps [simp]:
  "cn_sent (count_error c) = cn_sent c" "cn_closed (count_error c) = cn_closed c"
  "cn_output (count_error c) = cn_output c" "cn_shut (count_error c) = cn_shut c"
  by (simp_all add: count_error_def)

lemma handleClose_inv: "conn_inv c \<Longrightarrow> conn_inv (handleClose (count_error c))"
  "conn_inv c \<Longrightarrow> conn_inv (handleClose c)"
  by (auto simp: conn_inv_def handleClose_def count_error_def)

lemma closing_advances: "cn_sent c' = cn_sent c \<Longrightarrow> cn_closed c' \<Longrightarrow> advances files [] c c'"
  by (simp add: advances_def out_stream_def)

lemma advances_refl: "\<not> cn_closed c \<Longrightarrow> advances files [] c c"
  by (simp add: advances_def)

lemma advances_trans:
  "advances files [] c c' \<Longrightarrow> \<not> cn_closed c' \<Longrightarrow> advances files new c' c'' \<Longrightarrow> advances files new c c''"
  by (auto simp: advances_def)

section \<open>Flushing the buffer\<close>

text \<open>
  \<open>flushOutput\<close> is called with a limit that is either the bytes before the file or, when no file
  is waiting, the whole buffer. \<open>limit_ok\<close> covers both and is kept by the loop.
\<close>

definition limit_ok :: "nat \<Rightarrow> conn \<Rightarrow> bool" where
  "limit_ok limit c \<longleftrightarrow> limit \<le> readableBytes (cn_output c) \<and>
     (cn_preFileBytes c = limit \<or> cn_preFileBytes c = 0 \<and> cn_pendingFile c = None)"

lemma flush_chunk:
  assumes i: "conn_inv c" and l: "limit_ok limit c" and w: "w \<le> limit"
  defines "c' \<equiv> took (take w (contents (cn_output c)))
    (c\<lparr>cn_output := retrieve (cn_output c) w, cn_preFileBytes := cn_preFileBytes c - min (cn_preFileBytes c) w\<rparr>)"
  shows "out_stream files c' = out_stream files c" "conn_inv c'" "limit_ok (limit - w) c'"
proof -
  have v: "buffer_valid (cn_output c)" using i by (simp add: conn_inv_def)
  have len: "length (contents (cn_output c)) = readableBytes (cn_output c)" by (rule length_contents [OF v])
  have out: "contents (cn_output c') = drop w (contents (cn_output c))"
    "readableBytes (cn_output c') = readableBytes (cn_output c) - w"
    using v by (simp_all add: c'_def contents_retrieve nb.size_pop)
  have pre: "cn_preFileBytes c' = cn_preFileBytes c - w" by (simp add: c'_def min_def)
  have fr: "file_rest files c' = file_rest files c" by (rule file_rest_cong) (simp_all add: c'_def)
  show "out_stream files c' = out_stream files c"
  proof (cases "cn_preFileBytes c = limit")
    case True
    then have "take (limit - w) (drop w (contents (cn_output c))) = drop w (take limit (contents (cn_output c)))"
      "drop (limit - w) (drop w (contents (cn_output c))) = drop limit (contents (cn_output c))"
      "take w (contents (cn_output c)) @ drop w (take limit (contents (cn_output c))) =
        take limit (contents (cn_output c))"
      using w by (simp_all add: drop_take) (metis append_take_drop_id min.absorb2 take_drop take_take drop_take min.commute)
    then show ?thesis using True by (simp add: out_stream_def backlog_def fr pre out) (simp add: c'_def)
  next
    case False
    then have "cn_preFileBytes c = 0" "file_rest files c = []"
      using l by (auto simp: limit_ok_def file_rest_def)
    then show ?thesis by (simp add: out_stream_def backlog_def fr pre out) (simp add: c'_def)
  qed
  show "conn_inv c'"
    using i v out(2) pre by (auto simp: conn_inv_def c'_def retrieve_valid)
  show "limit_ok (limit - w) c'"
    using l w pre out(2) by (auto simp: limit_ok_def c'_def)
qed

lemma readable_Nil: "buffer_valid b \<Longrightarrow> readableBytes b = 0 \<longleftrightarrow> contents b = []"
  using length_contents by fastforce

text \<open>The outcome of a write step: the loop ran to its end, or stopped with the rest enabled or closed.\<close>

definition write_result :: "(int \<Rightarrow> string) \<Rightarrow> conn \<Rightarrow> bool \<Rightarrow> conn \<Rightarrow> bool" where
  "write_result files c ok c' \<longleftrightarrow> conn_inv c' \<and> advances files [] c c' \<and> (ok \<longrightarrow> \<not> cn_closed c') \<and>
     cn_shut c' = cn_shut c"

lemma write_result_refl: "conn_inv c \<Longrightarrow> \<not> cn_closed c \<Longrightarrow> write_result files c ok c"
  by (simp add: write_result_def advances_refl)

lemma write_result_closed: "conn_inv c \<Longrightarrow> write_result files c False (handleClose (count_error c))"
  by (simp add: write_result_def handleClose_inv closing_advances)

lemma write_result_trans:
  "write_result files c ok c' \<Longrightarrow> \<not> cn_closed c' \<Longrightarrow> write_result files c' ok' c'' \<Longrightarrow>
     write_result files c ok' c''"
  unfolding write_result_def using advances_trans by metis

lemma flushOutput_props:
  "conn_inv c \<Longrightarrow> limit_ok limit c \<Longrightarrow> \<not> cn_closed c \<Longrightarrow> flushOutput limit c rs = (ok, c', rs') \<Longrightarrow>
     write_result files c ok c' \<and> (ok \<longrightarrow> limit_ok 0 c' \<and> cn_pendingFile c' = cn_pendingFile c \<and>
       readableBytes (cn_output c') = readableBytes (cn_output c) - limit)"
proof (induction limit c rs arbitrary: ok c' rs' rule: flushOutput.induct)
  case (1 limit c)
  have "limit = 0" if "\<not> (0 < limit \<and> 0 < readableBytes (cn_output c))"
    using 1(2) that by (auto simp: limit_ok_def)
  then show ?case using 1 by (auto intro!: write_result_refl split: if_splits)
next
  case (2 limit c r rs)
  show ?case
  proof (cases "0 < limit \<and> 0 < readableBytes (cn_output c)")
    case False
    then have "limit = 0" using "2.prems"(2) by (auto simp: limit_ok_def)
    then show ?thesis using False "2.prems" by (auto intro!: write_result_refl)
  next
    case True
    show ?thesis
    proof (cases r)
      case (IoBytes n)
      let ?w = "min n (min limit (readableBytes (cn_output c)))"
      let ?c = "took (take ?w (contents (cn_output c)))
        (c\<lparr>cn_output := retrieve (cn_output c) ?w, cn_preFileBytes := cn_preFileBytes c - min (cn_preFileBytes c) ?w\<rparr>)"
      show ?thesis
      proof (cases "0 < ?w")
        case False
        then show ?thesis
          using True IoBytes "2.prems"(1,4) by (auto simp: Let_def intro: write_result_closed)
      next
        case w: True
        note ch = flush_chunk [OF "2.prems"(1,2), where w = ?w]
        have rec: "flushOutput (limit - ?w) ?c rs = (ok, c', rs')"
          using True IoBytes w "2.prems"(4) by (simp add: Let_def)
        have "write_result files ?c ok c' \<and> (ok \<longrightarrow> limit_ok 0 c' \<and> cn_pendingFile c' = cn_pendingFile ?c \<and>
            readableBytes (cn_output c') = readableBytes (cn_output ?c) - (limit - ?w))"
          by (rule "2.IH"(1) [OF _ IoBytes refl refl w _ _ _ rec])
            (use True ch "2.prems"(3) in simp_all)
        moreover have "write_result files c True ?c"
          using ch "2.prems"(3) by (simp add: write_result_def advances_def)
        moreover have "buffer_valid (cn_output c)" using "2.prems"(1) by (simp add: conn_inv_def)
        ultimately show ?thesis
          using write_result_trans "2.prems"(2,3) by (auto simp: nb.size_pop limit_ok_def)
      qed
    next
      case (IoErr e)
      then show ?thesis
        using True "2.prems" "2.IH"(2) [OF _ IoErr]
        by (auto split: if_splits intro: write_result_refl write_result_closed)
    qed
  qed
qed


section \<open>Sending the file\<close>

lemma file_done_props:
  assumes "conn_inv c" "cn_preFileBytes c = 0" "file_rest files c = []" "\<not> cn_closed c"
  shows "write_result files c ok (file_done c)" "cn_pendingFile (file_done c) = None"
    "cn_preFileBytes (file_done c) = 0"
  using assms
  by (auto simp: write_result_def advances_def out_stream_def backlog_def conn_inv_def file_done_def
      file_rest_def)

lemma file_chunk:
  assumes i: "conn_inv c" "cn_preFileBytes c = 0" "cn_pendingFile c = Some f" "\<not> cn_closed c"
    and n: "n \<le> length (file_rest files c)"
  defines "c' \<equiv> took (take n (file_rest files c)) (c\<lparr>cn_fileOffset := cn_fileOffset c + n,
    cn_fileRemaining := cn_fileRemaining c - n\<rparr>)"
  shows "write_result files c ok c'" "conn_inv c'" "cn_preFileBytes c' = 0" "cn_pendingFile c' = Some f"
    "\<not> cn_closed c'"
proof -
  have r: "file_rest files c' = drop n (file_rest files c)"
    using i(3) by (simp add: file_rest_def c'_def drop_take add.commute)
  have o: "cn_output c' = cn_output c" "cn_preFileBytes c' = 0" using i(2) by (simp_all add: c'_def)
  have "out_stream files c' = out_stream files c"
    by (simp add: out_stream_def backlog_def r o i(2)) (simp add: c'_def)
  moreover show "conn_inv c'" using i by (auto simp: conn_inv_def c'_def)
  ultimately show "write_result files c ok c'"
    using i(4) by (simp add: write_result_def advances_def) (simp add: c'_def)
  show "cn_preFileBytes c' = 0" "cn_pendingFile c' = Some f" "\<not> cn_closed c'"
    using i by (simp_all add: c'_def)
qed

lemma sendPendingFile_props:
  "conn_inv c \<Longrightarrow> cn_preFileBytes c = 0 \<Longrightarrow> cn_pendingFile c = Some f \<Longrightarrow> \<not> cn_closed c \<Longrightarrow>
     sendPendingFile files c rs = (ok, c', rs') \<Longrightarrow>
     write_result files c ok c' \<and> (ok \<longrightarrow> cn_pendingFile c' = None \<and> cn_preFileBytes c' = 0)"
proof (induction files c rs arbitrary: ok c' rs' rule: sendPendingFile.induct)
  case (1 files c)
  show ?case
  proof (cases "0 < cn_fileRemaining c")
    case True
    then show ?thesis using 1 by (auto intro: write_result_refl)
  next
    case False
    then have "file_rest files c = []" by (simp add: file_rest_def split: option.split)
    then show ?thesis using False 1 file_done_props by auto
  qed
next
  case (2 files c r rs)
  show ?case
  proof (cases "cn_fileRemaining c = 0")
    case True
    then have "file_rest files c = []" by (simp add: file_rest_def split: option.split)
    then show ?thesis using True "2.prems" file_done_props by auto
  next
    case False
    show ?thesis
    proof (cases r)
      case (IoBytes k)
      let ?n = "min (max 1 k) (length (file_rest files c))"
      show ?thesis
      proof (cases "0 < ?n")
        case n: False
        then have "file_rest files c = []" by auto
        then show ?thesis using n False IoBytes "2.prems" file_done_props by (auto simp: Let_def)
      next
        case n: True
        note ch = file_chunk [OF "2.prems"(1-4), of ?n files, OF min.cobounded2]
        have rec: "sendPendingFile files (took (take ?n (file_rest files c))
            (c\<lparr>cn_fileOffset := cn_fileOffset c + ?n, cn_fileRemaining := cn_fileRemaining c - ?n\<rparr>)) rs =
            (ok, c', rs')"
          using False IoBytes n "2.prems"(5) by (simp add: Let_def)
        show ?thesis
          using "2.IH"(1) [OF False IoBytes refl refl n ch(2-5) rec]
            write_result_trans [OF ch(1) ch(5)] by blast
      qed
    next
      case (IoErr e)
      then show ?thesis
        using False "2.prems" "2.IH"(2) [OF False IoErr]
        by (auto split: if_splits intro: write_result_refl write_result_closed)
    qed
  qed
qed

section \<open>The write handler\<close>

text \<open>The write side is shut only when everything has been sent.\<close>

definition shut_ok :: "(int \<Rightarrow> string) \<Rightarrow> conn \<Rightarrow> conn \<Rightarrow> bool" where
  "shut_ok files c c' \<longleftrightarrow> (cn_shut c' \<longrightarrow> cn_shut c \<or> out_stream files c' = cn_sent c')"

lemma write_done_props:
  assumes "conn_inv c" "\<not> cn_closed c" "cn_pendingFile c = None" "readableBytes (cn_output c) = 0"
  shows "conn_inv (write_done c)" "advances files [] c (write_done c)" "shut_ok files c (write_done c)"
    "out_stream files (write_done c) = cn_sent c"
proof -
  have b: "contents (cn_output c) = []" using assms(1,4) readable_Nil by (simp add: conn_inv_def)
  have f: "write_done c = c\<lparr>cn_events := cn_events c AND NOT kWriteEvent,
      cn_shut := cn_shutdownAfterWrite c \<or> cn_shut c\<rparr>"
    by (simp add: write_done_def cn_disableWriting_def Let_def)
  show "conn_inv (write_done c)" using assms by (auto simp: conn_inv_def f)
  have o: "out_stream files (write_done c) = cn_sent c" "out_stream files c = cn_sent c"
    using assms(3) b by (simp_all add: out_stream_def backlog_def file_rest_def f)
  show "advances files [] c (write_done c)" using assms(2) o by (simp add: advances_def f)
  show "out_stream files (write_done c) = cn_sent c" by (rule o)
  moreover have "cn_sent (write_done c) = cn_sent c" by (simp add: f)
  ultimately show "shut_ok files c (write_done c)" by (simp add: shut_ok_def)
qed

lemma handleWrite_props:
  assumes i: "conn_inv c" and n: "\<not> cn_closed c" and h: "handleWrite files c rs = (c', rs')"
  shows "conn_inv c' \<and> advances files [] c c' \<and> shut_ok files c c'"
proof -
  obtain ok1 c1 rs1 where s1: "write_stage1 c rs = (ok1, c1, rs1)" by (cases "write_stage1 c rs") auto
  have w1: "write_result files c ok1 c1 \<and> (ok1 \<longrightarrow> cn_preFileBytes c1 = 0)"
  proof (cases "0 < cn_preFileBytes c")
    case True
    obtain ok d rs2 where f: "flushOutput (cn_preFileBytes c) c rs = (ok, d, rs2)"
      by (cases "flushOutput (cn_preFileBytes c) c rs") auto
    have "limit_ok (cn_preFileBytes c) c" using i by (simp add: limit_ok_def conn_inv_def)
    note fl = flushOutput_props [OF i this n f, of files]
    have "d\<lparr>cn_preFileBytes := 0\<rparr> = d" if ok using fl that by (cases d) (auto simp: limit_ok_def)
    then show ?thesis
      using fl s1 True f by (cases ok) (auto simp: write_stage1_def limit_ok_def)
  next
    case False
    then show ?thesis using s1 i n by (auto simp: write_stage1_def intro: write_result_refl)
  qed
  show ?thesis
  proof (cases ok1)
    case False
    then have "c' = c1" using h s1 n by (simp add: handleWrite_def)
    then show ?thesis using w1 by (simp add: write_result_def shut_ok_def)
  next
    case ok1: True
    then have p1: "conn_inv c1" "\<not> cn_closed c1" "cn_preFileBytes c1 = 0"
      using w1 by (simp_all add: write_result_def)
    obtain ok2 c2 rs2 where s2: "write_stage2 files c1 rs1 = (ok2, c2, rs2)"
      by (cases "write_stage2 files c1 rs1") auto
    have w2: "write_result files c1 ok2 c2 \<and> (ok2 \<longrightarrow> cn_pendingFile c2 = None \<and> cn_preFileBytes c2 = 0)"
      using s2 p1 sendPendingFile_props [of c1]
      by (cases "cn_pendingFile c1") (auto simp: write_stage2_def intro: write_result_refl)
    have w12: "write_result files c ok2 c2" using write_result_trans w1 w2 p1(2) by blast
    show ?thesis
    proof (cases ok2)
      case False
      then have "c' = c2" using h s1 s2 n ok1 by (simp add: handleWrite_def)
      then show ?thesis using w12 by (simp add: write_result_def shut_ok_def)
    next
      case ok2: True
      then have p2: "conn_inv c2" "\<not> cn_closed c2" "cn_pendingFile c2 = None" "cn_preFileBytes c2 = 0"
        using w2 by (simp_all add: write_result_def)
      obtain ok3 c3 rs3 where s3: "write_stage3 c2 rs2 = (ok3, c3, rs3)" by (cases "write_stage3 c2 rs2") auto
      have "limit_ok (readableBytes (cn_output c2)) c2" using p2 by (simp add: limit_ok_def)
      note fl = flushOutput_props [OF p2(1) this p2(2), of rs2 ok3 c3 rs3 files]
      have w3: "write_result files c2 ok3 c3 \<and>
          (ok3 \<longrightarrow> cn_pendingFile c3 = None \<and> readableBytes (cn_output c3) = 0)"
      proof (cases "0 < readableBytes (cn_output c2)")
        case True
        then show ?thesis using fl s3 p2(3) by (simp add: write_stage3_def)
      next
        case False
        then show ?thesis using s3 p2 write_result_refl by (auto simp: write_stage3_def)
      qed
      have w: "write_result files c ok3 c3" using write_result_trans w12 w3 p2(2) by blast
      show ?thesis
      proof (cases ok3)
        case False
        then have "c' = c3" using h s1 s2 s3 n ok1 ok2 by (simp add: handleWrite_def)
        then show ?thesis using w by (simp add: write_result_def shut_ok_def)
      next
        case ok3: True
        then have c': "c' = write_done c3" using h s1 s2 s3 n ok1 ok2 by (simp add: handleWrite_def)
        have p3: "conn_inv c3" "\<not> cn_closed c3" "cn_pendingFile c3 = None" "readableBytes (cn_output c3) = 0"
          using w3 ok3 by (simp_all add: write_result_def)
        note d = write_done_props [OF p3]
        have "cn_shut c3 = cn_shut c" using w by (simp add: write_result_def)
        then show ?thesis
          using d(1) d(3) advances_trans [OF _ p3(2) d(2)] w by (simp add: c' write_result_def shut_ok_def)
      qed
    qed
  qed
qed


section \<open>Handing over bytes and files\<close>

lemma keep_rest_props:
  assumes "conn_inv c" "\<not> cn_closed c"
  shows "conn_inv (keep_rest d c)" "out_stream files (keep_rest d c) = out_stream files c @ d"
    "\<not> cn_closed (keep_rest d c)" "cn_sent (keep_rest d c) = cn_sent c" "cn_shut (keep_rest d c) = cn_shut c"
proof -
  have v: "buffer_valid (cn_output c)" using assms(1) by (simp add: conn_inv_def)
  have pre: "cn_preFileBytes c \<le> length (contents (cn_output c))"
    using assms(1) v by (simp add: conn_inv_def length_contents)
  have fr: "file_rest files (keep_rest d c) = file_rest files c"
    by (rule file_rest_cong) (simp_all add: keep_rest_def cn_enableWriting_def)
  show "conn_inv (keep_rest d c)"
    using assms v nb.size_push [OF v, of d] out_enabled
    by (auto simp: conn_inv_def keep_rest_def cn_enableWriting_def buffer_append_props)
  show "out_stream files (keep_rest d c) = out_stream files c @ d"
    using pre v fr
    by (auto simp: out_stream_def backlog_def keep_rest_def cn_enableWriting_def buffer_append_props)
  show "\<not> cn_closed (keep_rest d c)" "cn_sent (keep_rest d c) = cn_sent c" "cn_shut (keep_rest d c) = cn_shut c"
    using assms(2) by (simp_all add: keep_rest_def cn_enableWriting_def)
qed

lemma keep_rest_advances:
  "conn_inv c \<Longrightarrow> \<not> cn_closed c \<Longrightarrow> advances files d c (keep_rest d c)"
  by (simp add: advances_def keep_rest_props)

lemma closing_advances_new: "cn_sent c' = cn_sent c \<Longrightarrow> cn_closed c' \<Longrightarrow> advances files new c c'"
  by (simp add: advances_def out_stream_def)

lemma sendInLoop_props:
  assumes i: "conn_inv c" and n: "\<not> cn_closed c" and h: "sendInLoop d c rs = (c', rs')"
  shows "conn_inv c' \<and> advances files d c c' \<and> cn_shut c' = cn_shut c"
proof (cases "\<not> cn_isWriting c \<and> readableBytes (cn_output c) = 0")
  case False
  then have "c' = keep_rest d c" using h by (auto simp: sendInLoop_def)
  then show ?thesis using keep_rest_props keep_rest_advances i n by simp
next
  case direct: True
  have p: "cn_pendingFile c = None" using i n direct isWriting_if by (auto simp: conn_inv_def)
  have v: "buffer_valid (cn_output c)" using i by (simp add: conn_inv_def)
  then have b: "backlog files c = []"
    using direct p readable_Nil by (simp add: backlog_def file_rest_def)
  show ?thesis
  proof (cases rs)
    case Nil
    then have "c' = keep_rest d c" using h direct by (auto simp: sendInLoop_def)
    then show ?thesis using keep_rest_props keep_rest_advances i n by simp
  next
    case (Cons r rs1)
    show ?thesis
    proof (cases r)
      case (IoBytes k)
      let ?n = "min k (length d)"
      let ?t = "took (take ?n d) c"
      have t: "conn_inv ?t" "\<not> cn_closed ?t" using i n by (simp_all add: conn_inv_def)
      have "backlog files ?t = []" using p v direct readable_Nil by (simp add: backlog_def file_rest_def)
      then have "out_stream files ?t = out_stream files c @ take ?n d" using b by (simp add: out_stream_def)
      moreover have "c' = keep_rest (drop ?n d) ?t"
        using h direct Cons IoBytes by (auto simp: sendInLoop_def Let_def)
      ultimately show ?thesis
        using keep_rest_props [OF t] by (simp add: advances_def)
    next
      case (IoErr e)
      then have "c' = keep_rest d c \<or> c' = handleClose (count_error c)"
        using h direct Cons by (auto simp: sendInLoop_def split: if_splits)
      then show ?thesis
        using keep_rest_props keep_rest_advances i n handleClose_inv closing_advances_new by auto
    qed
  qed
qed

lemma sendFile_start:
  fixes f :: file_body
  assumes i: "conn_inv c" and n: "\<not> cn_closed c" and p: "cn_pendingFile c = None"
  defines "c0 \<equiv> cn_enableWriting (c\<lparr>cn_preFileBytes := readableBytes (cn_output c), cn_pendingFile := Some f,
    cn_fileOffset := fb_offset f, cn_fileRemaining := fb_length f\<rparr>)"
  shows "conn_inv c0" "\<not> cn_closed c0" "out_stream files c0 = out_stream files c @ file_region files f"
    "cn_sent c0 = cn_sent c" "cn_shut c0 = cn_shut c"
proof -
  have v: "buffer_valid (cn_output c)" "cn_preFileBytes c = 0" using i p by (simp_all add: conn_inv_def)
  show "conn_inv c0" using i n out_enabled by (simp add: conn_inv_def c0_def cn_enableWriting_def)
  show "out_stream files c0 = out_stream files c @ file_region files f"
    using v p length_contents [OF v(1)]
    by (simp add: out_stream_def backlog_def file_rest_def file_region_def c0_def cn_enableWriting_def)
  show "\<not> cn_closed c0" "cn_sent c0 = cn_sent c" "cn_shut c0 = cn_shut c"
    using n by (simp_all add: c0_def cn_enableWriting_def)
qed

lemma sendFile_props:
  assumes i: "conn_inv c" and n: "\<not> cn_closed c" and h: "sendFile files f c rs = (c', rs')"
  shows "conn_inv c' \<and> advances files (file_region files f) c c' \<and> shut_ok files c c'"
proof (cases "fb_length f = 0")
  case True
  then have "c' = c" using h n by (simp add: sendFile_def)
  then show ?thesis using True i n by (simp add: file_region_def advances_refl shut_ok_def)
next
  case False
  show ?thesis
  proof (cases "cn_pendingFile c")
    case (Some g)
    then have "sendInLoop (file_region files f) c rs = (c', rs')" using h n False by (simp add: sendFile_def)
    from sendInLoop_props [OF i n this] show ?thesis by (simp add: shut_ok_def)
  next
    case None
    note st = sendFile_start [OF i n None, where f = f]
    have "handleWrite files (cn_enableWriting (c\<lparr>cn_preFileBytes := readableBytes (cn_output c),
        cn_pendingFile := Some f, cn_fileOffset := fb_offset f, cn_fileRemaining := fb_length f\<rparr>)) rs = (c', rs')"
      using h n False None by (simp add: sendFile_def)
    from handleWrite_props [OF st(1,2) this] show ?thesis
      using st(3-5) by (auto simp: advances_def shut_ok_def)
  qed
qed

section \<open>Runs of operations\<close>

datatype conn_op = OpSend string | OpFile file_body | OpWritable | OpShutdown | OpClose | OpIdleTimeout

text \<open>One operation with what the kernel will answer to its calls.\<close>

definition conn_step :: "(int \<Rightarrow> string) \<Rightarrow> conn_op \<times> io list \<Rightarrow> conn \<Rightarrow> conn" where
  "conn_step files x c = (case x of (oper, rs) \<Rightarrow> (case oper of
     OpSend d \<Rightarrow> fst (send d c rs)
   | OpFile f \<Rightarrow> fst (sendFile files f c rs)
   | OpWritable \<Rightarrow> fst (handleWrite files c rs)
   | OpShutdown \<Rightarrow> shutdownWrite c
   | OpClose \<Rightarrow> forceClose c
   | OpIdleTimeout \<Rightarrow> handleIdleTimeout c))"

definition op_bytes :: "(int \<Rightarrow> string) \<Rightarrow> conn_op \<times> io list \<Rightarrow> string" where
  "op_bytes files x = (case fst x of OpSend d \<Rightarrow> d | OpFile f \<Rightarrow> file_region files f | _ \<Rightarrow> [])"

lemma shutdownWrite_props:
  assumes "conn_inv c" "\<not> cn_closed c"
  shows "conn_inv (shutdownWrite c) \<and> advances files [] c (shutdownWrite c) \<and> shut_ok files c (shutdownWrite c)"
proof -
  let ?c = "shutdownWrite c"
  have f: "cn_output ?c = cn_output c" "cn_preFileBytes ?c = cn_preFileBytes c" "cn_sent ?c = cn_sent c"
    "cn_closed ?c = cn_closed c" "cn_pendingFile ?c = cn_pendingFile c" "cn_events ?c = cn_events c"
    "cn_fileRemaining ?c = cn_fileRemaining c" "cn_fileOffset ?c = cn_fileOffset c" "cn_idleTimer ?c = cn_idleTimer c"
    by (simp_all add: shutdownWrite_def)
  have o: "out_stream files ?c = out_stream files c"
    using file_rest_cong [of ?c c files] f by (simp add: out_stream_def backlog_def)
  have "shut_ok files c ?c"
  proof (cases "readableBytes (cn_output c) = 0 \<and> cn_pendingFile c = None")
    case True
    then have "out_stream files c = cn_sent c"
      using assms(1) readable_Nil by (simp add: out_stream_def backlog_def file_rest_def conn_inv_def)
    then show ?thesis using o f(3) by (simp add: shut_ok_def)
  next
    case False
    then show ?thesis by (auto simp: shut_ok_def shutdownWrite_def)
  qed
  then show ?thesis using assms f o by (simp add: conn_inv_def advances_def)
qed

lemma conn_step_props:
  assumes i: "conn_inv c" and n: "\<not> cn_closed c"
  shows "conn_inv (conn_step files x c) \<and> advances files (op_bytes files x) c (conn_step files x c) \<and>
    shut_ok files c (conn_step files x c)"
proof -
  obtain oper rs where x: "x = (oper, rs)" by (cases x)
  show ?thesis
  proof (cases oper)
    case (OpSend d)
    show ?thesis
      using sendInLoop_props [OF i n, of d rs "fst (sendInLoop d c rs)" "snd (sendInLoop d c rs)"] n
      by (simp add: x OpSend conn_step_def op_bytes_def send_def shut_ok_def)
  next
    case (OpFile f)
    show ?thesis
      using sendFile_props [OF i n, of files f rs "fst (sendFile files f c rs)" "snd (sendFile files f c rs)"]
      by (simp add: x OpFile conn_step_def op_bytes_def)
  next
    case OpWritable
    show ?thesis
      using handleWrite_props [OF i n, of files rs "fst (handleWrite files c rs)" "snd (handleWrite files c rs)"]
      by (simp add: x OpWritable conn_step_def op_bytes_def)
  next
    case OpShutdown
    show ?thesis using shutdownWrite_props [OF i n] by (simp add: x OpShutdown conn_step_def op_bytes_def)
  qed (use i n in \<open>simp_all add: x conn_step_def op_bytes_def forceClose_def handleIdleTimeout_def
      handleClose_inv closing_advances shut_ok_def\<close>)
qed

lemma conn_step_closed: "cn_closed c \<Longrightarrow> conn_step files x c = c"
  by (auto simp: conn_step_def send_def sendFile_def handleWrite_def shutdownWrite_def forceClose_def
      handleClose_def handleIdleTimeout_def split: prod.split conn_op.split)

lemma conn_run_props:
  assumes "conn_inv c" "T = cn_sent c @ rest" "\<not> cn_closed c \<longrightarrow> T = out_stream files c"
  shows "conn_inv (fold (conn_step files) xs c) \<and>
    (\<exists>rest'. T @ concat (map (op_bytes files) xs) = cn_sent (fold (conn_step files) xs c) @ rest') \<and>
    (\<not> cn_closed (fold (conn_step files) xs c) \<longrightarrow>
      T @ concat (map (op_bytes files) xs) = out_stream files (fold (conn_step files) xs c))"
  using assms
proof (induction xs arbitrary: c T rest)
  case (Cons x xs)
  let ?c = "conn_step files x c"
  show ?case
  proof (cases "cn_closed c")
    case True
    then have "?c = c" by (rule conn_step_closed)
    then show ?thesis
      using Cons.IH [of c "T @ op_bytes files x" "rest @ op_bytes files x"] Cons.prems True by simp
  next
    case False
    note p = conn_step_props [OF Cons.prems(1) False, of files x]
    have T: "T = out_stream files c" using Cons.prems(3) False by simp
    have "\<exists>r. T @ op_bytes files x = cn_sent ?c @ r"
    proof (cases "cn_closed ?c")
      case True
      then show ?thesis using p T by (simp add: advances_def)
    next
      case False
      then have "T @ op_bytes files x = cn_sent ?c @ backlog files ?c"
        using p T by (simp add: advances_def out_stream_def [of files ?c])
      then show ?thesis by blast
    qed
    then obtain r where "T @ op_bytes files x = cn_sent ?c @ r" by blast
    moreover have "\<not> cn_closed ?c \<longrightarrow> T @ op_bytes files x = out_stream files ?c"
      using p T by (simp add: advances_def)
    moreover have "conn_inv ?c" using p by simp
    ultimately have "conn_inv (fold (conn_step files) xs ?c) \<and>
        (\<exists>rest'. (T @ op_bytes files x) @ concat (map (op_bytes files) xs) =
          cn_sent (fold (conn_step files) xs ?c) @ rest') \<and>
        (\<not> cn_closed (fold (conn_step files) xs ?c) \<longrightarrow>
          (T @ op_bytes files x) @ concat (map (op_bytes files) xs) = out_stream files (fold (conn_step files) xs ?c))"
      using Cons.IH by blast
    then show ?thesis by simp
  qed
qed auto


lemma TcpConnection_new_inv: "conn_inv (cn_start TcpConnection_new)" "\<not> cn_closed (cn_start TcpConnection_new)"
  "out_stream files (cn_start TcpConnection_new) = []" "cn_sent (cn_start TcpConnection_new) = []"
  by (simp_all add: conn_inv_def cn_start_def TcpConnection_new_def out_stream_def backlog_def
      file_rest_def) (simp_all add: buffer_new_def readableBytes_def)

text \<open>A connection after a sequence of operations, with any answers of the kernel.\<close>

definition conn_run :: "(int \<Rightarrow> string) \<Rightarrow> (conn_op \<times> io list) list \<Rightarrow> conn" where
  "conn_run files xs = fold (conn_step files) xs (cn_start TcpConnection_new)"

lemma conn_run_inv:
  "conn_inv (conn_run files xs) \<and>
    (\<exists>rest. concat (map (op_bytes files) xs) = cn_sent (conn_run files xs) @ rest) \<and>
    (\<not> cn_closed (conn_run files xs) \<longrightarrow>
      concat (map (op_bytes files) xs) = cn_sent (conn_run files xs) @ backlog files (conn_run files xs))"
  using conn_run_props [of "cn_start TcpConnection_new" "[]" "[]" files xs] TcpConnection_new_inv
  by (simp add: conn_run_def out_stream_def)

text \<open>
  C27: bytes leave in order. Whatever the sequence of sends, files, writable events, half-closes
  and closes, and whatever the kernel answers, the bytes the peer receives are a prefix of the
  bytes handed over, files included, in the order they were handed over; while the connection is
  open the rest is exactly what the connection still holds.
\<close>

theorem bytes_leave_in_order:
  "\<exists>rest. concat (map (op_bytes files) xs) = cn_sent (conn_run files xs) @ rest \<and>
    (cn_closed (conn_run files xs) \<or> rest = backlog files (conn_run files xs))"
  using conn_run_inv [of files xs] by blast

text \<open>
  C28: nothing is stuck. In every state an open connection can reach, if it still holds bytes to
  send or a file to finish, its channel asks for writable events.
\<close>

theorem waiting_bytes_have_write_interest:
  assumes "c = conn_run files xs" "\<not> cn_closed c"
    and "cn_sent c \<noteq> concat (map (op_bytes files) xs) \<or> cn_pendingFile c \<noteq> None"
  shows "cn_events c AND EPOLLOUT \<noteq> 0"
proof -
  have i: "conn_inv c" "concat (map (op_bytes files) xs) = cn_sent c @ backlog files c"
    using conn_run_inv [of files xs] assms(1,2) by simp_all
  have "0 < readableBytes (cn_output c) \<or> cn_pendingFile c \<noteq> None"
  proof (rule ccontr)
    assume n: "\<not> ?thesis"
    then have "backlog files c = []"
      using i(1) readable_Nil by (simp add: backlog_def file_rest_def conn_inv_def)
    then show False using assms(3) i(2) n by simp
  qed
  then show ?thesis using i(1) assms(2) by (simp add: conn_inv_def)
qed

text \<open>
  The half-close waits. An operation that shuts the write side leaves nothing behind: right
  after it, everything handed over has been sent.
\<close>

lemma half_close_after_last_byte:
  assumes "c = conn_run files xs" "c' = conn_step files x c" "cn_shut c'" "\<not> cn_shut c" "\<not> cn_closed c'"
  shows "cn_sent c' = concat (map (op_bytes files) (xs @ [x]))"
proof -
  have i: "conn_inv c" using conn_run_inv [of files xs] assms(1) by simp
  have n: "\<not> cn_closed c" using assms(2,5) conn_step_closed by metis
  have "out_stream files c' = cn_sent c'"
    using conn_step_props [OF i n, of files x] assms(2-4) by (simp add: shut_ok_def)
  moreover have "c' = conn_run files (xs @ [x])" using assms(1,2) by (simp add: conn_run_def)
  then have "concat (map (op_bytes files) (xs @ [x])) = out_stream files c'"
    using conn_run_inv [of files "xs @ [x]"] assms(5) by (simp add: out_stream_def)
  ultimately show ?thesis by simp
qed

section \<open>Closing and reading\<close>

definition closes_once :: "conn \<Rightarrow> bool" where
  "closes_once c \<longleftrightarrow> cn_closeCalls c = (if cn_closed c then 1 else 0)"

lemma closes_once_handleClose: "closes_once c \<Longrightarrow> closes_once (handleClose c)"
  by (simp add: closes_once_def handleClose_def)

lemma closes_once_cong: "cn_closed c' = cn_closed c \<Longrightarrow> cn_closeCalls c' = cn_closeCalls c \<Longrightarrow>
    closes_once c' = closes_once c"
  by (simp add: closes_once_def)

lemma closes_once_simps [simp]:
  "closes_once (took s c) = closes_once c" "closes_once (count_error c) = closes_once c"
  "closes_once (keep_rest s c) = closes_once c" "closes_once (file_done c) = closes_once c"
  "closes_once (write_done c) = closes_once c" "closes_once (refreshIdleTimer c) = closes_once c"
  "closes_once (shutdownWrite c) = closes_once c" "closes_once (cn_enableWriting c) = closes_once c"
  by (rule closes_once_cong; simp add: took_def count_error_def keep_rest_def cn_enableWriting_def
      file_done_def write_done_def cn_disableWriting_def refreshIdleTimer_def shutdownWrite_def Let_def)+

lemma closes_once_update [simp]:
  "closes_once (c\<lparr>cn_output := b\<rparr>) = closes_once c"
  "closes_once (c\<lparr>cn_preFileBytes := n\<rparr>) = closes_once c"
  "closes_once (c\<lparr>cn_fileOffset := n\<rparr>) = closes_once c"
  "closes_once (c\<lparr>cn_fileRemaining := n\<rparr>) = closes_once c"
  "closes_once (c\<lparr>cn_pendingFile := f\<rparr>) = closes_once c"
  by (simp_all add: closes_once_def)

lemma closes_once_flush: "closes_once c \<Longrightarrow> closes_once (fst (snd (flushOutput limit c rs)))"
proof (induction rs arbitrary: limit c)
  case (Cons r rs)
  then show ?case by (cases r) (auto simp: Let_def closes_once_handleClose)
qed simp

lemma closes_once_file: "closes_once c \<Longrightarrow> closes_once (fst (snd (sendPendingFile files c rs)))"
proof (induction rs arbitrary: c)
  case (Cons r rs)
  then show ?case by (cases r) (auto simp: Let_def closes_once_handleClose)
qed simp

lemma closes_once_write: "closes_once c \<Longrightarrow> closes_once (fst (handleWrite files c rs))"
proof -
  assume o: "closes_once c"
  have 1: "closes_once (fst (snd (write_stage1 c rs)))"
    using o closes_once_flush [OF o, of "cn_preFileBytes c" rs]
    by (auto simp: write_stage1_def split: prod.splits)
  have 2: "closes_once d \<Longrightarrow> closes_once (fst (snd (write_stage2 files d rs)))" for d rs
    using closes_once_file by (simp add: write_stage2_def)
  have 3: "closes_once d \<Longrightarrow> closes_once (fst (snd (write_stage3 d rs)))" for d rs
    using closes_once_flush by (simp add: write_stage3_def)
  obtain ok1 c1 rs1 where s1: "write_stage1 c rs = (ok1, c1, rs1)" by (cases "write_stage1 c rs") auto
  obtain ok2 c2 rs2 where s2: "write_stage2 files c1 rs1 = (ok2, c2, rs2)"
    by (cases "write_stage2 files c1 rs1") auto
  obtain ok3 c3 rs3 where s3: "write_stage3 c2 rs2 = (ok3, c3, rs3)" by (cases "write_stage3 c2 rs2") auto
  have "closes_once c1" "closes_once c2" "closes_once c3"
    using 1 2 [of c1 rs1] 3 [of c2 rs2] s1 s2 s3 by simp_all
  then show ?thesis using o s1 s2 s3 by (simp add: handleWrite_def)
qed

lemma closes_once_sendInLoop: "closes_once c \<Longrightarrow> closes_once (fst (sendInLoop d c rs))"
  by (auto simp: sendInLoop_def Let_def closes_once_handleClose split: list.split io.split)

lemma closes_once_step: "closes_once c \<Longrightarrow> closes_once (conn_step files x c)"
  by (cases x; cases "fst x")
    (auto simp: conn_step_def send_def sendFile_def forceClose_def handleIdleTimeout_def
      closes_once_handleClose closes_once_sendInLoop intro!: closes_once_write)

text \<open>
  The close callback runs once. After any sequence of operations and any answers of the
  kernel, the close callback has run exactly once if the connection is closed and never if it is
  open.
\<close>

lemma close_callback_runs_once:
  "cn_closeCalls (conn_run files xs) = (if cn_closed (conn_run files xs) then 1 else 0)"
proof -
  have "closes_once (fold (conn_step files) xs c)" if "closes_once c" for c
    using that by (induction xs arbitrary: c) (auto intro: closes_once_step)
  moreover have "closes_once (cn_start TcpConnection_new)"
    by (simp add: closes_once_def cn_start_def TcpConnection_new_def)
  ultimately show ?thesis by (simp add: conn_run_def closes_once_def)
qed

text \<open>
  A callback that closes costs two errors. When the message callback closes the connection,
  the read loop goes on with the closed descriptor: the failed read and the error handler each
  count an error, although nothing went wrong; the close callback still runs only once.
\<close>

lemma close_in_callback_counts_two_errors:
  assumes "\<not> cn_closed c" "d \<noteq> []" "length d \<le> readFd_capacity (cn_input c)" "buffer_valid (cn_input c)"
  shows "cn_errors (handleRead forceClose c (Inr d # rs)) = cn_errors c + 2 \<and>
    cn_closeCalls (handleRead forceClose c (Inr d # rs)) = cn_closeCalls c + 1"
proof -
  obtain b where b: "readFd (cn_input c) (Inr d) = (int (length d), None, b)"
    using readFd_valid_contents [OF assms(4,3)] by blast
  let ?c = "handleClose (c\<lparr>cn_input := b\<rparr>)"
  have "cn_read_loop forceClose ?c rs True = (ReadFailed, True, ?c)" by (cases rs) simp_all
  then have "cn_read_loop forceClose c (Inr d # rs) False = (ReadFailed, True, ?c)"
    using assms(1,2) b by (simp add: forceClose_def)
  then show ?thesis
    using assms(1) by (simp add: handleRead_def handleError_def handleClose_def count_error_def)
qed


section \<open>The file of a connection\<close>

text \<open>An operation leaves the file a connection is sending alone, or lets go of it.\<close>

definition lets_go :: "conn \<Rightarrow> conn \<Rightarrow> bool" where
  "lets_go c c' \<longleftrightarrow> cn_pendingFile c' = None \<or> cn_pendingFile c' = cn_pendingFile c"

lemma lets_go_trans: "lets_go c c' \<Longrightarrow> lets_go c' c'' \<Longrightarrow> lets_go c c''"
  by (auto simp: lets_go_def)

lemma lets_go_cong: "cn_pendingFile c' = cn_pendingFile c \<Longrightarrow> lets_go c c'"
  by (simp add: lets_go_def)

lemma lets_go_handleClose [simp]: "lets_go c (handleClose (count_error c))" "lets_go c (handleClose c)"
  by (simp_all add: lets_go_def handleClose_def count_error_def)

lemma lets_go_flush: "lets_go c (fst (snd (flushOutput limit c rs)))"
proof (induction rs arbitrary: limit c)
  case (Cons r rs)
  have "lets_go c (fst (snd (flushOutput l (took s (c\<lparr>cn_output := b, cn_preFileBytes := n\<rparr>)) rs)))" for l s b n
    using Cons [of "took s (c\<lparr>cn_output := b, cn_preFileBytes := n\<rparr>)" l] by (simp add: lets_go_def)
  then show ?case using Cons by (cases r) (auto simp: Let_def lets_go_cong)
qed (simp add: lets_go_def)

lemma lets_go_file: "lets_go c (fst (snd (sendPendingFile files c rs)))"
proof (induction rs arbitrary: c)
  case (Cons r rs)
  have "lets_go c (fst (snd (sendPendingFile files
      (took s (c\<lparr>cn_fileOffset := m, cn_fileRemaining := n\<rparr>)) rs)))" for s m n
    using Cons [of "took s (c\<lparr>cn_fileOffset := m, cn_fileRemaining := n\<rparr>)"] by (simp add: lets_go_def)
  moreover have "lets_go c (file_done c)" by (simp add: lets_go_def file_done_def)
  ultimately show ?case using Cons by (cases r) (auto simp: Let_def lets_go_cong)
qed (simp add: lets_go_def file_done_def)

lemma lets_go_write: "lets_go c (fst (handleWrite files c rs))"
proof -
  obtain ok1 c1 rs1 where s1: "write_stage1 c rs = (ok1, c1, rs1)" by (cases "write_stage1 c rs") auto
  obtain ok2 c2 rs2 where s2: "write_stage2 files c1 rs1 = (ok2, c2, rs2)"
    by (cases "write_stage2 files c1 rs1") auto
  obtain ok3 c3 rs3 where s3: "write_stage3 c2 rs2 = (ok3, c3, rs3)" by (cases "write_stage3 c2 rs2") auto
  have 1: "lets_go c c1"
    using s1 lets_go_flush [of c "cn_preFileBytes c" rs]
    by (auto simp: write_stage1_def lets_go_def split: if_splits prod.splits)
  have 2: "lets_go c1 c2"
    using s2 lets_go_file [of c1 files rs1] by (auto simp: write_stage2_def lets_go_cong split: if_splits)
  have 3: "lets_go c2 c3"
    using s3 lets_go_flush [of c2 "readableBytes (cn_output c2)" rs2]
    by (auto simp: write_stage3_def lets_go_cong split: if_splits)
  have 4: "lets_go c3 (write_done c3)"
    by (simp add: lets_go_def write_done_def cn_disableWriting_def Let_def)
  show ?thesis
    using s1 s2 s3 1 lets_go_trans [OF 1 2] lets_go_trans [OF lets_go_trans [OF 1 2] 3]
      lets_go_trans [OF lets_go_trans [OF lets_go_trans [OF 1 2] 3] 4]
    by (auto simp: handleWrite_def lets_go_cong)
qed

lemma lets_go_sendInLoop: "lets_go c (fst (sendInLoop d c rs))"
proof -
  have "lets_go c (keep_rest s c)" "lets_go c (keep_rest s (took t c))" for s t
    by (simp_all add: lets_go_def keep_rest_def cn_enableWriting_def)
  then show ?thesis by (auto simp: sendInLoop_def Let_def split: list.split io.split)
qed

lemma lets_go_send: "lets_go c (fst (send d c rs))"
  using lets_go_sendInLoop by (simp add: send_def lets_go_cong)

lemma sendFile_pending:
  "lets_go c (fst (sendFile files f c rs)) \<or> cn_pendingFile (fst (sendFile files f c rs)) = Some f"
proof -
  let ?c = "cn_enableWriting (c\<lparr>cn_preFileBytes := readableBytes (cn_output c), cn_pendingFile := Some f,
    cn_fileOffset := fb_offset f, cn_fileRemaining := fb_length f\<rparr>)"
  have "lets_go ?c (fst (handleWrite files ?c rs))" by (rule lets_go_write)
  then have "cn_pendingFile (fst (handleWrite files ?c rs)) = None \<or>
      cn_pendingFile (fst (handleWrite files ?c rs)) = Some f"
    by (simp add: lets_go_def cn_enableWriting_def)
  then show ?thesis
    using lets_go_sendInLoop [of c "file_region files f" rs] by (auto simp: sendFile_def lets_go_def)
qed

lemma conn_step_lets_go:
  assumes "\<forall>f. fst x \<noteq> OpFile f"
  shows "lets_go c (conn_step files x c)"
proof (cases x)
  case (Pair oper rs)
  then show ?thesis
    using assms lets_go_send lets_go_write
    by (cases oper) (auto simp: conn_step_def lets_go_cong shutdownWrite_def forceClose_def handleIdleTimeout_def)
qed

section \<open>Inputs\<close>

text \<open>A file of four bytes, asked for while the socket takes nothing, then a half-close.\<close>

definition demo_run :: "(conn_op \<times> io list) list" where
  "demo_run = [(OpFile \<lparr>fb_fd = 3, fb_offset = 0, fb_length = 4\<rparr>, []), (OpShutdown, [])]"

lemma readable_new [simp]: "readableBytes (buffer_new n) = 0"
  by (simp add: buffer_new_def readableBytes_def)

lemma demo_run_state:
  "conn_run (\<lambda>fd. ''body'') demo_run = TcpConnection_new\<lparr>cn_events := kReadEvent OR kWriteEvent,
     cn_pendingFile := Some \<lparr>fb_fd = 3, fb_offset = 0, fb_length = 4\<rparr>, cn_fileRemaining := 4,
     cn_shutdownAfterWrite := True\<rparr>"
  by (simp add: conn_run_def demo_run_def conn_step_def sendFile_def handleWrite_def write_stage1_def
      write_stage2_def cn_enableWriting_def cn_start_def TcpConnection_new_def shutdownWrite_def)

theorem waiting_bytes_have_write_interest_witness:
  "cn_events (conn_run (\<lambda>fd. ''body'') demo_run) AND EPOLLOUT \<noteq> 0"
  by (rule waiting_bytes_have_write_interest [OF refl])
    (simp_all add: demo_run_state TcpConnection_new_def)

lemma half_close_after_last_byte_witness:
  "cn_sent (conn_step (\<lambda>fd. ''body'') (OpWritable, [IoBytes 4]) (conn_run (\<lambda>fd. ''body'') demo_run)) =
     ''body''"
proof -
  let ?c = "conn_step (\<lambda>fd. ''body'') (OpWritable, [IoBytes 4]) (conn_run (\<lambda>fd. ''body'') demo_run)"
  have "cn_shut ?c" "\<not> cn_closed ?c" "\<not> cn_shut (conn_run (\<lambda>fd. ''body'') demo_run)"
    unfolding demo_run_state
    by (simp_all add: conn_step_def handleWrite_def write_stage1_def write_stage2_def write_stage3_def
        write_done_def cn_disableWriting_def file_done_def took_def file_rest_def TcpConnection_new_def Let_def)
  from half_close_after_last_byte [OF refl refl this(1,3,2)] show ?thesis
    by (simp add: demo_run_def op_bytes_def file_region_def)
qed

lemma close_in_callback_counts_two_errors_witness:
  "cn_errors (handleRead forceClose (cn_start TcpConnection_new) [Inr ''x'']) = 2"
proof -
  have "cn_input (cn_start TcpConnection_new) = buffer_new kInitialSize"
    by (simp add: cn_start_def TcpConnection_new_def)
  moreover have "length ''x'' \<le> readFd_capacity (buffer_new kInitialSize)"
    by (simp add: readFd_capacity_def extraSize_def writableBytes_def buffer_new_def kInitialSize_def)
  ultimately show ?thesis
    using close_in_callback_counts_two_errors [of "cn_start TcpConnection_new" "''x''" "[]"]
      TcpConnection_new_inv(2) by (simp add: cn_start_def TcpConnection_new_def)
qed

end
