(* ===== verification/Server_Props.thy ===== *)
theory Server_Props
  imports Server Http_Roundtrip Tcp_Connection_Props
begin

text \<open>
  Properties of the assembled server: what the message callback puts on the wire for pipelined
  requests, with and without worker threads, and what the connection table is worth with and
  without IO threads.
\<close>

section \<open>What a connection owes its peer\<close>

text \<open>
  \<open>T\<close> is everything handed to the connection so far: what the kernel took is a prefix of it, and
  while the connection is open the rest is its backlog.
\<close>

definition tracks :: "(int \<Rightarrow> string) \<Rightarrow> string \<Rightarrow> conn \<Rightarrow> bool" where
  "tracks files T c \<longleftrightarrow> conn_inv c \<and> (\<exists>rest. T = cn_sent c @ rest) \<and>
     (\<not> cn_closed c \<longrightarrow> T = out_stream files c)"

lemma tracks_step: "tracks files T c \<Longrightarrow> tracks files (T @ op_bytes files x) (conn_step files x c)"
proof -
  assume t: "tracks files T c"
  then obtain rest where "T = cn_sent c @ rest" by (auto simp: tracks_def)
  from conn_run_props [OF _ this, of files "[x]"] t show ?thesis by (simp add: tracks_def)
qed

lemma tracks_input [simp]: "tracks files T (c\<lparr>cn_input := b\<rparr>) = tracks files T c"
  by (simp add: tracks_def conn_inv_def out_stream_def backlog_def file_rest_def cong: option.case_cong)

lemma tracks_send: "tracks files T c \<Longrightarrow> tracks files (T @ d) (fst (send d c rs))"
  using tracks_step [of files T c "(OpSend d, rs)"] by (simp add: conn_step_def op_bytes_def)

lemma tracks_sendFile: "tracks files T c \<Longrightarrow> tracks files (T @ file_region files f) (fst (sendFile files f c rs))"
  using tracks_step [of files T c "(OpFile f, rs)"] by (simp add: conn_step_def op_bytes_def)

lemma tracks_shutdown: "tracks files T c \<Longrightarrow> tracks files T (shutdownWrite c)"
  using tracks_step [of files T c "(OpShutdown, rs)"] by (simp add: conn_step_def op_bytes_def)

lemma tracks_start: "tracks files [] (cn_start TcpConnection_new)"
  using TcpConnection_new_inv by (simp add: tracks_def)

section \<open>Session frames\<close>

lemma session_simps [simp]:
  "ss_conn (tick s) = ss_conn s" "ss_io (tick s) = ss_io s" "ss_jobs (tick s) = ss_jobs s"
  "ss_readings (tick s) = ss_readings s + 1" "ss_metrics (tick s) = ss_metrics s"
  "ss_bucket (tick s) = ss_bucket s"
  "ss_conn (on_metrics g s) = ss_conn s" "ss_io (on_metrics g s) = ss_io s"
  "ss_jobs (on_metrics g s) = ss_jobs s" "ss_readings (on_metrics g s) = ss_readings s"
  "ss_bucket (on_metrics g s) = ss_bucket s" "ss_metrics (on_metrics g s) = g (ss_metrics s)"
  by (simp_all add: tick_def on_metrics_def)

lemma on_conn_simps [simp]:
  "ss_conn (on_conn g s) = fst (g (ss_conn s) (ss_io s))" "ss_jobs (on_conn g s) = ss_jobs s"
  "ss_readings (on_conn g s) = ss_readings s"
  by (simp_all add: on_conn_def case_prod_beta)

lemma update_conn_simps [simp]:
  "ss_conn (update_conn g s) = g (ss_conn s)" "ss_jobs (update_conn g s) = ss_jobs s"
  "ss_readings (update_conn g s) = ss_readings s" "ss_parser (update_conn g s) = ss_parser s"
  by (simp_all add: update_conn_def on_conn_def)

text \<open>The bytes of one response.\<close>

definition reply_bytes :: "server_env \<Rightarrow> http_request \<Rightarrow> http_response \<Rightarrow> nat \<Rightarrow> string" where
  "reply_bytes e request response k =
     serialize (se_date e k) (rq_method request \<noteq> kHead) (setCloseConnection (\<not> rq_keepAlive request) response) @
     (case rs_fileBody response of
        Some f \<Rightarrow> if rq_method request = kHead then [] else file_region (se_files e) f
      | None \<Rightarrow> [])"

lemma respond_tracks:
  assumes "tracks (se_files e) T (ss_conn s)"
  shows "tracks (se_files e) (T @ reply_bytes e request response (ss_readings s))
    (ss_conn (respond e (rq_method request = kHead) (rq_keepAlive request) t0 response s))"
proof -
  let ?ser = "serialize (se_date e (ss_readings s)) (rq_method request \<noteq> kHead)
    (setCloseConnection (\<not> rq_keepAlive request) response)"
  have 1: "tracks (se_files e) (T @ ?ser) (fst (send ?ser (ss_conn s) rs))" for rs
    using assms by (rule tracks_send)
  have 2: "rs_fileBody (setCloseConnection b response) = rs_fileBody response" for b
    by (simp add: setCloseConnection_def)
  show ?thesis
    using 1 tracks_sendFile [OF 1] tracks_shutdown
    by (auto simp: respond_def Let_def reply_bytes_def 2 split: option.split)
qed

section \<open>Pipelined requests\<close>

text \<open>The replies to a list of requests, computed along the states they meet.\<close>

definition reply_to :: "server_env \<Rightarrow> http_request \<Rightarrow> session \<Rightarrow> string" where
  "reply_to e request s = (case decide e request (start_request request s) of
     (Some response, s1) \<Rightarrow> reply_bytes e request response (ss_readings s1)
   | (None, s1) \<Rightarrow> [])"

fun replies :: "server_env \<Rightarrow> http_request list \<Rightarrow> session \<Rightarrow> string list" where
  "replies e [] s = []"
| "replies e (r # rs) s = reply_to e r s # replies e rs (serve_request e r s)"

lemma admit_conn [simp]: "ss_conn (snd (admit e r s)) = ss_conn s"
  by (simp add: admit_def case_prod_beta)

lemma server_handle_conn [simp]: "ss_conn (snd (server_handle e r s)) = ss_conn s"
  by (simp add: server_handle_def Let_def)

lemma decide_conn: "ss_conn (snd (decide e r s)) = ss_conn s"
  using admit_conn [of e r s] by (auto simp: decide_def case_prod_beta split: bool.split prod.splits)

lemma serve_request_tracks:
  assumes "tracks (se_files e) T (ss_conn s)"
  shows "tracks (se_files e) (T @ reply_to e r s) (ss_conn (serve_request e r s))"
proof -
  obtain q s1 where d: "decide e r (start_request r s) = (q, s1)" by (cases "decide e r (start_request r s)")
  have c: "tracks (se_files e) T (ss_conn s1)"
    using decide_conn [of e r "start_request r s"] assms d by (simp add: start_request_def)
  show ?thesis
    using respond_tracks [OF c] c d
    by (cases q) (simp_all add: serve_request_def reply_to_def Let_def)
qed

lemma serve_requests_tracks:
  "tracks (se_files e) T (ss_conn s) \<Longrightarrow>
     tracks (se_files e) (T @ concat (replies e rs s)) (ss_conn (fold (serve_request e) rs s))"
proof (induction rs arbitrary: T s)
  case (Cons r rs)
  from Cons.IH [OF serve_request_tracks [OF Cons.prems, of r]] show ?case by simp
qed simp

text \<open>A request as a client writes it, and what the server makes of it.\<close>

type_synonym wire_request = "http_method \<times> string \<times> (string \<times> string) list \<times> string"

definition wire :: "wire_request \<Rightarrow> string" where
  "wire r = (case r of (m, t, hs, body) \<Rightarrow> write_request m t ''HTTP/1.1'' hs body)"

definition read_request :: "wire_request \<Rightarrow> http_request" where
  "read_request r = (case r of (m, t, hs, body) \<Rightarrow> built_request m t ''HTTP/1.1'' hs body)"

definition wire_ok :: "wire_request \<Rightarrow> bool" where
  "wire_ok r \<longleftrightarrow> (case r of (m, t, hs, body) \<Rightarrow>
     m \<noteq> kInvalid \<and> plain_target t \<and> list_all plain_header hs \<and>
     length (write_head m t ''HTTP/1.1'' (hs @ length_header body)) \<le> 8192 \<and> length body \<le> 2 ^ 20)"

lemma fold_addHeader_keepAlive [simp]:
  "rq_keepAlive (fold (\<lambda>(k, v). addHeader k v) hs r) = rq_keepAlive r"
  by (induction hs arbitrary: r) (auto simp: case_prod_beta)

lemma read_request_keepAlive: "rq_keepAlive (read_request r)"
  by (simp add: read_request_def built_request_def split: prod.split)

lemma parse_wire:
  assumes "buffer_valid b" "contents b = wire r @ rest" "wire_ok r"
  shows "\<exists>p b'. parse defaultParser b = (kComplete, p, b') \<and> buffer_valid b' \<and> contents b' = rest \<and>
    takeRequest p = (read_request r, defaultParser)"
proof -
  obtain m t hs body where r: "r = (m, t, hs, body)" by (cases r)
  show ?thesis
    unfolding defaultParser_def r
    using parse_written [OF assms(1), of m t "''HTTP/1.1''" hs body rest 8192 "2 ^ 20"] assms
    by (simp add: wire_def wire_ok_def read_request_def r list_all_iff)
qed

lemma message_loop_wire:
  assumes "buffer_valid b" "contents b = wire r @ rest" "wire_ok r"
  shows "\<exists>b'. buffer_valid b' \<and> contents b' = rest \<and>
    message_loop e defaultParser b s = message_loop e defaultParser b' (serve_request e (read_request r) s)"
proof -
  obtain p b' where p: "parse defaultParser b = (kComplete, p, b')" "buffer_valid b'" "contents b' = rest"
    "takeRequest p = (read_request r, defaultParser)"
    using parse_wire [OF assms] by blast
  then have "message_loop e defaultParser b s =
      message_loop e defaultParser b' (serve_request e (read_request r) s)"
    by (subst message_loop.simps) (simp add: Let_def read_request_keepAlive)
  with p show ?thesis by blast
qed

lemma message_loop_rest:
  assumes "buffer_valid b" "spec_parse p (contents b) = (kNeedMore, p', left)"
  shows "\<exists>b'. message_loop e p b s = (p', b', s) \<and> buffer_valid b' \<and> contents b' = left"
  using parse_refines [OF assms(1), of p] assms(2)
  by (cases "parse p b") (auto simp: agrees_def message_loop.simps [of e p b s])

lemma message_loop_wires:
  assumes "buffer_valid b" "contents b = concat (map wire rs) @ rest" "list_all wire_ok rs"
    and "spec_parse defaultParser rest = (kNeedMore, p', left)"
  shows "\<exists>b'. buffer_valid b' \<and> contents b' = left \<and>
    message_loop e defaultParser b s = (p', b', fold (serve_request e) (map read_request rs) s)"
  using assms
proof (induction rs arbitrary: b s)
  case Nil
  then show ?case using message_loop_rest [of b defaultParser p' left e s] by auto
next
  case (Cons r rs)
  then obtain b1 where b1: "buffer_valid b1" "contents b1 = concat (map wire rs) @ rest"
    "message_loop e defaultParser b s = message_loop e defaultParser b1 (serve_request e (read_request r) s)"
    using message_loop_wire [of b r "concat (map wire rs) @ rest" e s] by auto
  then show ?case using Cons.IH [OF b1(1,2), of "serve_request e (read_request r) s"] Cons.prems by simp
qed

text \<open>Without worker threads every request is answered by one response.\<close>

lemma starts_with_serialize: "starts_with ''HTTP/1.1 '' (serialize date b r @ t)"
  by (simp add: serialize_def starts_with_def)

lemma reply_to_starts:
  assumes "op_workerThreads (se_options e) = 0"
  shows "starts_with ''HTTP/1.1 '' (reply_to e r s)"
proof -
  have "\<exists>q s1. decide e r (start_request r s) = (Some q, s1)"
    using assms by (auto simp: decide_def offloaded_def case_prod_beta split: prod.split bool.split)
  then show ?thesis by (auto simp: reply_to_def reply_bytes_def starts_with_serialize)
qed

section \<open>Worker threads\<close>

text \<open>
  What a worker's job for request \<open>r\<close> writes when it is done in state \<open>s\<close>: the router's response
  to \<open>r\<close>, with the date read right after it.
\<close>

definition job_reply :: "server_env \<Rightarrow> http_request \<Rightarrow> session \<Rightarrow> string" where
  "job_reply e r s = (case server_handle e r s of (response, s2) \<Rightarrow> reply_bytes e r response (ss_readings s2))"

lemma finish_job_tracks:
  assumes "tracks (se_files e) T (ss_conn s)" "i < length (ss_jobs s)"
    and "ss_jobs s ! i = \<lparr>jb_request = r, jb_headOnly = (rq_method r = kHead), jb_keepAlive = rq_keepAlive r, jb_start = t0\<rparr>"
  shows "tracks (se_files e) (T @ job_reply e r s) (ss_conn (finish_job e i s)) \<and>
    ss_jobs (finish_job e i s) = take i (ss_jobs s) @ drop (Suc i) (ss_jobs s)"
proof -
  let ?s = "s\<lparr>ss_jobs := take i (ss_jobs s) @ drop (Suc i) (ss_jobs s)\<rparr>"
  obtain response s2 where h: "server_handle e r ?s = (response, s2)" by (cases "server_handle e r ?s")
  have "job_reply e r s = job_reply e r ?s"
    by (simp add: job_reply_def server_handle_def Let_def)
  with h have jr: "job_reply e r s = reply_bytes e r response (ss_readings s2)" by (simp add: job_reply_def)
  from h have c: "tracks (se_files e) T (ss_conn s2)" "ss_jobs s2 = ss_jobs ?s"
    using server_handle_conn [of e r ?s] assms(1) by (simp, simp add: server_handle_def Let_def split: if_splits) auto
  have j: "ss_jobs (respond e a b t q s2) = ss_jobs s2" for a b t q
    by (simp add: respond_def Let_def split: option.split)
  show ?thesis
    unfolding jr using respond_tracks [OF c(1), of r response t0] h assms(2,3) c(2) j
    by (auto simp: finish_job_def Let_def)
qed

definition job_of :: "http_request \<Rightarrow> int \<Rightarrow> job" where
  "job_of r t = \<lparr>jb_request = r, jb_headOnly = (rq_method r = kHead), jb_keepAlive = rq_keepAlive r, jb_start = t\<rparr>"

lemma serve_offloaded:
  assumes "offloaded e r" "tb_rate (ss_bucket s) \<le> 0"
  shows "\<exists>t. ss_jobs (serve_request e r s) = ss_jobs s @ [job_of r t] \<and>
    ss_conn (serve_request e r s) = ss_conn s \<and> ss_bucket (serve_request e r s) = ss_bucket s"
proof -
  have "\<exists>s1. decide e r (start_request r s) = (None, s1) \<and> ss_jobs s1 = ss_jobs s \<and>
      ss_conn s1 = ss_conn s \<and> ss_bucket s1 = ss_bucket s"
    using assms by (simp add: decide_def admit_def start_request_def tryAcquire_def)
  then show ?thesis by (auto simp: serve_request_def job_of_def)
qed

lemma spec_parse_Nil: "spec_parse defaultParser [] = (kNeedMore, defaultParser, [])"
  by (simp add: spec_parse_def spec_request_def defaultParser_def HttpParser_new_def findCRLF_def)

text \<open>
  C32: with worker threads the replies to pipelined requests can go out in the wrong order. Two
  keep-alive requests that both go to the worker pool are both taken from the input at once. Whichever
  job is done first is answered first: if it is the second, the connection is handed the router's
  response to the second request and then the one to the first, although HTTP promises the order of
  the requests, which comes about only if the first job happens to be done first. Nothing in a
  response tells the client which request it answers.
\<close>

theorem offloaded_replies_swap:
  assumes "tracks (se_files e) T (ss_conn s)" and "buffer_valid (cn_input (ss_conn s))"
    and "ss_parser s = defaultParser" and "wire_ok r1" and "wire_ok r2"
    and "contents (cn_input (ss_conn s)) = wire r1 @ wire r2"
    and "offloaded e (read_request r1)" and "offloaded e (read_request r2)"
    and "ss_jobs s = []" and "tb_rate (ss_bucket s) \<le> 0"
  shows "tracks (se_files e)
      (T @ job_reply e (read_request r2) (on_message e s) @
       job_reply e (read_request r1) (finish_job e 1 (on_message e s)))
      (ss_conn (finish_job e 0 (finish_job e 1 (on_message e s)))) \<and>
    tracks (se_files e)
      (T @ job_reply e (read_request r1) (on_message e s) @
       job_reply e (read_request r2) (finish_job e 0 (on_message e s)))
      (ss_conn (finish_job e 0 (finish_job e 0 (on_message e s))))"
proof -
  let ?s = "serve_request e (read_request r2) (serve_request e (read_request r1) s)"
  let ?m = "on_message e s"
  obtain b' where "message_loop e defaultParser (cn_input (ss_conn s)) s = (defaultParser, b', ?s)"
    using message_loop_wires [OF assms(2), of "[r1, r2]" "[]" _ _ e s] assms(4-6) spec_parse_Nil by auto
  then have m: "?m = ?s\<lparr>ss_parser := defaultParser, ss_conn := (ss_conn ?s)\<lparr>cn_input := b'\<rparr>\<rparr>"
    using assms(3) by (simp add: on_message_def)
  obtain t1 t2 where j: "ss_jobs ?s = [job_of (read_request r1) t1, job_of (read_request r2) t2]"
    and c: "ss_conn ?s = ss_conn s"
    using serve_offloaded [OF assms(7,10)] serve_offloaded [OF assms(8), of "serve_request e (read_request r1) s"]
      assms(9,10) by auto
  have t: "tracks (se_files e) T (ss_conn ?m)" using assms(1) c by (simp add: m)
  have jobs: "ss_jobs ?m = [job_of (read_request r1) t1, job_of (read_request r2) t2]" using j by (simp add: m)
  have two: "tracks (se_files e) (U @ job_reply e r x) (ss_conn (finish_job e i x)) \<and>
      ss_jobs (finish_job e i x) = take i (ss_jobs x) @ drop (Suc i) (ss_jobs x)"
    if "tracks (se_files e) U (ss_conn x)" "i < length (ss_jobs x)" "ss_jobs x ! i = job_of r t" for U x i r t
    using finish_job_tracks [OF that(1,2) that(3) [unfolded job_of_def]] .
  have 1: "tracks (se_files e) (T @ job_reply e (read_request r2) ?m) (ss_conn (finish_job e 1 ?m)) \<and>
      ss_jobs (finish_job e 1 ?m) = [job_of (read_request r1) t1]"
    using two [OF t, of 1 "read_request r2" t2] by (simp add: jobs)
  have 2: "tracks (se_files e) (T @ job_reply e (read_request r1) ?m) (ss_conn (finish_job e 0 ?m)) \<and>
      ss_jobs (finish_job e 0 ?m) = [job_of (read_request r2) t2]"
    using two [OF t, of 0 "read_request r1" t1] by (simp add: jobs)
  show ?thesis
    using two [OF 1 [THEN conjunct1], of 0 "read_request r1" t1] two [OF 2 [THEN conjunct1], of 0 "read_request r2" t2]
      1 2 by simp
qed

section \<open>Malformed requests\<close>

text \<open>
  After a malformed request the parser stays in its error state, so every further read is
  answered by another 400, however long the peer goes on sending.
\<close>

lemma error_answered_again:
  assumes "ss_parser s = p" "ps_state p = kError" "tracks (se_files e) T (ss_conn s)"
  shows "ss_parser (on_message e s) = p \<and>
    tracks (se_files e) (T @ bad_request_bytes e (ss_readings s)) (ss_conn (on_message e s))"
proof -
  have "message_loop e p b s = (p, b, reject_request e s)" for b
    using assms(2) by (subst message_loop.simps) (simp add: parse_def)
  then show ?thesis
    using assms tracks_shutdown [OF tracks_send [OF assms(3)]]
    by (simp add: on_message_def reject_request_def)
qed

section \<open>Instances\<close>

definition demo_env :: "nat \<Rightarrow> server_env" where
  "demo_env workers = \<lparr>se_files = (\<lambda>fd. []), se_fs = \<lparr>fs_stat = Map.empty, fs_content = Map.empty, fs_open = (\<lambda>p. -1)\<rparr>,
     se_options = ServerOptions_new\<lparr>op_workerThreads := workers, op_proxyPass := ''none''\<rparr>,
     se_forward = (\<lambda>k r ip. badGateway []), se_now = int, se_date = (\<lambda>k. ''Sun, 06 Nov 1994 08:49:37 GMT''),
     se_timers = (\<lambda>k. 2), se_logLines = id,
     se_peerIp = ''127.0.0.1''\<rparr>"

definition demo_wire :: wire_request where
  "demo_wire = (kGet, ''/index.html'', [], [])"

definition demo_session :: session where
  "demo_session = \<lparr>ss_parser = defaultParser,
     ss_conn = (cn_start TcpConnection_new)\<lparr>cn_input := buffer_append (buffer_new 1024) (wire demo_wire @ wire demo_wire)\<rparr>,
     ss_io = [], ss_metrics = metrics_reset 0, ss_bucket = configure 0 0 0, ss_readings = 0, ss_jobs = []\<rparr>"

lemma demo_wire_ok: "wire_ok demo_wire"
  by (simp add: demo_wire_def wire_ok_def plain_target_def write_head_def methodToString_def
      length_header_def)

lemma demo_session_ok:
  "tracks files [] (ss_conn demo_session)" "buffer_valid (cn_input (ss_conn demo_session))"
  "contents (cn_input (ss_conn demo_session)) = wire demo_wire @ wire demo_wire"
  "ss_parser demo_session = defaultParser" "ss_jobs demo_session = []"
  using tracks_start buffer_append_props [OF buffer_new_valid]
  by (simp_all add: demo_session_def)

text \<open>A GET of a missing file and then a POST: 404 and 405 are due, and 405 comes first.\<close>

definition demo_wire2 :: wire_request where
  "demo_wire2 = (kPost, ''/index.html'', [], [])"

definition demo_pair :: session where
  "demo_pair = demo_session\<lparr>ss_conn := (cn_start TcpConnection_new)
     \<lparr>cn_input := buffer_append (buffer_new 1024) (wire demo_wire @ wire demo_wire2)\<rparr>\<rparr>"

lemma demo_pair_ok:
  "tracks files [] (ss_conn demo_pair)" "buffer_valid (cn_input (ss_conn demo_pair))"
  "contents (cn_input (ss_conn demo_pair)) = wire demo_wire @ wire demo_wire2"
  "ss_parser demo_pair = defaultParser" "ss_jobs demo_pair = []" "wire_ok demo_wire2"
  using tracks_start buffer_append_props [OF buffer_new_valid]
  by (simp_all add: demo_pair_def demo_session_def demo_wire2_def wire_ok_def plain_target_def write_head_def
      methodToString_def length_header_def)

lemma demo_paths:
  "rq_path (read_request demo_wire) = ''/index.html''" "rq_method (read_request demo_wire) = kGet"
  "rq_path (read_request demo_wire2) = ''/index.html''" "rq_method (read_request demo_wire2) = kPost"
  by (simp_all add: read_request_def demo_wire_def demo_wire2_def built_request_def length_header_def setPath_def)

lemma demo_router:
  "om_get (rt_handlers (server_router (demo_env 1) k m)) ''/index.html'' = None"
  "rt_prefixHandlers (server_router (demo_env 1) k m) = []"
  "isPathSafe ''/index.html''"
  by (simp_all add: server_router_def demo_env_def proxy_of_options_def registerHandler_def setZeroCopyThreshold_def
      Router_new_def om_get_put om.get_empty Let_def)
    (simp_all add: om_empty_def isPathSafe_def contains_def)

lemma demo_answers:
  "rs_statusCode (fst (server_handle (demo_env 1) (read_request demo_wire) s)) = 404"
  "rs_statusCode (fst (server_handle (demo_env 1) (read_request demo_wire2) s)) = 405"
proof -
  note r = demo_router [unfolded One_nat_def]
  have "fs_stat (se_fs (demo_env 1)) p = None" for p by (simp add: demo_env_def)
  then show "rs_statusCode (fst (server_handle (demo_env 1) (read_request demo_wire) s)) = 404"
    by (simp add: server_handle_def handle_def demo_paths r serveStaticFile_def Let_def)
  show "rs_statusCode (fst (server_handle (demo_env 1) (read_request demo_wire2) s)) = 405"
    by (simp add: server_handle_def handle_def demo_paths r methodNotAllowed_def response_setters Let_def)
qed

lemma job_reply_starts:
  "rs_statusCode (fst (server_handle e r s)) = code \<Longrightarrow>
     starts_with (''HTTP/1.1 '' @ string_of_int code) (job_reply e r s)"
  by (auto simp: job_reply_def reply_bytes_def serialize_def starts_with_def setCloseConnection_def split: prod.split)

theorem offloaded_replies_swap_witness:
  "\<exists>first second. tracks (se_files (demo_env 1)) (first @ second)
     (ss_conn (finish_job (demo_env 1) 0 (finish_job (demo_env 1) 1 (on_message (demo_env 1) demo_pair)))) \<and>
   starts_with (''HTTP/1.1 '' @ string_of_int 405) first \<and> starts_with (''HTTP/1.1 '' @ string_of_int 404) second"
proof -
  have "offloaded (demo_env 1) (read_request demo_wire)" "offloaded (demo_env 1) (read_request demo_wire2)"
    by (simp_all add: offloaded_def demo_paths) (simp_all add: demo_env_def starts_with_def)
  moreover have "tb_rate (ss_bucket demo_pair) \<le> 0" by (simp add: demo_pair_def demo_session_def configure_def)
  ultimately show ?thesis
    using offloaded_replies_swap [of "demo_env 1" "[]" demo_pair demo_wire demo_wire2]
      demo_pair_ok demo_wire_ok job_reply_starts [OF demo_answers(1)] job_reply_starts [OF demo_answers(2)]
    by fastforce
qed

end
