(* ===== verification/Server_Stream.thy ===== *)
theory Server_Stream
  imports Server_Props
begin

text \<open>
  The connection end to end: a client writes any number of requests, the network delivers the
  bytes in any pieces and the socket takes the answers in any pieces. The parser, the message
  callback and the connection together answer each request, in order.
\<close>

section \<open>Prefixes of a request\<close>

text \<open>A proper prefix of a request leaves the parser waiting.\<close>

definition waits :: "string \<Rightarrow> bool" where
  "waits x \<longleftrightarrow> fst (spec_parse defaultParser x) = kNeedMore"

lemma spec_parse_wire:
  assumes "wire_ok r"
  shows "\<exists>p. spec_parse defaultParser (wire r @ rest) = (kComplete, p, rest) \<and>
    takeRequest p = (read_request r, defaultParser)"
proof -
  let ?b = "buffer_append (buffer_new 0) (wire r @ rest)"
  have b: "buffer_valid ?b" "contents ?b = wire r @ rest"
    using buffer_append_props [OF buffer_new_valid] by simp_all
  obtain p b' where "parse defaultParser ?b = (kComplete, p, b')" "contents b' = rest"
    "takeRequest p = (read_request r, defaultParser)"
    using parse_wire [OF b assms] by blast
  then show ?thesis using parse_refines [OF b(1), of defaultParser] b(2) by (auto simp: agrees_def)
qed

lemma waits_prefix:
  assumes "waits (x @ y)"
  shows "waits x"
proof -
  obtain res p l where x: "spec_parse defaultParser x = (res, p, l)" by (cases "spec_parse defaultParser x")
  with spec_parse_extends [of y defaultParser x] assms show ?thesis
    by (cases res) (auto simp: extends_def waits_def)
qed

lemma waits_wire_prefix:
  assumes "wire_ok r" "wire r = x @ z" "z \<noteq> []"
  shows "waits x"
proof -
  obtain res p l where x: "spec_parse defaultParser x = (res, p, l)" by (cases "spec_parse defaultParser x")
  obtain q where "spec_parse defaultParser (x @ z) = (kComplete, q, [])"
    using spec_parse_wire [OF assms(1), of "[]"] assms(2) by auto
  with x spec_parse_extends [of z defaultParser x] assms(3) show ?thesis
    by (cases res) (auto simp: extends_def waits_def)
qed

lemma append_split:
  assumes "x @ u = w @ v"
  obtains y where "x = w @ y" "y @ u = v" | z where "w = x @ z" "z \<noteq> []"
proof -
  consider t where "x = w @ t" "t @ u = v" | t where "x @ t = w"
    using assms by (auto simp: append_eq_append_conv2)
  then show ?thesis
  proof cases
    case 2
    then show ?thesis using that assms by (cases "t = []") auto
  qed (use that in blast)
qed

text \<open>Any prefix of a stream of requests is some whole requests and a rest that waits.\<close>

lemma stream_prefix:
  assumes "x @ later = concat (map wire rs) @ rest" "list_all wire_ok rs" "waits rest"
  shows "\<exists>n x'. n \<le> length rs \<and> x = concat (map wire (take n rs)) @ x' \<and> waits x' \<and>
    x' @ later = concat (map wire (drop n rs)) @ rest"
  using assms
proof (induction rs arbitrary: x)
  case Nil
  then show ?case using waits_prefix [of x later] by simp
next
  case (Cons r rs)
  have "x @ later = wire r @ concat (map wire rs) @ rest" using Cons.prems(1) by simp
  then consider y where "x = wire r @ y" "y @ later = concat (map wire rs) @ rest"
    | z where "wire r = x @ z" "z \<noteq> []" by (rule append_split)
  then show ?case
  proof cases
    case 1
    then obtain n x' where "n \<le> length rs" "y = concat (map wire (take n rs)) @ x'" "waits x'"
      "x' @ later = concat (map wire (drop n rs)) @ rest"
      using Cons.IH [of y] Cons.prems by auto
    then show ?thesis using 1(1) by (intro exI [of _ "Suc n"] exI [of _ x']) simp
  next
    case 2
    then have "waits x" using waits_wire_prefix [OF _ 2] Cons.prems(2) by simp
    then show ?thesis using Cons.prems(1) by (intro exI [of _ 0] exI [of _ x]) simp
  qed
qed

section \<open>One read\<close>

text \<open>
  The parser and the input of a session after the bytes \<open>x\<close>, of which every complete request has
  been taken.
\<close>

definition holds :: "string \<Rightarrow> session \<Rightarrow> bool" where
  "holds x s \<longleftrightarrow> buffer_valid (cn_input (ss_conn s)) \<and>
     spec_parse defaultParser x = (kNeedMore, ss_parser s, contents (cn_input (ss_conn s)))"

lemma holds_waits: "holds x s \<Longrightarrow> waits x"
  by (simp add: holds_def waits_def)

lemma message_loop_chunk:
  assumes "buffer_valid b" "spec_parse defaultParser x = (kNeedMore, p, l)" "contents b = l @ d"
    and "x @ d = concat (map wire rs) @ x'" "list_all wire_ok rs"
    and "spec_parse defaultParser x' = (kNeedMore, p', l')"
  shows "\<exists>b'. buffer_valid b' \<and> contents b' = l' \<and>
    message_loop e p b s = (p', b', fold (serve_request e) (map read_request rs) s)"
proof (cases rs)
  case Nil
  have "spec_parse p (contents b) = spec_parse defaultParser (x @ d)"
    using spec_parse_extends [of d defaultParser x] assms(2,3) by (simp add: extends_def)
  then show ?thesis using message_loop_rest [OF assms(1), of p p' l' e s] assms(4,6) Nil by auto
next
  case (Cons r rs')
  have sp: "spec_parse p (contents b) = spec_parse defaultParser (x @ d)"
    using spec_parse_extends [of d defaultParser x] assms(2,3) by (simp add: extends_def)
  obtain q where q: "spec_parse defaultParser (x @ d) = (kComplete, q, concat (map wire rs') @ x')"
    "takeRequest q = (read_request r, defaultParser)"
    using spec_parse_wire [of r "concat (map wire rs') @ x'"] assms(4,5) Cons by auto
  then obtain b1 where b1: "parse p b = (kComplete, q, b1)" "buffer_valid b1"
    "contents b1 = concat (map wire rs') @ x'"
    using parse_refines [OF assms(1), of p] sp by (cases "parse p b") (auto simp: agrees_def)
  then have "message_loop e p b s = message_loop e defaultParser b1 (serve_request e (read_request r) s)"
    using q(2) by (subst message_loop.simps) (simp add: Let_def read_request_keepAlive)
  then show ?thesis
    using message_loop_wires [OF b1(2,3) _ assms(6), of e "serve_request e (read_request r) s"] assms(5) Cons
    by auto
qed

text \<open>
  The replies so far: a reply for each of the requests, computed in some state, and the connection
  holds them all.
\<close>

definition answers :: "server_env \<Rightarrow> http_request \<Rightarrow> string \<Rightarrow> bool" where
  "answers e r q \<longleftrightarrow> (\<exists>s. q = reply_to e r s)"

lemma replies_answer: "list_all2 (answers e) rs (replies e rs s)"
  by (induction rs arbitrary: s) (auto simp: answers_def)

lemma on_message_stream:
  assumes "buffer_valid b" "spec_parse defaultParser x = (kNeedMore, ss_parser s, l)" "contents b = l @ d"
    and "cn_input (ss_conn s) = b" "tracks (se_files e) T (ss_conn s)"
    and "(x @ d) @ later = concat (map wire rs) @ rest" "list_all wire_ok rs" "waits rest"
  shows "\<exists>n x' qs. n \<le> length rs \<and> holds x' (on_message e s) \<and>
    x' @ later = concat (map wire (drop n rs)) @ rest \<and>
    list_all2 (answers e) (map read_request (take n rs)) qs \<and>
    tracks (se_files e) (T @ concat qs) (ss_conn (on_message e s))"
proof -
  obtain n x' where n: "n \<le> length rs" "x @ d = concat (map wire (take n rs)) @ x'" "waits x'"
    "x' @ later = concat (map wire (drop n rs)) @ rest"
    using stream_prefix [OF assms(6-8)] by blast
  obtain p' l' where sp: "spec_parse defaultParser x' = (kNeedMore, p', l')"
    using n(3) by (cases "spec_parse defaultParser x'") (simp add: waits_def)
  have "list_all wire_ok (take n rs)" using assms(7) by (auto simp: list_all_iff dest: in_set_takeD)
  then obtain b' where b': "buffer_valid b'" "contents b' = l'"
    "message_loop e (ss_parser s) b s = (p', b', fold (serve_request e) (map read_request (take n rs)) s)"
    using message_loop_chunk [OF assms(1-3) n(2) _ sp, of e s] by auto
  have "holds x' (on_message e s)" using b' sp assms(4) by (simp add: on_message_def holds_def)
  moreover have "tracks (se_files e) (T @ concat (replies e (map read_request (take n rs)) s)) (ss_conn (on_message e s))"
    using serve_requests_tracks [OF assms(5), of "map read_request (take n rs)"] b'(3) assms(4)
    by (simp add: on_message_def)
  ultimately show ?thesis using n(1,4) replies_answer by blast
qed

section \<open>The events of a connection\<close>

text \<open>
  The state of the conversation: some requests are answered, the next bytes of the stream are with
  the parser, and \<open>u\<close> is still to come if the connection is open.
\<close>

definition stream_state ::
    "server_env \<Rightarrow> wire_request list \<Rightarrow> string \<Rightarrow> string \<Rightarrow> string \<Rightarrow> session \<Rightarrow> bool" where
  "stream_state e rs rest T u s \<longleftrightarrow> (\<exists>n x qs v. n \<le> length rs \<and> holds x s \<and>
     x @ v = concat (map wire (drop n rs)) @ rest \<and> (\<not> cn_closed (ss_conn s) \<longrightarrow> v = u) \<and>
     list_all2 (answers e) (map read_request (take n rs)) qs \<and>
     tracks (se_files e) (T @ concat qs) (ss_conn s))"

lemma stream_state_closed:
  "stream_state e rs rest T u s \<Longrightarrow> cn_closed (ss_conn s) \<Longrightarrow> stream_state e rs rest T u' s"
  unfolding stream_state_def by blast

lemma stream_state_frame:
  assumes "stream_state e rs rest T u s" and "ss_parser s' = ss_parser s"
    and "cn_input (ss_conn s') = cn_input (ss_conn s)"
    and "cn_closed (ss_conn s) \<longrightarrow> cn_closed (ss_conn s')"
    and "\<And>T. tracks (se_files e) T (ss_conn s) \<Longrightarrow> tracks (se_files e) T (ss_conn s')"
  shows "stream_state e rs rest T u s'"
  using assms unfolding stream_state_def holds_def by metis

lemma stream_state_message:
  assumes "stream_state e rs rest T (d @ u) s" "\<not> cn_closed (ss_conn s)"
    and "list_all wire_ok rs" "waits rest"
    and "ss_parser s' = ss_parser s" "ss_conn s' = (ss_conn s)\<lparr>cn_input := b\<rparr>"
    and "buffer_valid b" "contents b = contents (cn_input (ss_conn s)) @ d"
  shows "stream_state e rs rest T u (on_message e s')"
proof -
  obtain n x qs where st: "n \<le> length rs" "holds x s" "x @ d @ u = concat (map wire (drop n rs)) @ rest"
    "list_all2 (answers e) (map read_request (take n rs)) qs" "tracks (se_files e) (T @ concat qs) (ss_conn s)"
    using assms(1,2) by (auto simp: stream_state_def)
  have x: "spec_parse defaultParser x = (kNeedMore, ss_parser s', contents (cn_input (ss_conn s)))"
    using st(2) assms(5) by (simp add: holds_def)
  have ok: "list_all wire_ok (drop n rs)" using assms(3) by (auto simp: list_all_iff dest: in_set_dropD)
  obtain k x' qs' where k: "k \<le> length (drop n rs)" "holds x' (on_message e s')"
    "x' @ u = concat (map wire (drop k (drop n rs))) @ rest"
    "list_all2 (answers e) (map read_request (take k (drop n rs))) qs'"
    "tracks (se_files e) ((T @ concat qs) @ concat qs') (ss_conn (on_message e s'))"
    using on_message_stream [OF assms(7) x assms(8), of e "T @ concat qs" u "drop n rs" rest]
      st(3,5) assms(4,6) ok by auto
  have "list_all2 (answers e) (map read_request (take (n + k) rs)) (qs @ qs')"
    using list_all2_appendI [OF st(4) k(4)] by (simp add: take_add)
  moreover have "n + k \<le> length rs" using st(1) k(1) by simp
  ultimately show ?thesis
    using k(2,3,5) unfolding stream_state_def
    by (intro exI [of _ "n + k"] exI [of _ x'] exI [of _ "qs @ qs'"] exI [of _ u]) (simp add: add.commute)
qed

text \<open>The operations of the connection that are not the message callback.\<close>

lemma flushOutput_input: "cn_input (fst (snd (flushOutput limit c rs))) = cn_input c"
  by (induction limit c rs rule: flushOutput.induct)
    (auto simp: Let_def handleClose_def count_error_def took_def split: io.split)

lemma sendPendingFile_input: "cn_input (fst (snd (sendPendingFile files c rs))) = cn_input c"
  by (induction files c rs rule: sendPendingFile.induct)
    (auto simp: Let_def handleClose_def count_error_def took_def file_done_def split: io.split)

lemma write_stages_input:
  "write_stage1 c rs = (ok, c1, rs1) \<Longrightarrow> cn_input c1 = cn_input c"
  "write_stage2 files c rs = (ok, c1, rs1) \<Longrightarrow> cn_input c1 = cn_input c"
  "write_stage3 c rs = (ok, c1, rs1) \<Longrightarrow> cn_input c1 = cn_input c"
  using flushOutput_input [of "cn_preFileBytes c" c rs] flushOutput_input [of "readableBytes (cn_output c)" c rs]
    sendPendingFile_input [of files c rs]
  by (auto simp: write_stage1_def write_stage2_def write_stage3_def split: if_splits prod.splits)

lemma handleWrite_input: "cn_input (fst (handleWrite files c rs)) = cn_input c"
proof -
  have "cn_input (write_done c) = cn_input c" for c
    by (simp add: write_done_def cn_disableWriting_def Let_def)
  then show ?thesis
    using write_stages_input by (fastforce simp: handleWrite_def split: prod.split)
qed

lemma handleWrite_closed: "cn_closed c \<Longrightarrow> fst (handleWrite files c rs) = c"
  by (simp add: handleWrite_def)

lemma tracks_writable: "tracks files T c \<Longrightarrow> tracks files T (fst (handleWrite files c rs))"
  using tracks_step [of files T c "(OpWritable, rs)"] by (simp add: conn_step_def op_bytes_def)

lemma tracks_close: "tracks files T c \<Longrightarrow> tracks files T (handleClose c)"
  using tracks_step [of files T c "(OpClose, [])"] by (simp add: conn_step_def op_bytes_def forceClose_def)

lemma tracks_count_error [simp]: "tracks files T (count_error c) = tracks files T c"
  by (simp add: tracks_def conn_inv_def out_stream_def backlog_def file_rest_def count_error_def
      cong: option.case_cong)

lemma tracks_refresh: "tracks files T c \<Longrightarrow> tracks files T (refreshIdleTimer c)"
  by (simp add: tracks_def conn_inv_def out_stream_def backlog_def file_rest_def refreshIdleTimer_def
      cong: option.case_cong)

lemmas closing_defs = handleError_def handleIdleTimeout_def handleClose_def count_error_def refreshIdleTimer_def

lemma stream_state_update:
  assumes "stream_state e rs rest T u s" and "g \<in> {handleClose, handleError, handleIdleTimeout, refreshIdleTimer,
      (\<lambda>c. handleError (count_error c))}"
  shows "stream_state e rs rest T u (update_conn g s)"
proof (rule stream_state_frame [OF assms(1)])
  show "tracks (se_files e) T' (ss_conn (update_conn g s))" if "tracks (se_files e) T' (ss_conn s)" for T'
    using assms(2) that tracks_close tracks_refresh
    by (auto simp: handleError_def handleIdleTimeout_def)
qed (use assms(2) in \<open>auto simp: closing_defs\<close>)

lemma stream_state_writable:
  assumes "stream_state e rs rest T u s"
  shows "stream_state e rs rest T u (on_conn (handleWrite (se_files e)) s)"
  using assms by (rule stream_state_frame)
    (simp_all add: on_conn_def case_prod_beta handleWrite_input tracks_writable handleWrite_closed)

text \<open>Reads that deliver bytes or are interrupted; the end of the list is \<open>EAGAIN\<close>.\<close>

definition data_read :: "int + string \<Rightarrow> bool" where
  "data_read r \<longleftrightarrow> (case r of Inl e \<Rightarrow> e = kEINTR | Inr d \<Rightarrow> d \<noteq> [] \<and> length d \<le> extraSize)"

definition read_bytes :: "int + string \<Rightarrow> string" where
  "read_bytes r = (case r of Inl e \<Rightarrow> [] | Inr d \<Rightarrow> d)"

lemma read_bytes_simps [simp]: "read_bytes (Inl err) = []" "read_bytes (Inr d) = d"
  by (simp_all add: read_bytes_def)

lemma read_loop_stream:
  assumes "stream_state e rs rest T (concat (map read_bytes ds) @ u) s"
    and "list_all data_read ds" "list_all wire_ok rs" "waits rest"
  shows "\<exists>fin act' s'. session_read_loop e ds act s = (fin, act', s') \<and> fin \<noteq> ReadClosed \<and>
    stream_state e rs rest T u s' \<and> (fin = ReadFailed \<longrightarrow> cn_closed (ss_conn s'))"
  using assms(1,2)
proof (induction ds arbitrary: s act)
  case Nil
  then show ?case by simp
next
  case (Cons r ds)
  show ?case
  proof (cases "cn_closed (ss_conn s)")
    case True
    then show ?thesis using stream_state_closed [OF Cons.prems(1) True] by simp
  next
    case False
    show ?thesis
    proof (cases r)
      case (Inl err)
      then have "err = kEINTR" using Cons.prems(2) by (simp add: data_read_def)
      then show ?thesis
        using Cons.IH [of s act] Cons.prems False Inl
        by (simp add: readFd_def kEINTR_def kEAGAIN_def)
    next
      case (Inr d)
      let ?in = "cn_input (ss_conn s)"
      have v: "buffer_valid ?in" using Cons.prems(1) by (auto simp: stream_state_def holds_def)
      have d: "d \<noteq> []" "length d \<le> extraSize" using Cons.prems(2) Inr by (simp_all add: data_read_def)
      then have "length d \<le> readFd_capacity ?in" by (simp add: readFd_capacity_def)
      then obtain b where b: "readFd ?in (Inr d) = (int (length d), None, b)" "buffer_valid b"
        "contents b = contents ?in @ d"
        using readFd_valid_contents [OF v] by blast
      let ?s = "on_metrics (onBytesRead (length d)) (s\<lparr>ss_conn := (ss_conn s)\<lparr>cn_input := b\<rparr>\<rparr>)"
      have "stream_state e rs rest T (d @ concat (map read_bytes ds) @ u) s"
        using Cons.prems(1) Inr by simp
      then have "stream_state e rs rest T (concat (map read_bytes ds) @ u) (on_message e ?s)"
        using assms(3,4) b(2,3) False by (elim stream_state_message) (simp_all add: on_metrics_def)
      then show ?thesis
        using Cons.IH [of "on_message e ?s" True] Cons.prems(2) False b(1) d(1) Inr by simp
    qed
  qed
qed

fun event_ok :: "session_event \<times> io list \<Rightarrow> bool" where
  "event_ok (Readable ds, io) \<longleftrightarrow> list_all data_read ds"
| "event_ok (ev, io) \<longleftrightarrow> True"

fun event_bytes :: "session_event \<times> io list \<Rightarrow> string" where
  "event_bytes (Readable ds, io) = concat (map read_bytes ds)"
| "event_bytes (ev, io) = []"

lemma event_stream:
  assumes "stream_state e rs rest T (event_bytes x @ u) s" "event_ok x" "list_all wire_ok rs" "waits rest"
  shows "stream_state e rs rest T u (session_event_step e x s)"
proof -
  obtain ev io where x: "x = (ev, io)" by (cases x)
  let ?s = "s\<lparr>ss_io := io\<rparr>"
  have st: "stream_state e rs rest T (event_bytes x @ u) ?s"
    using assms(1) by (rule stream_state_frame) simp_all
  show ?thesis
  proof (cases ev)
    case (Readable ds)
    obtain fin act' s' where r: "session_read_loop e ds False ?s = (fin, act', s')" "fin \<noteq> ReadClosed"
      "stream_state e rs rest T u s'"
      using read_loop_stream [of e rs rest T ds u ?s False] st assms(2-4) x Readable by auto
    then show ?thesis
      using stream_state_update [OF r(3)] x Readable
      by (cases fin) (simp_all add: session_read_def)
  qed (use st x stream_state_update stream_state_writable in \<open>auto\<close>)
qed

lemma events_stream:
  assumes "stream_state e rs rest T (concat (map event_bytes xs) @ u) s" "list_all event_ok xs"
    and "list_all wire_ok rs" "waits rest"
  shows "stream_state e rs rest T u (fold (session_event_step e) xs s)"
  using assms(1,2)
proof (induction xs arbitrary: s)
  case (Cons x xs)
  then show ?case using event_stream [OF _ _ assms(3,4), of e T x "concat (map event_bytes xs) @ u" s] by simp
qed simp

text \<open>The whole conversation, for the claims about it here and about downloads.\<close>

lemma stream_answered:
  assumes "tracks (se_files e) T (ss_conn s)" and "buffer_valid (cn_input (ss_conn s))"
    and "ss_parser s = defaultParser" and "contents (cn_input (ss_conn s)) = []"
    and "list_all wire_ok rs" and "spec_parse defaultParser rest = (kNeedMore, p', left)"
    and "list_all event_ok evs" and "concat (map event_bytes evs) = concat (map wire rs) @ rest"
    and "op_workerThreads (se_options e) = 0" and "s' = fold (session_event_step e) evs s"
  shows "\<exists>qs. length qs \<le> length rs \<and>
    list_all2 (answers e) (map read_request (take (length qs) rs)) qs \<and>
    list_all (starts_with ''HTTP/1.1 '') qs \<and>
    tracks (se_files e) (T @ concat qs) (ss_conn s') \<and>
    (\<not> cn_closed (ss_conn s') \<longrightarrow>
      length qs = length rs \<and> ss_parser s' = p' \<and> contents (cn_input (ss_conn s')) = left)"
proof -
  have w: "waits rest" using assms(6) by (simp add: waits_def)
  have "holds [] s" using assms(2-4) spec_parse_Nil by (simp add: holds_def)
  then have "stream_state e rs rest T (concat (map event_bytes evs) @ []) s"
    using assms(1,8) unfolding stream_state_def 
    by (intro exI [of _ 0] exI [of _ "[]"] exI [of _ "concat (map wire rs) @ rest"]) simp
  then have "stream_state e rs rest T [] s'"
    using events_stream assms(5,7,10) w by blast
  then obtain n x qs v where st: "n \<le> length rs" "holds x s'" "x @ v = concat (map wire (drop n rs)) @ rest"
    "\<not> cn_closed (ss_conn s') \<longrightarrow> v = []" "list_all2 (answers e) (map read_request (take n rs)) qs"
    "tracks (se_files e) (T @ concat qs) (ss_conn s')"
    unfolding stream_state_def by blast
  have n: "length qs = n" using list_all2_lengthD [OF st(5)] st(1) by simp
  have "list_all (starts_with ''HTTP/1.1 '') qs"
    using st(5) reply_to_starts [OF assms(9)]
    by (induction rule: list_all2_induct) (auto simp: answers_def)
  moreover have "n = length rs \<and> x = rest" if "\<not> cn_closed (ss_conn s')"
  proof (cases "drop n rs")
    case Nil
    then show ?thesis using st that by simp
  next
    case (Cons r rs')
    then have "wire_ok r" using assms(5) by (metis in_set_dropD list.set_intros(1) list_all_iff)
    then show ?thesis
      using spec_parse_wire [of r "concat (map wire rs') @ rest"] holds_waits [OF st(2)] st(3,4) that Cons
      by (auto simp: waits_def)
  qed
  ultimately show ?thesis
    using st n assms(6) by (intro exI [of _ qs]) (auto simp: holds_def)
qed

text \<open>
  C1: pipelined requests are answered in order, end to end. A client sends any number of keep-alive
  requests, and perhaps the start of a further one, over a connection handled without worker
  threads. However the bytes are cut into readable events and reads, with writable events, hang-ups,
  socket errors and timeouts in between, and whatever the socket takes at each write, the
  connection has been handed one response for each request of some prefix of the requests, in
  their order and nothing else: the peer sees a prefix of these bytes. As long as the connection is open
  the prefix is all of them, what the socket has not taken is queued, and the incomplete request
  stays with the parser and the input.
\<close>

theorem requests_answered_in_order:
  assumes "tracks (se_files e) T (ss_conn s)" and "buffer_valid (cn_input (ss_conn s))"
    and "ss_parser s = defaultParser" and "contents (cn_input (ss_conn s)) = []"
    and "list_all wire_ok rs" and "spec_parse defaultParser rest = (kNeedMore, p', left)"
    and "list_all event_ok evs" and "concat (map event_bytes evs) = concat (map wire rs) @ rest"
    and "op_workerThreads (se_options e) = 0" and "s' = fold (session_event_step e) evs s"
  shows "\<exists>qs. length qs \<le> length rs \<and>
    list_all2 (answers e) (map read_request (take (length qs) rs)) qs \<and>
    list_all (starts_with ''HTTP/1.1 '') qs \<and>
    tracks (se_files e) (T @ concat qs) (ss_conn s') \<and>
    (\<not> cn_closed (ss_conn s') \<longrightarrow>
      length qs = length rs \<and> ss_parser s' = p' \<and> contents (cn_input (ss_conn s')) = left)"
  using stream_answered [OF assms] .

definition demo_new :: session where
  "demo_new = demo_session\<lparr>ss_conn := cn_start TcpConnection_new\<rparr>"

definition demo_events :: "(session_event \<times> io list) list" where
  "demo_events = [(Readable [Inr (take 20 (wire demo_wire)), Inl kEINTR], []), (Writable, [IoBytes 5]),
     (Readable [Inr (drop 20 (wire demo_wire) @ wire demo_wire)], [IoBytes 3, IoBytes 100]),
     (Writable, [IoBytes 10, IoErr kEAGAIN])]"

theorem requests_answered_in_order_witness:
  "\<exists>qs. length qs \<le> 2 \<and> list_all (starts_with ''HTTP/1.1 '') qs \<and>
    tracks (se_files (demo_env 0)) (concat qs)
      (ss_conn (fold (session_event_step (demo_env 0)) demo_events demo_new))"
proof -
  have w: "wire demo_wire = ''GET /index.html HTTP/1.1'' @ CRLF @ CRLF"
    by (simp add: wire_def demo_wire_def write_request_def write_head_def length_header_def write_headers_def
        methodToString_def)
  have "list_all event_ok demo_events"
    by (simp add: demo_events_def data_read_def w CRLF_def extraSize_def)
  moreover have "concat (map event_bytes demo_events) = concat (map wire [demo_wire, demo_wire]) @ []"
    by (simp add: demo_events_def)
  moreover have "tracks (se_files (demo_env 0)) [] (ss_conn demo_new)"
    "buffer_valid (cn_input (ss_conn demo_new))" "contents (cn_input (ss_conn demo_new)) = []"
    "ss_parser demo_new = defaultParser"
    using tracks_start buffer_new_valid
    by (simp_all add: demo_new_def demo_session_def) (simp_all add: cn_start_def TcpConnection_new_def)
  ultimately show ?thesis
    using requests_answered_in_order [of "demo_env 0" "[]" demo_new "[demo_wire, demo_wire]" "[]" defaultParser "[]"
        demo_events, OF _ _ _ _ _ _ _ _ _ refl] demo_wire_ok spec_parse_Nil
    by (auto simp: demo_env_def numeral_2_eq_2)
qed

end
