(* ===== verification/Http_Parser_Wf.thy ===== *)
theory Http_Parser_Wf
  imports Http_Parser_Props
begin

text \<open>
  The states a parser can be in: what each state says of the request being built and of the
  counters, that \<open>parse\<close> and \<open>takeRequest\<close> keep it, and how much unread input a parser that asks for
  more leaves in the buffer.
\<close>

section \<open>Well-formed parsers\<close>

definition head_wf :: "http_parser \<Rightarrow> bool" where
  "head_wf p \<longleftrightarrow> rq_method (ps_request p) \<noteq> kInvalid \<and>
     rq_version (ps_request p) \<in> {''HTTP/1.1'', ''HTTP/1.0''} \<and> ps_parsedHeaderBytes p \<le> ps_maxHeaderBytes p"

definition parser_wf :: "http_parser \<Rightarrow> bool" where
  "parser_wf p \<longleftrightarrow> request_valid (ps_request p) \<and>
     (case ps_state p of
        kRequestLine \<Rightarrow>
          ps_request p = HttpRequest_new \<and> ps_contentLength p = 0 \<and> ps_parsedHeaderBytes p = 0
      | kHeaders \<Rightarrow> head_wf p \<and> rq_body (ps_request p) = []
      | kBody \<Rightarrow> head_wf p \<and> rq_body (ps_request p) = [] \<and>
          0 < ps_contentLength p \<and> ps_contentLength p \<le> ps_maxBodyBytes p
      | kGotAll \<Rightarrow> head_wf p \<and> length (rq_body (ps_request p)) = ps_contentLength p \<and>
          ps_contentLength p \<le> ps_maxBodyBytes p
      | kError \<Rightarrow> True)"

definition limits :: "http_parser \<Rightarrow> nat \<times> nat" where
  "limits p = (ps_maxHeaderBytes p, ps_maxBodyBytes p)"

lemma parser_new_wf: "parser_wf (HttpParser_new h b)" "limits (HttpParser_new h b) = (h, b)"
  by (simp_all add: parser_wf_def HttpParser_new_def limits_def)

lemma takeRequest_wf: "takeRequest p = (r, q) \<Longrightarrow> parser_wf q \<and> limits q = limits p"
  by (auto simp: takeRequest_def parser_reset_def parser_wf_def limits_def)

section \<open>Lines\<close>

lemma header_effect_version:
  "header_effect p k v = Inr p' \<Longrightarrow> rq_version (ps_request p') = rq_version (ps_request p)"
  by (auto simp: header_effect_def Let_def split: if_splits)

lemma headerLine_version:
  "headerLine p l = Inr p' \<Longrightarrow> rq_version (ps_request p') = rq_version (ps_request p)"
  by (auto simp: headerLine_def Let_def count_line_def dest!: header_effect_version split: if_splits option.splits)

lemma headerLine_fails:
  "headerLine p l = Inl p' \<Longrightarrow> request_valid (ps_request p) \<Longrightarrow> request_valid (ps_request p') \<and> limits p' = limits p"
  by (auto simp: headerLine_def header_effect_def Let_def count_line_def addHeader_valid limits_def
      split: if_splits option.splits)

lemma requestLine_fails:
  "requestLine p l = Inl p' \<Longrightarrow> request_valid (ps_request p) \<Longrightarrow> request_valid (ps_request p') \<and> limits p' = limits p"
  by (auto simp: requestLine_def Let_def count_line_def limits_def split: if_splits option.splits)

lemma headerLine_wf:
  assumes "headerLine p l = Inr p'" "ps_state p = kHeaders" "parser_wf p"
  shows "parser_wf p' \<and> ps_state p' = kHeaders \<and> limits p' = limits p"
  using headerLine_frame [OF assms(1)] headerLine_version [OF assms(1)] headerLine_state [OF disjI2 [OF assms(1)]]
    assms(2,3)
  by (simp add: parser_wf_def head_wf_def limits_def)

lemma requestLine_wf:
  assumes "requestLine p l = Inr p'" "ps_state p = kRequestLine" "parser_wf p"
  shows "parser_wf p' \<and> ps_state p' = kHeaders \<and> limits p' = limits p"
proof -
  have "rq_version (ps_request p') \<in> {''HTTP/1.1'', ''HTTP/1.0''}"
    using assms(1) by (auto simp: requestLine_def Let_def split: if_splits option.splits)
  moreover have "rq_body (ps_request p) = []" "request_valid (ps_request p)" "ps_state p' = kHeaders"
    using assms(2,3) requestLine_state [OF assms(1)] by (auto simp: parser_wf_def HttpRequest_new_def)
  ultimately show ?thesis
    using requestLine_frame [OF assms(1)] by (simp add: parser_wf_def head_wf_def limits_def)
qed

section \<open>Parsing\<close>

text \<open>What is said of a verdict: the parser is well formed and has the limits it had, and a parser that waits left little.\<close>

definition waits_little :: "spec_result \<Rightarrow> bool" where
  "waits_little x \<longleftrightarrow> (case x of (res, p, s) \<Rightarrow> res = kNeedMore \<longrightarrow>
     (if ps_state p = kBody then length s < ps_contentLength p \<and> ps_contentLength p \<le> ps_maxBodyBytes p
      else length s \<le> ps_maxHeaderBytes p))"

definition result_wf :: "http_parser \<Rightarrow> spec_result \<Rightarrow> bool" where
  "result_wf p0 x \<longleftrightarrow> parser_wf (fst (snd x)) \<and> limits (fst (snd x)) = limits p0 \<and> waits_little x \<and>
     (fst x = kComplete \<longleftrightarrow> ps_state (fst (snd x)) = kGotAll)"

lemma fail_wf: "request_valid (ps_request p) \<Longrightarrow> limits p = limits p0 \<Longrightarrow> result_wf p0 (fail p s)"
  by (simp add: result_wf_def fail_def parser_wf_def waits_little_def limits_def)

lemma wait_wf:
  "parser_wf p \<Longrightarrow> ps_state p \<noteq> kBody \<Longrightarrow> ps_state p \<noteq> kGotAll \<Longrightarrow> length s \<le> ps_maxHeaderBytes p \<Longrightarrow> result_wf p (kNeedMore, p, s)"
  by (simp add: result_wf_def waits_little_def)

lemma spec_body_wf:
  assumes "parser_wf p" "ps_state p = kBody"
  shows "result_wf p (spec_body p s)"
  using assms
  by (auto simp: result_wf_def spec_body_def parser_wf_def head_wf_def waits_little_def limits_def request_valid_def)

lemma spec_end_wf:
  assumes "parser_wf p" "ps_state p = kHeaders"
  shows "result_wf p (spec_end p s)"
proof -
  obtain res p' where e: "endOfHeaders p = (res, p')" by (cases "endOfHeaders p")
  have l: "limits p' = limits p" "request_valid (ps_request p')"
    using e assms by (auto simp: endOfHeaders_def Let_def count_line_def limits_def parser_wf_def split: if_splits)
  show ?thesis
  proof (cases res)
    case kBadRequest
    then show ?thesis using l by (simp add: spec_end_def e fail_wf)
  next
    case kComplete
    then have "parser_wf p'" "ps_state p' = kGotAll"
      using e assms by (auto simp: endOfHeaders_def Let_def count_line_def too_long_def parser_wf_def head_wf_def
          split: if_splits)
    then show ?thesis using kComplete l by (simp add: spec_end_def e result_wf_def waits_little_def)
  next
    case kNeedMore
    then have "parser_wf p'" "ps_state p' = kBody"
      using e assms by (auto simp: endOfHeaders_def Let_def count_line_def too_long_def parser_wf_def head_wf_def
          split: if_splits)
    then show ?thesis using spec_body_wf [of p' s] kNeedMore l by (simp add: spec_end_def e result_wf_def)
  qed
qed

lemma result_wf_limits: "result_wf q x \<Longrightarrow> limits q = limits p \<Longrightarrow> result_wf p x"
  by (simp add: result_wf_def)

lemma spec_headers_wf: "parser_wf p \<Longrightarrow> ps_state p = kHeaders \<Longrightarrow> result_wf p (spec_headers p s)"
proof (induction p s rule: spec_headers.induct)
  case (1 p s)
  have v: "request_valid (ps_request p)" using "1.prems" by (simp add: parser_wf_def)
  show ?case
  proof (cases "findCRLF s")
    case None
    then show ?thesis using "1.prems" v
      by (cases "ps_maxHeaderBytes p < length s"; subst spec_headers.simps)
        (simp_all add: fail_wf wait_wf)
  next
    case (Some n)
    show ?thesis
    proof (cases "n = 0")
      case True
      then show ?thesis using Some "1.prems" spec_end_wf by (subst spec_headers.simps) simp
    next
      case False
      show ?thesis
      proof (cases "headerLine p (take n s)")
        case (Inl q)
        then show ?thesis using Some False headerLine_fails [OF Inl v]
          by (subst spec_headers.simps) (simp add: fail_wf)
      next
        case (Inr q)
        note w = headerLine_wf [OF Inr "1.prems"(2,1)]
        then have "result_wf q (spec_headers q (drop (n + 2) s))"
          using "1.IH" [OF Some False Inr] by simp
        then show ?thesis using Some False Inr w
          by (subst spec_headers.simps) (simp add: result_wf_limits)
      qed
    qed
  qed
qed

lemma spec_parse_wf: "parser_wf p \<Longrightarrow> result_wf p (spec_parse p s)"
proof (cases "ps_state p")
  case kRequestLine
  assume p: "parser_wf p"
  then have v: "request_valid (ps_request p)" by (simp add: parser_wf_def)
  show ?thesis
  proof (cases "findCRLF s")
    case None
    then show ?thesis using p v kRequestLine
      by (cases "ps_maxHeaderBytes p < length s") (simp_all add: spec_parse_def spec_request_def fail_wf wait_wf)
  next
    case (Some n)
    show ?thesis
    proof (cases "requestLine p (take n s)")
      case (Inl q)
      then show ?thesis using Some kRequestLine requestLine_fails [OF Inl v]
        by (simp add: spec_parse_def spec_request_def fail_wf)
    next
      case (Inr q)
      note w = requestLine_wf [OF Inr kRequestLine p]
      then have "result_wf q (spec_headers q (drop (n + 2) s))" using spec_headers_wf by simp
      then show ?thesis using Some Inr kRequestLine w
        by (simp add: spec_parse_def spec_request_def result_wf_limits)
    qed
  qed
next
  case kHeaders
  then show "parser_wf p \<Longrightarrow> ?thesis" by (simp add: spec_parse_def spec_headers_wf)
next
  case kBody
  then show "parser_wf p \<Longrightarrow> ?thesis" by (simp add: spec_parse_def spec_body_wf)
qed (simp_all add: spec_parse_def result_wf_def waits_little_def)

lemma parse_wf:
  assumes "parser_wf p" "buffer_valid b" "parse p b = (res, p', b')"
  shows "parser_wf p'" "limits p' = limits p" "buffer_valid b'" "res = kComplete \<longleftrightarrow> ps_state p' = kGotAll"
    "waits_little (res, p', contents b')"
proof -
  have "spec_parse p (contents b) = (res, p', contents b')" "buffer_valid b'"
    using parse_refines [OF assms(2), of p] assms(3) by (auto simp: agrees_def split: prod.splits)
  then show "parser_wf p'" "limits p' = limits p" "buffer_valid b'" "res = kComplete \<longleftrightarrow> ps_state p' = kGotAll"
    "waits_little (res, p', contents b')"
    using spec_parse_wf [OF assms(1), of "contents b"] by (auto simp: result_wf_def)
qed

text \<open>
  C6: a parser that waits holds little. However a well-formed parser was fed, when it asks for
  more input the bytes left unread are at most the header limit, or, in a body, fewer than the
  announced length, which is within the body limit.
\<close>

theorem waiting_input_bounded:
  assumes "parser_wf p" "buffer_valid b" "parse p b = (kNeedMore, p', b')"
  shows "readableBytes b' \<le> max (ps_maxHeaderBytes p) (ps_maxBodyBytes p) \<and>
    (if ps_state p' = kBody then readableBytes b' < ps_contentLength p' \<and> ps_contentLength p' \<le> ps_maxBodyBytes p
     else readableBytes b' \<le> ps_maxHeaderBytes p)"
proof -
  note w = parse_wf [OF assms]
  have "length (contents b') = readableBytes b'" by (rule length_contents [OF w(3)])
  then show ?thesis using w(2,5) by (auto simp: waits_little_def limits_def split: if_splits)
qed

definition demo_input :: net_buffer where
  "demo_input = buffer_append (buffer_new kInitialSize) ''GET / HT''"

lemma demo_waits: "\<exists>p' b'. parse defaultParser demo_input = (kNeedMore, p', b')"
proof -
  have "findCRLF ''GET / HT'' = None" by (simp add: findCRLF_def CRLF_def)
  then have "spec_parse defaultParser (contents demo_input) = (kNeedMore, defaultParser, ''GET / HT'')"
    by (simp add: demo_input_def buffer_append_props spec_parse_def spec_request_def defaultParser_def
        HttpParser_new_def)
  then show ?thesis
    using parse_refines [of demo_input defaultParser]
    by (auto simp: demo_input_def buffer_append_props agrees_def split: prod.splits)
qed

theorem waiting_input_bounded_witness:
  "\<exists>p' b'. parse defaultParser demo_input = (kNeedMore, p', b') \<and> readableBytes b' \<le> 2 ^ 20"
proof -
  obtain p' b' where r: "parse defaultParser demo_input = (kNeedMore, p', b')" using demo_waits by blast
  have "buffer_valid demo_input" by (simp add: demo_input_def buffer_append_props)
  with waiting_input_bounded [OF _ _ r] r show ?thesis
    by (simp add: defaultParser_def parser_new_wf) (simp add: HttpParser_new_def)
qed

end
