(* ===== verification/Metrics_Props.thy ===== *)
theory Metrics_Props
  imports Metrics
begin

text \<open>
  Properties of the metrics: the histogram and the counters it is published with agree, the
  published maximum is the true peak once the racing threads are done, and the quantiles lie
  where the buckets say and are monotone.
\<close>

section \<open>The histogram\<close>

datatype metric_op =
  Opened | Closed | Rejected | RateLimited | NotModified | Proxied | ProxyError | Started int
  | Finished int rat | Error | BytesRead nat | BytesWritten nat

definition apply_metric :: "metric_op \<Rightarrow> metrics \<Rightarrow> metrics" where
  "apply_metric x = (case x of
     Opened \<Rightarrow> onConnectionOpened | Closed \<Rightarrow> onConnectionClosed | Rejected \<Rightarrow> onConnectionRejected
   | RateLimited \<Rightarrow> onRequestRateLimited | NotModified \<Rightarrow> onRequestNotModified
   | Proxied \<Rightarrow> onRequestProxied | ProxyError \<Rightarrow> onRequestProxyError | Started k \<Rightarrow> onRequestStarted k
   | Finished c l \<Rightarrow> onRequestFinished c l | Error \<Rightarrow> onError | BytesRead n \<Rightarrow> onBytesRead n
   | BytesWritten n \<Rightarrow> onBytesWritten n)"

lemma bucket_index_le: "bucket_index l bs \<le> length bs"
  by (induction l bs rule: bucket_index.induct) auto

lemma bucket_index_less: "bucket_index l kBoundsMs < kBucketCount"
  using bucket_index_le [of l kBoundsMs] by (simp add: kBucketCount_def kFiniteBuckets_def kBoundsMs_def)

lemma sum_list_increment:
  fixes bs :: "64 word list"
  shows "i < length bs \<Longrightarrow> sum_list (bs[i := bs ! i + 1]) = sum_list bs + 1"
  by (induction bs arbitrary: i) (auto split: nat.split)

definition histogram_inv :: "metrics \<Rightarrow> bool" where
  "histogram_inv m \<longleftrightarrow> length (mt_latencyBuckets m) = kBucketCount \<and>
     sum_list (mt_latencyBuckets m) = mt_latencyCount m \<and> mt_latencyCount m = mt_requestsTotal m"

lemma apply_metric_inv: "histogram_inv m \<Longrightarrow> histogram_inv (apply_metric x m)"
proof (cases x)
  case (Finished c l)
  assume "histogram_inv m"
  then show ?thesis
    using bucket_index_less [of "max 0 l"] sum_list_increment [of "bucket_index (max 0 l) kBoundsMs"]
    by (simp add: Finished apply_metric_def onRequestFinished_def Let_def histogram_inv_def)
qed (simp_all add: apply_metric_def histogram_inv_def onConnectionOpened_def onConnectionClosed_def
    onConnectionRejected_def onRequestRateLimited_def onRequestNotModified_def onRequestProxied_def
    onRequestProxyError_def onRequestStarted_def onError_def onBytesRead_def onBytesWritten_def Let_def)

lemma metrics_reset_inv: "histogram_inv (metrics_reset t)"
  by (simp add: histogram_inv_def metrics_reset_def sum_list_replicate)

lemma cumulative_last: "bs \<noteq> [] \<Longrightarrow> last (cumulative n bs) = n + sum_list bs"
proof (induction n bs rule: cumulative.induct)
  case (2 n b bs)
  then show ?case by (cases bs) (simp_all add: add.assoc)
qed simp

text \<open>
  The published histogram is consistent. After any sequence of updates, the +Inf line of the
  histogram, its count line and the total of finished requests are the same number.
\<close>

lemma histogram_count_consistent:
  "last (cumulative 0 (mt_latencyBuckets (fold apply_metric xs (metrics_reset t)))) =
     mt_latencyCount (fold apply_metric xs (metrics_reset t)) \<and>
   mt_latencyCount (fold apply_metric xs (metrics_reset t)) =
     mt_requestsTotal (fold apply_metric xs (metrics_reset t))"
proof -
  have "histogram_inv m \<Longrightarrow> histogram_inv (fold apply_metric xs m)" for m
    by (induction xs arbitrary: m) (auto intro: apply_metric_inv)
  then have "histogram_inv (fold apply_metric xs (metrics_reset t))" using metrics_reset_inv by blast
  moreover from this have "mt_latencyBuckets (fold apply_metric xs (metrics_reset t)) \<noteq> []"
    by (auto simp: histogram_inv_def kBucketCount_def)
  ultimately show ?thesis by (simp add: cumulative_last histogram_inv_def)
qed

section \<open>The maximum\<close>

text \<open>
  The peak is the published maximum or a value some thread still holds; a loaded maximum is not
  above the present one.
\<close>

definition max_inv :: "max_state \<Rightarrow> bool" where
  "max_inv s \<longleftrightarrow> mx_max s \<le> mx_peak s \<and>
     (mx_max s = mx_peak s \<or> mx_peak s \<in> fst ` set (mx_threads s)) \<and>
     (\<forall>(c, p) \<in> set (mx_threads s). c \<le> mx_peak s \<and> (\<forall>v. p = Some v \<longrightarrow> v \<le> mx_max s))"

lemma max_step_inv: "max_step s t \<Longrightarrow> max_inv s \<Longrightarrow> max_inv t"
proof (induction rule: max_step.induct)
  case (opened s)
  then show ?case by (fastforce simp: max_inv_def max_def)
next
  case (swap s xs c p ys)
  have old: "v \<le> c" if "(d, Some v) \<in> set (xs @ ys)" for d v
  proof -
    from that swap.hyps(1) have "(d, Some v) \<in> set (mx_threads s)" by auto
    with swap.prems have "v \<le> mx_max s" unfolding max_inv_def by blast
    with swap.hyps(2,3) show ?thesis by simp
  qed
  have "c \<le> mx_peak s" using swap.hyps(1) swap.prems by (auto simp: max_inv_def)
  moreover have "mx_peak s \<in> insert c (fst ` set (xs @ ys))"
    using swap.hyps swap.prems \<open>c \<le> mx_peak s\<close> by (auto simp: max_inv_def)
  moreover have "\<forall>(d, q) \<in> set (xs @ ys). d \<le> mx_peak s"
    using swap.hyps(1) swap.prems by (auto simp: max_inv_def)
  ultimately show ?case using old by (auto simp: max_inv_def)
qed (auto simp: max_inv_def)

text \<open>
  The published maximum of connections. In every reachable state of the racing threads the
  published value is at most the true peak, and it is the peak as soon as no thread is inside
  the update.
\<close>

lemma published_maximum_is_peak:
  assumes "max_reach s"
  shows "mx_max s \<le> mx_peak s \<and> (mx_threads s = [] \<longrightarrow> mx_max s = mx_peak s)"
proof -
  from assms have "max_inv s"
    by (induction rule: max_reach.induct) (simp add: max_inv_def max_init_def, blast intro: max_step_inv)
  then show ?thesis by (auto simp: max_inv_def)
qed

lemma published_maximum_is_peak_witness:
  "mx_max (max_init\<lparr>mx_current := 1, mx_max := 1, mx_peak := 1\<rparr>) =
     mx_peak (max_init\<lparr>mx_current := 1, mx_max := 1, mx_peak := 1\<rparr>)"
proof -
  from max_reach.step [OF max_reach.start opened]
  have "max_reach (max_init\<lparr>mx_current := 1, mx_peak := 1, mx_threads := [(1, None)]\<rparr>)"
    by (simp add: max_init_def)
  from max_reach.step [OF this load [where xs = "[]" and ys = "[]" and c = 1]]
  have "max_reach (max_init\<lparr>mx_current := 1, mx_peak := 1, mx_threads := [(1, Some 0)]\<rparr>)"
    by (simp add: max_init_def)
  from max_reach.step [OF this swap [where xs = "[]" and ys = "[]" and c = 1 and p = 0]]
  have "max_reach (max_init\<lparr>mx_current := 1, mx_max := 1, mx_peak := 1\<rparr>)"
    by (simp add: max_init_def)
  from published_maximum_is_peak [OF this] show ?thesis by (simp add: max_init_def)
qed

section \<open>Quantiles\<close>

text \<open>The bucket the search stops in, for a target between what is before and the whole.\<close>

lemma quantile_from_bucket:
  "of_nat before < target \<Longrightarrow> target \<le> of_nat (before + sum_list bs) \<Longrightarrow>
     \<exists>j < length bs. of_nat (before + sum_list (take j bs)) < target \<and>
       target \<le> of_nat (before + sum_list (take (Suc j) bs)) \<and>
       quantile_from target i before bs = bucket_lower (i + j) +
         (bucket_upper (i + j) - bucket_lower (i + j)) *
         ((target - of_nat (before + sum_list (take j bs))) / of_nat (bs ! j))"
proof (induction target i before bs rule: quantile_from.induct)
  case (1 target i before)
  then show ?case by simp
next
  case (2 target i before b bs)
  show ?case
  proof (cases "target \<le> of_nat (before + b)")
    case True
    have b: "0 < b" using True "2.prems"(1) by (cases b) auto
    have "(target - of_nat before) / of_nat b \<le> 1" using True b by (simp add: field_simps)
    moreover have "0 \<le> (target - of_nat before) / of_nat b" using "2.prems"(1) by simp
    ultimately have "min 1 (max 0 ((target - of_nat before) / of_nat b)) = (target - of_nat before) / of_nat b"
      by (simp only: max_absorb2 min_absorb2)
    then have "quantile_from target i before (b # bs) = bucket_lower i +
        (bucket_upper i - bucket_lower i) * ((target - of_nat before) / of_nat b)"
      using True b by (simp only: quantile_from.simps if_True) simp
    then show ?thesis
      using True b "2.prems"(1) by (intro exI [of _ 0]) (simp del: quantile_from.simps)
  next
    case False
    then obtain j where j: "j < length bs"
      "of_nat (before + b + sum_list (take j bs)) < target"
      "target \<le> of_nat (before + b + sum_list (take (Suc j) bs))"
      "quantile_from target (Suc i) (before + b) bs = bucket_lower (Suc i + j) +
        (bucket_upper (Suc i + j) - bucket_lower (Suc i + j)) *
        ((target - of_nat (before + b + sum_list (take j bs))) / of_nat (bs ! j))"
      using "2.IH" "2.prems"(2) by (fastforce simp: add.assoc)
    then show ?thesis using False by (intro exI [of _ "Suc j"]) (simp add: add.assoc)
  qed
qed

lemma bound_width:
  assumes "i < kBucketCount"
  shows "0 \<le> bucket_lower i \<and> bucket_lower i < bucket_upper i"
proof -
  have "\<forall>i \<in> set [0..<13]. 0 \<le> bucket_lower i \<and> bucket_lower i < bucket_upper i"
    by (simp add: upt_rec bucket_upper_def bucket_lower_def kFiniteBuckets_def kBoundsMs_def)
  with assms show ?thesis by (simp add: kBucketCount_def kFiniteBuckets_def)
qed

lemma bucket_upper_lower: "i < kFiniteBuckets \<Longrightarrow> bucket_upper i = bucket_lower (Suc i)"
  by (simp add: bucket_upper_def bucket_lower_def)

lemma bound_order:
  assumes "i < j" "j < kBucketCount"
  shows "bucket_upper i \<le> bucket_lower j"
  using assms
proof (induction j)
  case (Suc j)
  have e: "bucket_upper j = bucket_lower (Suc j)"
    using Suc.prems by (intro bucket_upper_lower) (simp add: kBucketCount_def)
  show ?case
  proof (cases "i = j")
    case False
    then have "bucket_upper i \<le> bucket_lower j" using Suc by simp
    also have "\<dots> \<le> bucket_upper j" using bound_width [of j] Suc.prems by simp
    finally show ?thesis by (simp only: e)
  qed (simp add: e)
qed simp

lemma sum_take_Suc:
  fixes bs :: "nat list"
  shows "j < length bs \<Longrightarrow> sum_list (take (Suc j) bs) = sum_list (take j bs) + bs ! j"
  by (simp add: take_Suc_conv_app_nth)

lemma sum_take_mono:
  fixes bs :: "nat list"
  shows "i \<le> j \<Longrightarrow> sum_list (take i bs) \<le> sum_list (take j bs)"
  by (metis le_add1 le_add_diff_inverse sum_list_append take_add)

text \<open>
  The bucket of a quantile: the observation of rank \<open>q \<cdot> n\<close> is in it, and the estimate is the
  linear interpolation between its bounds.
\<close>

definition in_bucket :: "nat list \<Rightarrow> rat \<Rightarrow> nat \<Rightarrow> rat \<Rightarrow> bool" where
  "in_bucket bs t j r \<longleftrightarrow> j < kBucketCount \<and> of_nat (sum_list (take j bs)) < t \<and>
     t \<le> of_nat (sum_list (take (Suc j) bs)) \<and>
     r = bucket_lower j + (bucket_upper j - bucket_lower j) *
       ((t - of_nat (sum_list (take j bs))) / of_nat (bs ! j))"

lemma quantile_in_bucket:
  assumes "length bs = kBucketCount" "sum_list bs = n" "0 < n" "0 < q"
  shows "\<exists>j. in_bucket bs (min 1 q * of_nat n) j (quantileFromBuckets bs n q)"
proof -
  have "0 < min 1 q * of_nat n" using assms by simp
  moreover have "min 1 q * of_nat n \<le> 1 * of_nat n" by (rule mult_right_mono) auto
  ultimately show ?thesis
    using quantile_from_bucket [of 0 "min 1 q * of_nat n" bs 0] assms
    by (auto simp: in_bucket_def quantileFromBuckets_def)
qed

lemma in_bucket_between:
  assumes "in_bucket bs t j r" "length bs = kBucketCount"
  shows "bucket_lower j < r \<and> r \<le> bucket_upper j"
proof -
  let ?x = "(t - of_nat (sum_list (take j bs))) / of_nat (bs ! j)"
  have s: "sum_list (take (Suc j) bs) = sum_list (take j bs) + bs ! j"
    using assms by (intro sum_take_Suc) (simp add: in_bucket_def)
  then have pos: "0 < bs ! j" using assms by (cases "bs ! j") (auto simp: in_bucket_def)
  then have x: "0 < ?x" "?x \<le> 1" using assms s by (auto simp: in_bucket_def field_simps)
  have w: "0 < bucket_upper j - bucket_lower j" using assms bound_width [of j] by (simp add: in_bucket_def)
  have "0 < (bucket_upper j - bucket_lower j) * ?x" by (rule mult_pos_pos [OF w x(1)])
  moreover have "(bucket_upper j - bucket_lower j) * ?x \<le> (bucket_upper j - bucket_lower j) * 1"
    using w x by (intro mult_left_mono) auto
  ultimately show ?thesis using assms by (simp add: in_bucket_def)
qed

text \<open>
  Where a latency quantile lies. For a full histogram that is not empty and \<open>0 < q \<le> 1\<close>, the
  estimate is in a bucket \<open>j\<close> (above its lower bound, at most its upper one) such that fewer than
  \<open>q \<cdot> n\<close> observations are below the bucket and at least \<open>q \<cdot> n\<close> are not above it.
\<close>

lemma quantile_located:
  assumes "length bs = kBucketCount" and "sum_list bs = n" and "0 < n" and "0 < q" and "q \<le> 1"
  shows "\<exists>j < kBucketCount. of_nat (sum_list (take j bs)) < q * of_nat n \<and>
    q * of_nat n \<le> of_nat (sum_list (take (Suc j) bs)) \<and>
    bucket_lower j < quantileFromBuckets bs n q \<and> quantileFromBuckets bs n q \<le> bucket_upper j"
proof -
  obtain j where j: "in_bucket bs (min 1 q * of_nat n) j (quantileFromBuckets bs n q)"
    using quantile_in_bucket [OF assms(1-4)] by blast
  with in_bucket_between [OF j assms(1)] assms(5) show ?thesis by (auto simp: in_bucket_def)
qed

lemma quantile_located_witness:
  "quantileFromBuckets [0, 0, 4, 0, 0, 0, 0, 0, 0, 0, 0, 0, 0] 4 (1 / 2) = 7 / 2 \<and>
   (\<exists>j < kBucketCount. bucket_lower j < 7 / 2 \<and> 7 / 2 \<le> bucket_upper j)"
proof -
  have v: "quantileFromBuckets [0, 0, 4, 0, 0, 0, 0, 0, 0, 0, 0, 0, 0] 4 (1 / 2) = 7 / 2"
    by (simp add: quantileFromBuckets_def bucket_lower_def bucket_upper_def kFiniteBuckets_def kBoundsMs_def)
  have "\<exists>j < kBucketCount. bucket_lower j < (7 / 2 :: rat) \<and> 7 / 2 \<le> bucket_upper j"
    using quantile_located [of "[0, 0, 4, 0, 0, 0, 0, 0, 0, 0, 0, 0, 0]" 4 "1 / 2", unfolded v]
    by (auto simp: kBucketCount_def kFiniteBuckets_def)
  with v show ?thesis by simp
qed

lemma in_bucket_mono:
  assumes a: "in_bucket bs t i x" and b: "in_bucket bs u j y" and "t \<le> u" "length bs = kBucketCount"
  shows "x \<le> y"
proof (cases "i < j")
  case True
  with bound_order [of i j] b have "bucket_upper i \<le> bucket_lower j" by (simp add: in_bucket_def)
  with in_bucket_between [OF a] in_bucket_between [OF b] assms show ?thesis by fastforce
next
  case False
  have "\<not> j < i"
  proof
    assume "j < i"
    then have "sum_list (take (Suc j) bs) \<le> sum_list (take i bs)" by (intro sum_take_mono) simp
    then have "of_nat (sum_list (take (Suc j) bs)) \<le> (of_nat (sum_list (take i bs)) :: rat)" by simp
    with assms show False by (simp add: in_bucket_def)
  qed
  with False have "i = j" by simp
  moreover have "(t - of_nat (sum_list (take i bs))) / of_nat (bs ! i) \<le>
      (u - of_nat (sum_list (take i bs))) / of_nat (bs ! i)"
    using assms(3) by (intro divide_right_mono) simp_all
  then have "(bucket_upper i - bucket_lower i) * ((t - of_nat (sum_list (take i bs))) / of_nat (bs ! i)) \<le>
      (bucket_upper i - bucket_lower i) * ((u - of_nat (sum_list (take i bs))) / of_nat (bs ! i))"
    using a bound_width [of i] by (intro mult_left_mono) (simp_all add: in_bucket_def)
  ultimately show ?thesis using a b by (simp only: in_bucket_def)
qed

text \<open>
  The latency quantiles are monotone. For a histogram whose buckets add up to its count, a
  larger \<open>q\<close> never gives a smaller estimate, so the published P50, P95 and P99 are in order.
\<close>

lemma quantile_monotone:
  assumes "length bs = kBucketCount" and "sum_list bs = n" and "p \<le> q"
  shows "quantileFromBuckets bs n p \<le> quantileFromBuckets bs n q"
proof (cases "n = 0 \<or> q \<le> 0")
  case True
  with assms(3) show ?thesis by (auto simp: quantileFromBuckets_def)
next
  case False
  then obtain j where j: "in_bucket bs (min 1 q * of_nat n) j (quantileFromBuckets bs n q)"
    using quantile_in_bucket [OF assms(1,2)] by (meson not_le gr0I)
  show ?thesis
  proof (cases "p \<le> 0")
    case True
    have "0 \<le> bucket_lower j" using j bound_width [of j] by (simp add: in_bucket_def)
    with True in_bucket_between [OF j assms(1)] show ?thesis by (simp add: quantileFromBuckets_def)
  next
    case pos: False
    with False obtain i where i: "in_bucket bs (min 1 p * of_nat n) i (quantileFromBuckets bs n p)"
      using quantile_in_bucket [OF assms(1,2)] by (meson not_le gr0I)
    have "min 1 p * of_nat n \<le> min 1 q * of_nat n" using assms(3) by (intro mult_right_mono) auto
    with in_bucket_mono [OF i j] assms(1) show ?thesis by simp
  qed
qed

lemma quantile_monotone_witness:
  "quantileFromBuckets [1, 0, 4, 0, 0, 0, 0, 0, 0, 0, 0, 0, 0] 5 (1 / 2) \<le>
   quantileFromBuckets [1, 0, 4, 0, 0, 0, 0, 0, 0, 0, 0, 0, 0] 5 (95 / 100)"
  using quantile_monotone [of "[1, 0, 4, 0, 0, 0, 0, 0, 0, 0, 0, 0, 0]" 5 "1 / 2" "95 / 100"]
  by (simp add: kBucketCount_def kFiniteBuckets_def)

end
