(* ===== verification/Session_Wf.thy ===== *)
theory Session_Wf
  imports Server_Stream Http_Parser_Wf Metrics_Props
begin

text \<open>
  The type invariant of a session: the connection, its two buffers, the parser, the metrics, the
  rate limiter and the jobs handed to workers are well formed at once, and every event of the
  connection and every finished job keeps them so, whatever the peer sends and the kernel answers.
\<close>

section \<open>The invariant\<close>

definition job_wf :: "job \<Rightarrow> bool" where
  "job_wf j \<longleftrightarrow> request_valid (jb_request j) \<and> rq_method (jb_request j) \<noteq> kInvalid \<and>
     length (rq_body (jb_request j)) \<le> 2 ^ 20 \<and>
     jb_headOnly j = (rq_method (jb_request j) = kHead) \<and> jb_keepAlive j = rq_keepAlive (jb_request j)"

definition conn_core :: "conn \<Rightarrow> bool" where
  "conn_core c \<longleftrightarrow> conn_inv c \<and> closes_once c"

definition session_core :: "session \<Rightarrow> bool" where
  "session_core s \<longleftrightarrow> conn_core (ss_conn s) \<and> histogram_inv (ss_metrics s) \<and> bucket_valid (ss_bucket s) \<and>
     list_all job_wf (ss_jobs s)"

text \<open>Between two events the parser never holds a complete request.\<close>

definition input_wf :: "http_parser \<Rightarrow> net_buffer \<Rightarrow> bool" where
  "input_wf p b \<longleftrightarrow> parser_wf p \<and> limits p = (8192, 2 ^ 20) \<and> ps_state p \<noteq> kGotAll \<and> buffer_valid b"

definition session_wf :: "session \<Rightarrow> bool" where
  "session_wf s \<longleftrightarrow> session_core s \<and> input_wf (ss_parser s) (cn_input (ss_conn s))"

section \<open>The connection\<close>

lemma conn_core_step: "conn_core c \<Longrightarrow> conn_core (conn_step files x c)"
  using conn_step_props [of c files x] conn_step_closed [of c files x] closes_once_step [of c files x]
  by (cases "cn_closed c") (auto simp: conn_core_def)

lemma conn_core_ops:
  assumes "conn_core c"
  shows "conn_core (fst (send d c rs))" "conn_core (fst (sendFile files f c rs))"
    "conn_core (fst (handleWrite files c rs))" "conn_core (shutdownWrite c)" "conn_core (handleClose c)"
  using conn_core_step [OF assms, of files "(OpSend d, rs)"] conn_core_step [OF assms, of files "(OpFile f, rs)"]
    conn_core_step [OF assms, of files "(OpWritable, rs)"] conn_core_step [OF assms, of files "(OpShutdown, rs)"]
    conn_core_step [OF assms, of files "(OpClose, rs)"]
  by (simp_all add: conn_step_def forceClose_def)

lemma conn_core_frame [simp]:
  "conn_core (c\<lparr>cn_input := b\<rparr>) = conn_core c" "conn_core (count_error c) = conn_core c"
  by (simp_all add: conn_core_def conn_inv_def closes_once_def count_error_def)

lemma conn_core_refresh: "conn_core c \<Longrightarrow> conn_core (refreshIdleTimer c)"
  by (simp add: conn_core_def conn_inv_def closes_once_def refreshIdleTimer_def)

section \<open>The rest of the session\<close>

lemma report_inv: "histogram_inv m \<Longrightarrow> histogram_inv (report c c' m)"
proof -
  have p: "histogram_inv (((apply_metric x) ^^ n) m)" if "histogram_inv m" for x n m
    using that by (induction n) (simp_all add: apply_metric_inv)
  assume "histogram_inv m"
  then have "histogram_inv (onBytesWritten n m)" for n
    using apply_metric_inv [of m "BytesWritten n"] by (simp add: apply_metric_def)
  then have "histogram_inv (((apply_metric Closed) ^^ i) (((apply_metric Error) ^^ j) (onBytesWritten n m)))" for i j n
    by (intro p)
  then show ?thesis by (simp add: report_def apply_metric_def)
qed

lemma core_tick [simp]: "session_core (tick s) = session_core s"
  by (simp add: session_core_def)

lemma core_metrics: "session_core s \<Longrightarrow> session_core (on_metrics (apply_metric x) s)"
  by (simp add: session_core_def apply_metric_inv)

lemmas core_metrics_simps =
  core_metrics [where x = RateLimited, unfolded apply_metric_def metric_op.case]
  core_metrics [where x = NotModified, unfolded apply_metric_def metric_op.case]
  core_metrics [where x = Error, unfolded apply_metric_def metric_op.case]
  core_metrics [where x = "Started k" for k, unfolded apply_metric_def metric_op.case]
  core_metrics [where x = "Finished c l" for c l, unfolded apply_metric_def metric_op.case]
  core_metrics [where x = "BytesRead n" for n, unfolded apply_metric_def metric_op.case]

lemma core_conn:
  assumes "session_core s" "\<And>c rs. conn_core c \<Longrightarrow> conn_core (fst (g c rs))"
  shows "session_core (on_conn g s)"
  using assms by (simp add: session_core_def on_conn_def case_prod_beta report_inv)

lemma core_update: "session_core s \<Longrightarrow> (\<And>c. conn_core c \<Longrightarrow> conn_core (g c)) \<Longrightarrow> session_core (update_conn g s)"
  unfolding update_conn_def by (rule core_conn) simp_all

lemma core_respond: "session_core s \<Longrightarrow> session_core (respond e headOnly keepAlive t0 response s)"
  by (auto simp: respond_def Let_def intro!: core_update core_conn core_metrics_simps conn_core_ops
      split: option.split)

lemma core_handle: "session_core s \<Longrightarrow> session_core (snd (server_handle e r s))"
  using apply_metric_inv [of _ Proxied] apply_metric_inv [of _ ProxyError]
  by (auto simp: server_handle_def Let_def session_core_def apply_metric_def)

lemma core_decide:
  assumes "session_core s"
  shows "session_core (snd (decide e r s))"
proof -
  obtain ok s1 where a: "admit e r s = (ok, s1)" by (cases "admit e r s")
  have "bucket_valid (ss_bucket s)" using assms by (simp add: session_core_def)
  from tryAcquire_valid [OF this] have "session_core s1"
    using a assms by (auto simp: admit_def session_core_def split: if_splits prod.splits)
  then show ?thesis
    using core_handle [of s1 e r] by (auto simp: decide_def a core_metrics_simps split: bool.split prod.split)
qed

definition taken_wf :: "http_request \<Rightarrow> bool" where
  "taken_wf r \<longleftrightarrow> request_valid r \<and> rq_method r \<noteq> kInvalid \<and> length (rq_body r) \<le> 2 ^ 20"

lemma core_serve: "session_core s \<Longrightarrow> taken_wf r \<Longrightarrow> session_core (serve_request e r s)"
proof -
  assume s: "session_core s" and r: "taken_wf r"
  have "session_core (start_request r s)" using s by (simp add: start_request_def core_metrics_simps)
  from core_decide [OF this, of e r] show ?thesis
    using r core_respond
    by (auto simp: serve_request_def Let_def session_core_def job_wf_def taken_wf_def split: option.split prod.split)
qed

lemma core_reject: "session_core s \<Longrightarrow> session_core (reject_request e s)"
  by (auto simp: reject_request_def intro!: core_update core_conn core_metrics_simps conn_core_ops)

lemma core_job:
  assumes "session_core s"
  shows "session_core (finish_job e i s)"
proof -
  let ?s1 = "s\<lparr>ss_jobs := take i (ss_jobs s) @ drop (Suc i) (ss_jobs s)\<rparr>"
  have "set (take i (ss_jobs s) @ drop (Suc i) (ss_jobs s)) \<subseteq> set (ss_jobs s)"
    by (auto dest: in_set_takeD in_set_dropD)
  then have "session_core ?s1" using assms by (auto simp: session_core_def list_all_iff)
  then have "session_core (snd (server_handle e (jb_request (ss_jobs s ! i)) ?s1))" by (rule core_handle)
  then show ?thesis
    using assms core_respond by (auto simp: finish_job_def Let_def split: prod.split)
qed

section \<open>The message callback\<close>

lemma taken_from_parser:
  assumes "parser_wf p" "limits p = (8192, 2 ^ 20)" "ps_state p = kGotAll" "takeRequest p = (r, q)"
  shows "taken_wf r \<and> parser_wf q \<and> limits q = (8192, 2 ^ 20) \<and> ps_state q \<noteq> kGotAll"
  using assms takeRequest_wf [OF assms(4)]
  by (auto simp: takeRequest_def taken_wf_def parser_wf_def head_wf_def limits_def parser_reset_def)

lemma message_loop_wf:
  "input_wf p b \<Longrightarrow> session_core s \<Longrightarrow> message_loop e p b s = (p', b', s') \<Longrightarrow> input_wf p' b' \<and> session_core s'"
proof (induction e p b s arbitrary: p' b' s' rule: message_loop.induct)
  case (1 e p b s)
  obtain res p1 b1 where r: "parse p b = (res, p1, b1)" by (cases "parse p b")
  have i: "parser_wf p" "buffer_valid b" "limits p = (8192, 2 ^ 20)" using "1.prems"(1) by (simp_all add: input_wf_def)
  note w = parse_wf [OF i(1,2) r]
  show ?case
  proof (cases res)
    case kComplete
    obtain request p2 where t: "takeRequest p1 = (request, p2)" by (cases "takeRequest p1")
    have tk: "taken_wf request \<and> parser_wf p2 \<and> limits p2 = (8192, 2 ^ 20) \<and> ps_state p2 \<noteq> kGotAll"
      using w i(3) kComplete t by (intro taken_from_parser [of p1]) simp_all
    then have "input_wf p2 b1" "session_core (serve_request e request s)"
      using w(3) "1.prems"(2) core_serve by (auto simp: input_wf_def)
    then show ?thesis
      using "1.IH" [OF r [unfolded kComplete, symmetric] refl refl t [symmetric] refl] "1.prems"(3)
      by (subst (asm) message_loop.simps) (auto simp: r kComplete t Let_def split: if_splits)
  next
    case kNeedMore
    then show ?thesis using "1.prems"(2,3) w i(3)
      by (subst (asm) message_loop.simps) (auto simp: r input_wf_def)
  next
    case kBadRequest
    then show ?thesis using "1.prems"(2,3) w i(3) core_reject
      by (subst (asm) message_loop.simps) (auto simp: r input_wf_def)
  qed
qed

lemma on_message_wf: "session_wf s \<Longrightarrow> session_wf (on_message e s)"
  by (auto simp: on_message_def session_wf_def session_core_def split: prod.split
      dest!: message_loop_wf [rotated 2])

section \<open>Events\<close>

lemma wf_metrics: "session_wf s \<Longrightarrow> session_wf (on_metrics (onBytesRead n) s)"
  by (simp add: session_wf_def core_metrics_simps) (simp add: on_metrics_def)

lemma wf_conn:
  assumes "session_wf s" "\<And>c rs. conn_core c \<Longrightarrow> conn_core (fst (g c rs))"
    and "\<And>c rs. cn_input (fst (g c rs)) = cn_input c"
  shows "session_wf (on_conn g s)"
  using core_conn [OF _ assms(2), of s] assms(1,3)
  by (simp add: session_wf_def) (simp add: on_conn_def case_prod_beta)

lemma wf_update:
  "session_wf s \<Longrightarrow> (\<And>c. conn_core c \<Longrightarrow> conn_core (g c)) \<Longrightarrow> (\<And>c. cn_input (g c) = cn_input c) \<Longrightarrow>
     session_wf (update_conn g s)"
  unfolding update_conn_def by (rule wf_conn) simp_all

lemma closing_input:
  "cn_input (handleClose c) = cn_input c" "cn_input (refreshIdleTimer c) = cn_input c"
  "cn_input (handleError c) = cn_input c" "cn_input (handleIdleTimeout c) = cn_input c"
  "cn_input (count_error c) = cn_input c"
  by (simp_all add: closing_defs)

lemma conn_core_closing:
  "conn_core c \<Longrightarrow> conn_core (handleError c)" "conn_core c \<Longrightarrow> conn_core (handleIdleTimeout c)"
  using conn_core_ops(5) [of "count_error c"] conn_core_ops(5) [of c]
  by (simp_all add: handleError_def handleIdleTimeout_def)

lemma read_loop_wf:
  "session_wf s \<Longrightarrow> session_read_loop e rs act s = (fin, act', s') \<Longrightarrow> session_wf s'"
proof (induction rs arbitrary: act s)
  case (Cons r rs)
  obtain n err b where r: "readFd (cn_input (ss_conn s)) r = (n, err, b)"
    by (cases "readFd (cn_input (ss_conn s)) r")
  have "buffer_valid b"
    using readFd_valid [OF _ r] Cons.prems(1) by (simp add: session_wf_def input_wf_def)
  then have "session_wf (s\<lparr>ss_conn := (ss_conn s)\<lparr>cn_input := b\<rparr>\<rparr>)"
    using Cons.prems(1) by (simp add: session_wf_def session_core_def input_wf_def)
  then have "session_wf (on_message e (on_metrics (onBytesRead (nat n)) (s\<lparr>ss_conn := (ss_conn s)\<lparr>cn_input := b\<rparr>\<rparr>)))"
    by (intro on_message_wf wf_metrics)
  then show ?case
    using Cons.prems Cons.IH by (simp add: r Let_def split: if_splits)
qed (simp split: if_splits)

lemma session_read_wf: "session_wf s \<Longrightarrow> session_wf (session_read e rs s)"
proof -
  assume s: "session_wf s"
  obtain fin act s1 where l: "session_read_loop e rs False s = (fin, act, s1)"
    by (cases "session_read_loop e rs False s") auto
  note w = read_loop_wf [OF s l]
  show ?thesis
    by (cases fin) (auto simp: session_read_def l closing_input w conn_core_closing conn_core_ops conn_core_refresh
        intro!: wf_update [OF w])
qed

lemma session_event_wf: "session_wf s \<Longrightarrow> session_wf (session_event_step e x s)"
proof -
  assume s: "session_wf s"
  obtain ev io where x: "x = (ev, io)" by (cases x)
  have "session_wf (s\<lparr>ss_io := io\<rparr>)" using s by (simp add: session_wf_def session_core_def)
  then show ?thesis
    by (cases ev) (auto simp: x Let_def session_read_wf closing_input handleWrite_input conn_core_closing conn_core_ops
        intro!: wf_update wf_conn)
qed

text \<open>The input buffer does not change when a job is finished.\<close>

lemma sendInLoop_input: "cn_input (fst (sendInLoop d c rs)) = cn_input c"
  by (auto simp: sendInLoop_def keep_rest_def cn_enableWriting_def took_def handleClose_def count_error_def Let_def
      split: list.split io.split)

lemma send_input: "cn_input (fst (send d c rs)) = cn_input c"
  by (simp add: send_def sendInLoop_input)

lemma sendFile_input: "cn_input (fst (sendFile files f c rs)) = cn_input c"
  by (simp add: sendFile_def sendInLoop_input handleWrite_input cn_enableWriting_def)

lemma shutdown_input: "cn_input (shutdownWrite c) = cn_input c"
  by (simp add: shutdownWrite_def)

lemma respond_input:
  "cn_input (ss_conn (respond e headOnly keepAlive t0 response s)) = cn_input (ss_conn s) \<and>
   ss_parser (respond e headOnly keepAlive t0 response s) = ss_parser s"
  by (auto simp: respond_def Let_def send_input sendFile_input shutdown_input on_conn_def update_conn_def
      on_metrics_def tick_def case_prod_beta split: option.split)

lemma finish_job_wf: "session_wf s \<Longrightarrow> session_wf (finish_job e i s)"
proof -
  assume s: "session_wf s"
  let ?s1 = "s\<lparr>ss_jobs := take i (ss_jobs s) @ drop (Suc i) (ss_jobs s)\<rparr>"
  have "ss_conn (snd (server_handle e r ?s1)) = ss_conn s \<and> ss_parser (snd (server_handle e r ?s1)) = ss_parser s" for r
    by (simp add: server_handle_def Let_def tick_def on_metrics_def)
  then have "cn_input (ss_conn (finish_job e i s)) = cn_input (ss_conn s) \<and> ss_parser (finish_job e i s) = ss_parser s"
    by (simp add: finish_job_def Let_def case_prod_beta respond_input)
  then show ?thesis using s core_job by (simp add: session_wf_def)
qed

lemma fresh_session_wf:
  "bucket_valid b \<Longrightarrow> histogram_inv m \<Longrightarrow>
     session_wf \<lparr>ss_parser = defaultParser, ss_conn = cn_start TcpConnection_new, ss_io = [], ss_metrics = m,
       ss_bucket = b, ss_readings = 0, ss_jobs = []\<rparr>"
  using TcpConnection_new_inv
  by (simp add: session_wf_def session_core_def input_wf_def conn_core_def closes_once_def parser_new_wf defaultParser_def)
    (simp add: HttpParser_new_def TcpConnection_new_def cn_start_def buffer_new_def buffer_valid_def kPrependSize_def)

text \<open>
  C3: sessions are well typed. The state of a fresh connection is well formed, and every event of
  the connection and every finished job leads from a well-formed session to one, whatever bytes
  arrive, whatever the kernel answers and whatever the other parties of the environment do: valid
  buffers and stream, one close callback, a parser between requests or inside a head or body within
  its limits, a histogram that adds up, a bucket within its burst, and jobs with valid requests.
\<close>

theorem sessions_well_formed:
  assumes "bucket_valid b" "histogram_inv m" "session_wf s"
  shows "session_wf \<lparr>ss_parser = defaultParser, ss_conn = cn_start TcpConnection_new, ss_io = [],
      ss_metrics = m, ss_bucket = b, ss_readings = 0, ss_jobs = []\<rparr> \<and>
    session_wf (session_event_step e x s) \<and> session_wf (finish_job e i s)"
  using fresh_session_wf [OF assms(1,2)] session_event_wf [OF assms(3)] finish_job_wf [OF assms(3)] by simp

lemma demo_new_wf: "session_wf demo_new"
  using fresh_session_wf [OF configure_valid metrics_reset_inv]
  by (simp add: demo_new_def demo_session_def)

theorem sessions_well_formed_witness:
  "session_wf (session_event_step (demo_env 0) (Readable [Inr ''GET ''], [IoBytes 1, IoErr 11]) demo_new)"
  using sessions_well_formed [OF configure_valid metrics_reset_inv demo_new_wf] by blast

end
