(* ===== verification/Acceptor.thy ===== *)
theory Acceptor
  imports Prelude
begin

text \<open>
  \<open>net/Socket\<close>, \<open>net/Acceptor\<close> and the round robin of \<open>net/EventLoopThreadPool\<close>. The kernel's
  answers to \<open>accept4\<close> are a list; an empty list means that no connection is waiting.
\<close>

section \<open>Socket\<close>

text \<open>
  A socket object owns a descriptor, or none (-1). The operations return the object and the
  descriptors they close.
\<close>

record socket =
  so_fd :: int

definition Socket_new :: "int \<Rightarrow> socket" where "Socket_new fd = \<lparr>so_fd = fd\<rparr>"

definition socket_valid :: "socket \<Rightarrow> bool" where "socket_valid s \<longleftrightarrow> 0 \<le> so_fd s"

definition socket_close :: "socket \<Rightarrow> socket \<times> int list" where
  "socket_close s = (if 0 \<le> so_fd s then (s\<lparr>so_fd := -1\<rparr>, [so_fd s]) else (s, []))"

definition socket_release :: "socket \<Rightarrow> int \<times> socket" where
  "socket_release s = (so_fd s, s\<lparr>so_fd := -1\<rparr>)"

text \<open>The move constructor, and the move assignment between two different objects.\<close>

definition socket_move :: "socket \<Rightarrow> socket \<times> socket" where
  "socket_move other = (\<lparr>so_fd = so_fd other\<rparr>, other\<lparr>so_fd := -1\<rparr>)"

definition socket_assign :: "socket \<Rightarrow> socket \<Rightarrow> socket \<times> socket \<times> int list" where
  "socket_assign s other =
     (case socket_close s of (s1, closed) \<Rightarrow> (s1\<lparr>so_fd := so_fd other\<rparr>, other\<lparr>so_fd := -1\<rparr>, closed))"

lemma close_twice: "socket_close (fst (socket_close s)) = (fst (socket_close s), [])"
  by (simp add: socket_close_def)

lemma released_not_closed: "snd (socket_close (snd (socket_release s))) = []"
  by (simp add: socket_close_def socket_release_def)

text \<open>Descriptors owned by two sockets are neither lost nor shared by an assignment.\<close>

definition owned :: "socket list \<Rightarrow> int list" where
  "owned ss = filter (\<lambda>fd. 0 \<le> fd) (map so_fd ss)"

lemma assign_keeps_descriptors:
  "socket_assign s other = (s', other', closed) \<Longrightarrow> closed @ owned [s', other'] = owned [s, other]"
  by (auto simp: socket_assign_def socket_close_def owned_def split: if_splits)

section \<open>The port\<close>

text \<open>\<open>listenOn\<close>: the port goes through a cast to 16 bits.\<close>

definition listen_port :: "int \<Rightarrow> nat" where
  "listen_port port = nat (port mod 2 ^ 16)"

lemma listen_port_id: "0 \<le> port \<Longrightarrow> port < 2 ^ 16 \<Longrightarrow> listen_port port = nat port"
  by (simp add: listen_port_def)

lemma listen_port_wraps: "listen_port 70000 = 4464"
  by (simp add: listen_port_def)

section \<open>Accepting\<close>

datatype accept_result = Accepted int string nat | AcceptErr int

definition aEINTR :: int where "aEINTR = 4"
definition aEAGAIN :: int where "aEAGAIN = 11"

text \<open>
  The loop of \<open>handleRead\<close>: the connections passed on, the descriptors closed because there is no
  callback, the number of errors logged, the answers not asked for, and whether the loop ends up
  waiting inside \<open>accept4\<close>. With no connection waiting the call fails with \<open>EAGAIN\<close> if the listening
  socket is non-blocking and waits for the next connection otherwise; the flags given to \<open>accept4\<close>
  are for the new descriptor only.
\<close>

fun accept_loop ::
  "bool \<Rightarrow> bool \<Rightarrow> accept_result list \<Rightarrow>
     (int \<times> string \<times> nat) list \<times> int list \<times> nat \<times> accept_result list \<times> bool" where
  "accept_loop nonblocking has_callback [] = ([], [], 0, [], \<not> nonblocking)"
| "accept_loop nonblocking has_callback (Accepted fd ip port # rs) =
     (case accept_loop nonblocking has_callback rs of (passed, closed, errors, rest, waits) \<Rightarrow>
        if has_callback then ((fd, ip, port) # passed, closed, errors, rest, waits)
        else (passed, fd # closed, errors, rest, waits))"
| "accept_loop nonblocking has_callback (AcceptErr e # rs) =
     (if e = aEAGAIN then ([], [], 0, rs, False)
      else if e = aEINTR then accept_loop nonblocking has_callback rs
      else ([], [], 1, rs, False))"

text \<open>Every accepted descriptor is passed on or closed, in order; the rest of the answers is a suffix.\<close>

definition accepted_fds :: "accept_result list \<Rightarrow> int list" where
  "accepted_fds rs = concat (map (\<lambda>r. case r of Accepted fd ip port \<Rightarrow> [fd] | _ \<Rightarrow> []) rs)"

lemma accept_loop_keeps_descriptors:
  "accept_loop nb cb rs = (passed, closed, errors, rest, waits) \<Longrightarrow>
     \<exists>used. rs = used @ rest \<and> accepted_fds used = (if cb then map fst passed else closed) \<and>
       (if cb then closed = [] else passed = []) \<and> errors \<le> 1"
proof (induction nb cb rs arbitrary: passed closed errors rest waits rule: accept_loop.induct)
  case (2 nb cb fd ip port rs)
  obtain p c n r w where a: "accept_loop nb cb rs = (p, c, n, r, w)" by (cases "accept_loop nb cb rs")
  from "2.IH" [OF a] obtain used where u: "rs = used @ r" "accepted_fds used = (if cb then map fst p else c)"
    "if cb then c = [] else p = []" "n \<le> 1" by blast
  then show ?case using "2.prems" a
    by (intro exI [of _ "Accepted fd ip port # used"]) (auto simp: accepted_fds_def split: if_splits)
next
  case (3 nb cb e rs)
  show ?case
  proof (cases "e = aEINTR")
    case True
    then have "accept_loop nb cb rs = (passed, closed, errors, rest, waits)"
      using "3.prems" by (simp add: aEINTR_def aEAGAIN_def)
    from "3.IH" [OF _ _ this] True obtain used where "rs = used @ rest"
      "accepted_fds used = (if cb then map fst passed else closed)"
      "if cb then closed = [] else passed = []" "errors \<le> 1" by (auto simp: aEINTR_def aEAGAIN_def)
    then show ?thesis by (intro exI [of _ "AcceptErr e # used"]) (simp add: accepted_fds_def)
  next
    case False
    then show ?thesis using "3.prems"
      by (intro exI [of _ "[AcceptErr e]"]) (auto simp: accepted_fds_def split: if_splits)
  qed
qed (auto simp: accepted_fds_def)

text \<open>The loop waits exactly if the socket is blocking and no error other than an interruption ends it first.\<close>

definition interrupted_only :: "accept_result list \<Rightarrow> bool" where
  "interrupted_only rs \<longleftrightarrow> (\<forall>e. AcceptErr e \<in> set rs \<longrightarrow> e = aEINTR)"

lemma accept_loop_waits:
  "snd (snd (snd (snd (accept_loop nb cb rs)))) \<longleftrightarrow> \<not> nb \<and> interrupted_only rs"
  by (induction nb cb rs rule: accept_loop.induct)
    (auto simp: interrupted_only_def aEINTR_def aEAGAIN_def split: prod.splits)

lemma accept_loop_passes_all:
  "interrupted_only rs \<Longrightarrow> map fst (fst (accept_loop nb True rs)) = accepted_fds rs"
proof (induction rs)
  case (Cons r rs)
  then have "interrupted_only rs" by (simp add: interrupted_only_def)
  with Cons show ?case
    by (cases r) (auto simp: accepted_fds_def interrupted_only_def aEINTR_def aEAGAIN_def split: prod.splits)
qed (simp add: accepted_fds_def)

section \<open>Choosing a loop\<close>

record loop_pool =
  lp_baseLoop :: nat
  lp_name :: string
  lp_started :: bool
  lp_threadCount :: nat
  lp_threads :: "string list"
  lp_loops :: "nat list"
  lp_next :: nat

definition EventLoopThreadPool_new :: "nat \<Rightarrow> string \<Rightarrow> loop_pool" where
  "EventLoopThreadPool_new base name = \<lparr>lp_baseLoop = base, lp_name = name, lp_started = False,
     lp_threadCount = 0, lp_threads = [], lp_loops = [], lp_next = 0\<rparr>"

definition setThreadCount :: "nat \<Rightarrow> loop_pool \<Rightarrow> loop_pool" where
  "setThreadCount n p = p\<lparr>lp_threadCount := n\<rparr>"

text \<open>\<open>start\<close>; what \<open>startLoop\<close> returns for each thread is a parameter, and no callback is given.\<close>

definition loop_pool_start :: "(nat \<Rightarrow> nat) \<Rightarrow> loop_pool \<Rightarrow> loop_pool" where
  "loop_pool_start startLoop p =
     (if lp_started p then p
      else p\<lparr>lp_started := True,
        lp_loops := lp_loops p @ map startLoop [0..<lp_threadCount p],
        lp_threads := lp_threads p @ map (\<lambda>i. lp_name p @ ''-'' @ string_of_nat i) [0..<lp_threadCount p]\<rparr>)"

definition nextLoop :: "loop_pool \<Rightarrow> nat \<times> loop_pool" where
  "nextLoop p = (if lp_loops p = [] then (lp_baseLoop p, p)
     else (lp_loops p ! lp_next p, p\<lparr>lp_next := (lp_next p + 1) mod length (lp_loops p)\<rparr>))"

fun next_loops :: "nat \<Rightarrow> loop_pool \<Rightarrow> nat list" where
  "next_loops 0 p = []"
| "next_loops (Suc k) p = (case nextLoop p of (l, p') \<Rightarrow> l # next_loops k p')"

lemma next_loops_nth:
  "lp_loops p \<noteq> [] \<Longrightarrow> lp_next p < length (lp_loops p) \<Longrightarrow>
     next_loops k p = map (\<lambda>i. lp_loops p ! ((lp_next p + i) mod length (lp_loops p))) [0..<k]"
proof (induction k arbitrary: p)
  case (Suc k)
  let ?q = "p\<lparr>lp_next := (lp_next p + 1) mod length (lp_loops p)\<rparr>"
  have "next_loops k ?q = map (\<lambda>i. lp_loops p ! ((lp_next p + Suc i) mod length (lp_loops p))) [0..<k]"
    using Suc.IH [of ?q] Suc.prems by (simp add: mod_simps add.assoc)
  moreover have "lp_loops p ! lp_next p = lp_loops p ! ((lp_next p + 0) mod length (lp_loops p))"
    using Suc.prems by simp
  ultimately show ?case
    using Suc.prems by (simp add: nextLoop_def upt_conv_Cons map_Suc_upt [symmetric] comp_def del: upt_Suc)
qed simp

text \<open>A started pool hands out its loops in turn, from the first thread on.\<close>

lemma started_pool_in_turn:
  assumes "0 < n" "p = loop_pool_start startLoop (setThreadCount n (EventLoopThreadPool_new base name))"
  shows "next_loops k p = map (\<lambda>i. startLoop (i mod n)) [0..<k] \<and> length (lp_threads p) = n \<and>
    loop_pool_start startLoop p = p"
proof -
  have p: "lp_loops p = map startLoop [0..<n]" "lp_next p = 0" "length (lp_threads p) = n" "lp_started p"
    by (simp_all add: assms(2) loop_pool_start_def setThreadCount_def EventLoopThreadPool_new_def)
  then show ?thesis
    using assms(1) next_loops_nth [of p k] by (simp add: loop_pool_start_def)
qed

text \<open>With no IO threads everything stays on the main loop.\<close>

lemma next_loops_base: "lp_loops p = [] \<Longrightarrow> next_loops k p = replicate k (lp_baseLoop p)"
  by (induction k) (simp_all add: nextLoop_def)

end
