(* ===== verification/Multi_Loop.thy ===== *)
theory Multi_Loop
  imports Event_Loop Acceptor
begin

text \<open>
  The reactor as a whole: the accept thread with the round robin of \<open>net/EventLoopThreadPool\<close>, and
  the IO loops of \<open>net/EventLoop\<close> with their lists of tasks, each stepping on its own. A task is the
  creation of an accepted connection, or the reply to a request computed by a worker. Connections
  are numbered in the order in which they were accepted.
\<close>

section \<open>States and steps\<close>

datatype loop_task = OpenConn nat | Reply nat

record reactor =
  re_pool :: loop_pool
  re_loops :: "nat \<Rightarrow> loop_task event_loop"
  re_accepted :: nat

text \<open>\<open>main\<close>: a pool of \<open>n\<close> threads whose loops are numbered from 0, all started.\<close>

definition reactor_new :: "nat \<Rightarrow> reactor" where
  "reactor_new n = \<lparr>re_pool = loop_pool_start id (setThreadCount n (EventLoopThreadPool_new n ''io'')),
     re_loops = \<lambda>_. loop_init, re_accepted = 0\<rparr>"

text \<open>The new-connection callback on the accept thread: the next loop gets the task.\<close>

definition dispatch_connection :: "reactor \<Rightarrow> reactor" where
  "dispatch_connection m =
     (case nextLoop (re_pool m) of (l, pool) \<Rightarrow>
        m\<lparr>re_pool := pool, re_accepted := re_accepted m + 1,
          re_loops := (re_loops m)(l := snd (runInLoop False (OpenConn (re_accepted m)) (re_loops m l)))\<rparr>)"

text \<open>A worker thread hands a reply to the loop of its connection.\<close>

definition post_reply :: "nat \<Rightarrow> nat \<Rightarrow> reactor \<Rightarrow> reactor" where
  "post_reply l j m = m\<lparr>re_loops := (re_loops m)(l := snd (runInLoop False (Reply j) (re_loops m l)))\<rparr>"

definition opens_of :: "loop_task list \<Rightarrow> nat list" where
  "opens_of ts = concat (map (\<lambda>t. case t of OpenConn k \<Rightarrow> [k] | Reply j \<Rightarrow> []) ts)"

text \<open>Only the accept thread posts connections; all else that a loop does is a step of \<open>Event_Loop\<close>.\<close>

inductive reactor_step :: "reactor \<Rightarrow> reactor \<Rightarrow> bool" where
  accepted: "reactor_step m (dispatch_connection m)"
| replied: "reactor_step m (post_reply l j m)"
| turn: "loop_step False (re_loops m l) s \<Longrightarrow> opens_of (ev_posted s) = opens_of (ev_posted (re_loops m l)) \<Longrightarrow>
    reactor_step m (m\<lparr>re_loops := (re_loops m)(l := s)\<rparr>)"

inductive reactor_reach :: "nat \<Rightarrow> reactor \<Rightarrow> bool" for n where
  init: "reactor_reach n (reactor_new n)"
| step: "reactor_reach n m \<Longrightarrow> reactor_step m m' \<Longrightarrow> reactor_reach n m'"

section \<open>Invariants\<close>

text \<open>The connections dealt to loop \<open>l\<close> of \<open>n\<close> when \<open>k\<close> have been accepted.\<close>

definition dealt :: "nat \<Rightarrow> nat \<Rightarrow> nat \<Rightarrow> nat list" where
  "dealt n k l = filter (\<lambda>i. i mod n = l) [0..<k]"

definition reactor_inv :: "nat \<Rightarrow> reactor \<Rightarrow> bool" where
  "reactor_inv n m \<longleftrightarrow>
     lp_loops (re_pool m) = [0..<n] \<and> lp_next (re_pool m) = re_accepted m mod n \<and>
     (\<forall>l. loop_reach False (re_loops m l)) \<and>
     (\<forall>l < n. opens_of (ev_posted (re_loops m l)) = dealt n (re_accepted m) l)"

lemma opens_of_simps [simp]:
  "opens_of [] = []" "opens_of (a @ b) = opens_of a @ opens_of b"
  "opens_of [OpenConn k] = [k]" "opens_of [Reply j] = []"
  by (simp_all add: opens_of_def)

lemma runInLoop_posts:
  "ev_posted (snd (runInLoop False f s)) = ev_posted s @ [f]"
  "loop_reach e s \<Longrightarrow> loop_reach e (snd (runInLoop False f s))"
  by (simp add: runInLoop_def queue_other_def push_task_def)
    (simp add: runInLoop_def loop_reach.step [OF _ post_other])

lemma dealt_Suc: "dealt n (Suc k) l = dealt n k l @ (if k mod n = l then [k] else [])"
  by (simp add: dealt_def)

lemma accept_inv:
  assumes n: "0 < n" and i: "reactor_inv n m"
  shows "reactor_inv n (dispatch_connection m)"
proof -
  let ?k = "re_accepted m"
  have "?k mod n < n" using n by simp
  then have "lp_loops (re_pool m) ! lp_next (re_pool m) = ?k mod n" "lp_loops (re_pool m) \<noteq> []"
    "length (lp_loops (re_pool m)) = n"
    using i n by (simp_all add: reactor_inv_def)
  then have d: "dispatch_connection m = m\<lparr>re_pool := (re_pool m)\<lparr>lp_next := (lp_next (re_pool m) + 1) mod n\<rparr>,
      re_accepted := ?k + 1,
      re_loops := (re_loops m)(?k mod n := snd (runInLoop False (OpenConn ?k) (re_loops m (?k mod n))))\<rparr>"
    by (simp add: dispatch_connection_def nextLoop_def)
  have "(?k mod n + 1) mod n = (?k + 1) mod n" by (simp add: mod_simps)
  then show ?thesis
    using i by (auto simp: reactor_inv_def d runInLoop_posts dealt_Suc)
qed

lemma reactor_inv_step:
  assumes "0 < n"
  shows "reactor_step m m' \<Longrightarrow> reactor_inv n m \<Longrightarrow> reactor_inv n m'"
proof (induction rule: reactor_step.induct)
  case (accepted m)
  then show ?case by (rule accept_inv [OF assms])
next
  case (replied m l j)
  then show ?case by (auto simp: reactor_inv_def post_reply_def runInLoop_posts)
next
  case (turn m l s)
  then show ?case using loop_reach.step by (auto simp: reactor_inv_def)
qed

lemma reactor_reach_inv:
  assumes "0 < n"
  shows "reactor_reach n m \<Longrightarrow> reactor_inv n m"
proof (induction rule: reactor_reach.induct)
  case init
  show ?case
    by (simp add: reactor_inv_def reactor_new_def loop_pool_start_def setThreadCount_def
        EventLoopThreadPool_new_def loop_reach.init dealt_def) (simp add: loop_init_def)
next
  case (step m m')
  then show ?case using reactor_inv_step [OF assms] by blast
qed

text \<open>
  C26: connections are dealt in turn. In every reachable state of the accept thread, the workers
  and the \<open>n\<close> IO loops, loop \<open>l\<close> has been given exactly the accepted connections whose number is
  \<open>l\<close> modulo \<open>n\<close>; it opens them in the order in which they were accepted, each once; and while one
  is waiting and the loop is about to block, a wake-up is there or on its way.
\<close>

theorem connections_dealt_in_turn:
  assumes "reactor_reach n m" "l < n"
  shows "filter (\<lambda>i. i mod n = l) [0..<re_accepted m] =
      opens_of (ev_done (re_loops m l)) @ opens_of (batch (ev_pc (re_loops m l))) @
      opens_of (ev_pending (re_loops m l)) \<and>
    (ev_pc (re_loops m l) = Polling \<and> opens_of (ev_pending (re_loops m l)) \<noteq> [] \<longrightarrow>
      ev_wake (re_loops m l) \<or> 0 < ev_posters (re_loops m l))"
proof -
  have i: "reactor_inv n m" using reactor_reach_inv [of n m] assms by simp
  then have r: "loop_reach False (re_loops m l)" "opens_of (ev_posted (re_loops m l)) = dealt n (re_accepted m) l"
    using assms(2) by (simp_all add: reactor_inv_def)
  have "ev_posted (re_loops m l) = ev_done (re_loops m l) @ batch (ev_pc (re_loops m l)) @ ev_pending (re_loops m l)"
    using reach_fifo [OF r(1)] by (simp add: fifo_inv_def)
  then have "dealt n (re_accepted m) l = opens_of (ev_done (re_loops m l)) @
      opens_of (batch (ev_pc (re_loops m l))) @ opens_of (ev_pending (re_loops m l))"
    using r(2) by simp
  moreover have "ev_wake (re_loops m l) \<or> 0 < ev_posters (re_loops m l)"
    if "ev_pc (re_loops m l) = Polling" "opens_of (ev_pending (re_loops m l)) \<noteq> []"
    using reach_wake [OF r(1)] that by (auto simp: wake_inv_def)
  ultimately show ?thesis by (auto simp: dealt_def)
qed

text \<open>Three connections on two loops.\<close>

definition demo_reactor :: reactor where
  "demo_reactor = dispatch_connection (post_reply 0 4 (dispatch_connection (dispatch_connection (reactor_new 2))))"

lemma demo_reactor_reach: "reactor_reach 2 demo_reactor"
  unfolding demo_reactor_def
  by (intro reactor_reach.step [OF _ accepted] reactor_reach.step [OF _ replied] reactor_reach.init)

lemma demo_accepted: "re_accepted demo_reactor = 3"
  by (simp add: demo_reactor_def dispatch_connection_def post_reply_def reactor_new_def case_prod_beta)

theorem connections_dealt_in_turn_witness:
  "[0, 2] = opens_of (ev_done (re_loops demo_reactor 0)) @ opens_of (batch (ev_pc (re_loops demo_reactor 0))) @
     opens_of (ev_pending (re_loops demo_reactor 0))"
  using connections_dealt_in_turn [OF demo_reactor_reach, of 0]
  by (simp add: demo_accepted upt_rec numeral_2_eq_2 numeral_3_eq_3)

end
