(* ===== verification/Connection_Table_Props.thy ===== *)
theory Connection_Table_Props
  imports Server
begin

text \<open>
  The connection table of \<open>main.cpp\<close>: with everything on one thread it is exact and respects the
  limit; with IO threads neither holds.
\<close>

section \<open>One thread\<close>

lemma length_om_put: "length (om_put k v m) \<le> Suc (length m)"
  by (induction k v m rule: om_put.induct) auto

lemma length_om_erase: "length (om_erase k m) \<le> length m"
  by (induction k m rule: om_erase.induct) auto

lemma length_om_erase_present: "om_get m k = Some v \<Longrightarrow> length m = Suc (length (om_erase k m))"
  by (induction k m rule: om_erase.induct) (auto simp: om_get_def split: if_splits)

definition exact_table :: "server_options \<Rightarrow> front \<Rightarrow> bool" where
  "exact_table opts f \<longleftrightarrow> fr_registry f = fr_open f \<and> fr_opening f = [] \<and> fr_closing f = [] \<and>
     (0 < op_maxConnections opts \<longrightarrow> registry_size (fr_registry f) \<le> op_maxConnections opts) \<and>
     mt_connectionsCurrent (fr_metrics f) = of_nat (registry_size (fr_registry f))"

lemmas front_ops = new_connection_def open_connection_def close_connection_def close_callback_def
  run_opening_def run_closing_def registry_add_def registry_remove_def registry_size_def

lemma metrics_current [simp]:
  "mt_connectionsCurrent (onConnectionOpened m) = mt_connectionsCurrent m + 1"
  "mt_connectionsCurrent (onConnectionClosed m) = mt_connectionsCurrent m - 1"
  "mt_connectionsCurrent (onConnectionRejected m) = mt_connectionsCurrent m"
  by (simp_all add: onConnectionOpened_def onConnectionClosed_def onConnectionRejected_def Let_def)

lemma exact_table_step:
  assumes "front_step opts f g" "op_ioThreads opts = 0" "exact_table opts f"
  shows "exact_table opts g"
  using assms
proof (cases rule: front_step.cases)
  case (accept fd)
  then have "length (om_put fd c (fr_open f)) = Suc (length (fr_open f))" for c
    using om_put_absent_length [of "fr_open f" fd] by simp
  then show ?thesis using accept(1) assms(2,3)
    by (auto simp: exact_table_def front_ops Let_def)
next
  case (shut fd c)
  have "length (fr_open f) = Suc (length (om_erase fd (fr_open f)))"
    using shut(2) by (rule length_om_erase_present)
  then show ?thesis using shut(1) assms(2,3)
    by (auto simp: exact_table_def front_ops Let_def)
qed (auto simp: exact_table_def)

text \<open>
  C33: with no IO threads the connection table is exact. After any sequence of accepted, rejected
  and closed connections it holds exactly the open descriptors with their connections, it never
  exceeds the limit when one is set, and the published number of connections is its size.
\<close>

theorem single_thread_table_exact:
  assumes "front_reach opts f" and "op_ioThreads opts = 0"
  shows "fr_registry f = fr_open f \<and>
    (0 < op_maxConnections opts \<longrightarrow> registry_size (fr_registry f) \<le> op_maxConnections opts) \<and>
    mt_connectionsCurrent (fr_metrics f) = of_nat (registry_size (fr_registry f))"
proof -
  have "exact_table opts f" using assms(1)
  proof (induction rule: front_reach.induct)
    case (init now)
    show ?case by (simp add: exact_table_def front_new_def registry_size_def om_empty_def metrics_reset_def)
  next
    case (step f g)
    then show ?case using exact_table_step assms(2) by blast
  qed
  then show ?thesis by (auto simp: exact_table_def)
qed

theorem single_thread_table_exact_witness:
  "\<exists>opts f. op_ioThreads opts = 0 \<and> op_maxConnections opts = 1 \<and> front_reach opts f \<and>
     fr_registry f = [(5, 0)] \<and> fr_open f = [(5, 0)] \<and> mt_connectionsCurrent (fr_metrics f) = 1"
proof -
  let ?o = "ServerOptions_new\<lparr>op_ioThreads := 0, op_maxConnections := 1\<rparr>"
  let ?f = "new_connection ?o 5 (front_new 0)"
  have r: "front_reach ?o ?f"
    by (rule front_reach.step [OF front_reach.init [of ?o 0] front_step.accept])
      (simp add: front_new_def om_empty_def om_get_def)
  have t: "fr_registry ?f = [(5, 0)]"
    by (simp add: front_ops front_new_def om_empty_def Let_def)
  have "op_ioThreads ?o = 0" by simp
  note x = single_thread_table_exact [OF r this]
  have "fr_open ?f = [(5, 0)]" using x t by metis
  moreover have "registry_size (fr_registry ?f) = 1" unfolding t registry_size_def by simp
  with x have "mt_connectionsCurrent (fr_metrics ?f) = 1" by (metis of_nat_1)
  ultimately show ?thesis using r t by (intro exI [of _ ?o] exI [of _ ?f]) simp
qed

section \<open>IO threads\<close>

lemma new_connection_accepts:
  assumes "0 < op_ioThreads opts" "\<not> (0 < op_maxConnections opts \<and> op_maxConnections opts \<le> registry_size (fr_registry f))"
  shows "new_connection opts fd f = f\<lparr>fr_open := om_put fd (fr_next f) (fr_open f), fr_next := fr_next f + 1,
    fr_opening := fr_opening f @ [(fd, fr_next f)]\<rparr>"
  using assms by (auto simp: new_connection_def Let_def)

text \<open>\<open>n\<close> connections accepted before the first of their tasks has run.\<close>

lemma accept_many:
  assumes "0 < op_ioThreads opts"
  shows "\<exists>f. front_reach opts f \<and> fr_registry f = om_empty \<and>
    fr_opening f = map (\<lambda>i. (int i, i)) [0..<n] \<and> fr_next f = n \<and> fst ` set (fr_open f) = int ` {..<n}"
proof (induction n)
  case 0
  show ?case
    by (intro exI [of _ "front_new 0"] conjI front_reach.init) (simp_all add: front_new_def om_empty_def)
next
  case (Suc n)
  then obtain f where f: "front_reach opts f" "fr_registry f = om_empty"
    "fr_opening f = map (\<lambda>i. (int i, i)) [0..<n]" "fr_next f = n" "fst ` set (fr_open f) = int ` {..<n}"
    by blast
  have "om_get (fr_open f) (int n) = None" unfolding om_get_None_iff f(5) by auto
  then have r: "front_reach opts (new_connection opts (int n) f)"
    using f(1) front_step.accept front_reach.step by blast
  have g: "new_connection opts (int n) f = f\<lparr>fr_open := om_put (int n) n (fr_open f), fr_next := n + 1,
      fr_opening := fr_opening f @ [(int n, n)]\<rparr>"
    using assms f(2,4) by (subst new_connection_accepts) (auto simp: registry_size_def om_empty_def)
  show ?case
    using r f by (intro exI [of _ "new_connection opts (int n) f"])
      (simp add: g set_om_put lessThan_Suc insert_commute)
qed

lemma run_all:
  "front_reach opts f \<Longrightarrow> fr_opening f = map (\<lambda>i. (int i, i)) [k..<k + m] \<Longrightarrow>
     fst ` set (fr_registry f) = int ` {..<k} \<Longrightarrow> length (fr_registry f) = k \<Longrightarrow>
     \<exists>g. front_reach opts g \<and> length (fr_registry g) = k + m"
proof (induction m arbitrary: f k)
  case 0
  then show ?case by auto
next
  case (Suc m)
  have o: "fr_opening f = (int k, k) # map (\<lambda>i. (int i, i)) [Suc k..<Suc k + m]"
    using Suc.prems(2) by (simp add: upt_conv_Cons)
  let ?g = "run_opening 0 f"
  have g: "?g = f\<lparr>fr_opening := map (\<lambda>i. (int i, i)) [Suc k..<Suc k + m],
      fr_registry := om_put (int k) k (fr_registry f), fr_metrics := onConnectionOpened (fr_metrics f)\<rparr>"
    by (simp add: run_opening_def open_connection_def registry_add_def o remove_nth_def)
  have r: "front_reach opts ?g"
    using front_reach.step [OF Suc.prems(1) front_step.open_task [of 0]] o by simp
  have n: "om_get (fr_registry f) (int k) = None" unfolding om_get_None_iff Suc.prems(3) by auto
  show ?case
    using Suc.IH [OF r, of "Suc k"] Suc.prems(3,4) om_put_absent_length [OF n]
    by (simp add: g set_om_put lessThan_Suc)
qed

text \<open>A descriptor is reused between the closing of a socket and its close callback.\<close>

lemma reuse_run:
  assumes t: "0 < op_ioThreads opts" and m: "op_maxConnections opts \<noteq> 1"
  shows "\<exists>f. front_reach opts f \<and> fr_opening f = [] \<and> fr_closing f = [] \<and>
    om_get (fr_open f) fd = Some 1 \<and> om_get (fr_registry f) fd = None"
proof -
  define f0 where "f0 = front_new 0"
  define f1 where "f1 = new_connection opts fd f0"
  have e0: "fr_open f0 = []" "fr_registry f0 = []" "fr_opening f0 = []" "fr_closing f0 = []" "fr_next f0 = 0"
    by (simp_all add: f0_def front_new_def om_empty_def)
  have r0: "front_reach opts f0" unfolding f0_def by (rule front_reach.init)
  have r1: "front_reach opts f1"
    unfolding f1_def by (rule front_reach.step [OF r0 front_step.accept]) (simp add: e0 om_get_def)
  have e1: "fr_open f1 = [(fd, 0)]" "fr_registry f1 = []" "fr_opening f1 = [(fd, 0)]"
    "fr_closing f1 = []" "fr_next f1 = 1"
    unfolding f1_def using t by (subst new_connection_accepts; auto simp: e0 registry_size_def)+
  define f2 where "f2 = run_opening 0 f1"
  have r2: "front_reach opts f2" unfolding f2_def using front_reach.step [OF r1 front_step.open_task [of 0]] e1 by simp
  have e2: "fr_open f2 = [(fd, 0)]" "fr_registry f2 = [(fd, 0)]" "fr_opening f2 = []"
    "fr_closing f2 = []" "fr_next f2 = 1"
    by (simp_all add: run_opening_def open_connection_def registry_add_def f2_def e1 remove_nth_def)
  define f3 where "f3 = close_connection opts (fd, 0) f2"
  have r3: "front_reach opts f3"
    unfolding f3_def by (rule front_reach.step [OF r2 front_step.shut]) (simp_all add: e2 om_get_def)
  have e3: "fr_open f3 = []" "fr_registry f3 = [(fd, 0)]" "fr_opening f3 = []"
    "fr_closing f3 = [(fd, 0)]" "fr_next f3 = 1"
    using t by (simp_all add: close_connection_def f3_def e2 Let_def)
  define f4 where "f4 = new_connection opts fd f3"
  have r4: "front_reach opts f4"
    unfolding f4_def by (rule front_reach.step [OF r3 front_step.accept]) (simp add: e3 om_get_def)
  have e4: "fr_open f4 = [(fd, 1)]" "fr_registry f4 = [(fd, 0)]" "fr_opening f4 = [(fd, 1)]"
    "fr_closing f4 = [(fd, 0)]"
    unfolding f4_def using t m by (subst new_connection_accepts; auto simp: e3 registry_size_def)+
  define f5 where "f5 = run_opening 0 f4"
  have r5: "front_reach opts f5" unfolding f5_def using front_reach.step [OF r4 front_step.open_task [of 0]] e4 by simp
  have e5: "fr_open f5 = [(fd, 1)]" "fr_registry f5 = [(fd, 1)]" "fr_opening f5 = []"
    "fr_closing f5 = [(fd, 0)]"
    by (simp_all add: run_opening_def open_connection_def registry_add_def f5_def e4 remove_nth_def)
  define f6 where "f6 = run_closing 0 f5"
  have r6: "front_reach opts f6" unfolding f6_def using front_reach.step [OF r5 front_step.close_task [of 0]] e5 by simp
  have "fr_open f6 = [(fd, 1)]" "fr_registry f6 = []" "fr_opening f6 = []" "fr_closing f6 = []"
    by (simp_all add: run_closing_def close_callback_def registry_remove_def f6_def e5 remove_nth_def)
  with r6 show ?thesis by (intro exI [of _ f6]) (simp add: om_get_def)
qed

text \<open>
  C34: with IO threads the connection table is neither complete nor bounded. If a descriptor is
  reused between the closing of its socket on an IO thread and the close callback there, the
  callback removes the new connection: nothing is pending, the connection is open, and the table,
  the only lasting owner of connections, has lost it. And whatever the limit, any number of connections
  can get into the table, since the ones whose task has not run yet are not counted.
\<close>

theorem io_threads_break_table:
  assumes "0 < op_ioThreads opts" and "op_maxConnections opts \<noteq> 1"
  shows "(\<exists>f. front_reach opts f \<and> fr_opening f = [] \<and> fr_closing f = [] \<and>
      om_get (fr_open f) fd = Some 1 \<and> om_get (fr_registry f) fd = None) \<and>
    (\<exists>f. front_reach opts f \<and> registry_size (fr_registry f) = n)"
proof -
  obtain f where f: "front_reach opts f" "fr_registry f = om_empty" "fr_opening f = map (\<lambda>i. (int i, i)) [0..<n]"
    using accept_many [OF assms(1), of n] by blast
  have "\<exists>g. front_reach opts g \<and> length (fr_registry g) = 0 + n"
    using f by (intro run_all) (simp_all add: om_empty_def)
  with reuse_run [OF assms] show ?thesis by (simp add: registry_size_def)
qed

theorem io_threads_break_table_witness:
  "\<exists>f. front_reach (ServerOptions_new\<lparr>op_maxConnections := 2\<rparr>) f \<and> registry_size (fr_registry f) = 3"
  using io_threads_break_table [of "ServerOptions_new\<lparr>op_maxConnections := 2\<rparr>" 7 3]
  by (simp add: ServerOptions_new_def)

end
