(* ===== verification/Log_Stream.thy ===== *)
theory Log_Stream
  imports Complex_Main Prelude Format_Double
begin

text \<open>
  \<open>log/LogStream\<close> and \<open>log/Logger\<close>: the fixed buffer, the integer formatter with its digit table,
  the stream operators, and the line a logger puts together. What \<open>snprintf\<close> prints for a pointer
  and \<open>strftime\<close> for a date is a parameter.
\<close>

section \<open>FixedBuffer\<close>

record fixed_buffer =
  fb_size :: nat
  fb_data :: string

definition kSmallBuffer :: nat where "kSmallBuffer = 4096"
definition kLargeBuffer :: nat where "kLargeBuffer = 4 * 1024 * 1024"
definition kMaxNumericSize :: nat where "kMaxNumericSize = 48"

definition fixed_new :: "nat \<Rightarrow> fixed_buffer" where
  "fixed_new n = \<lparr>fb_size = n, fb_data = []\<rparr>"

definition fixed_avail :: "fixed_buffer \<Rightarrow> nat" where
  "fixed_avail b = fb_size b - length (fb_data b) - 1"

text \<open>What does not fit is dropped whole.\<close>

definition fixed_append :: "string \<Rightarrow> fixed_buffer \<Rightarrow> fixed_buffer" where
  "fixed_append d b = (if length d < fixed_avail b then b\<lparr>fb_data := fb_data b @ d\<rparr> else b)"

definition fixed_reset :: "fixed_buffer \<Rightarrow> fixed_buffer" where
  "fixed_reset b = b\<lparr>fb_data := []\<rparr>"

definition fixed_length :: "fixed_buffer \<Rightarrow> nat" where
  "fixed_length b = length (fb_data b)"

definition fixed_toString :: "fixed_buffer \<Rightarrow> string" where
  "fixed_toString b = take (fixed_length b) (fb_data b)"

text \<open>\<open>zero\<close> clears the bytes but not the position.\<close>

definition fixed_zero :: "fixed_buffer \<Rightarrow> fixed_buffer" where
  "fixed_zero b = b\<lparr>fb_data := replicate (fixed_length b) (CHR 0x00)\<rparr>"

section \<open>Integers\<close>

text \<open>\<open>kZeroDigit[digit]\<close> for a remainder between -9 and 9.\<close>

definition kDigits :: string where "kDigits = ''9876543210123456789''"

definition zero_digit :: "int \<Rightarrow> char" where
  "zero_digit digit = kDigits ! nat (9 + digit)"

text \<open>The digits written downwards from the end of the area; \<open>%\<close> and \<open>/\<close> truncate towards zero.\<close>

function digit_loop :: "int \<Rightarrow> string \<Rightarrow> string" where
  "digit_loop v acc =
     (let acc' = zero_digit (c_rem v 10) # acc; v' = c_div v 10 in
      if v' = 0 then acc' else digit_loop v' acc')"
  by pat_completeness auto
termination
  by (relation "measure (\<lambda>(v, acc). nat \<bar>v\<bar>)") (auto simp: c_div_def abs_mult sgn_if)

declare digit_loop.simps [simp del]

definition integer_text :: "int \<Rightarrow> string" where
  "integer_text v = (if v < 0 then CHR ''-'' # digit_loop v [] else digit_loop v [])"

definition formatInteger :: "int \<Rightarrow> fixed_buffer \<Rightarrow> fixed_buffer" where
  "formatInteger v b =
     (if fixed_avail b < kMaxNumericSize then b else fixed_append (integer_text v) b)"

lemma zero_digit_abs:
  assumes "- 9 \<le> d" "d \<le> 9"
  shows "zero_digit d = digit_char (nat \<bar>d\<bar>)"
proof -
  have "d = - 9 \<or> d = - 8 \<or> d = - 7 \<or> d = - 6 \<or> d = - 5 \<or> d = - 4 \<or> d = - 3 \<or> d = - 2 \<or> d = - 1 \<or>
      d = 0 \<or> d = 1 \<or> d = 2 \<or> d = 3 \<or> d = 4 \<or> d = 5 \<or> d = 6 \<or> d = 7 \<or> d = 8 \<or> d = 9"
    using assms by presburger
  then show ?thesis
    by (elim disjE) (simp_all add: zero_digit_def kDigits_def digit_char_def char_of_def bit_0)
qed

lemma c_rem_abs: "\<bar>c_rem v 10\<bar> = \<bar>v\<bar> mod 10"
proof (cases "0 \<le> v")
  case True
  then show ?thesis by (simp add: c_rem_def c_div_nonneg minus_div_mult_eq_mod)
next
  case False
  have "c_rem v 10 = - ((- v) mod 10)"
    using False by (simp add: c_rem_def c_div_neg minus_div_mult_eq_mod [symmetric])
  then show ?thesis using False by simp
qed

lemma c_div_abs: "\<bar>c_div v 10\<bar> = \<bar>v\<bar> div 10"
  by (cases "0 \<le> v") (simp_all add: c_div_nonneg c_div_neg)

lemma digit_loop_value: "digit_loop v acc = string_of_nat (nat \<bar>v\<bar>) @ acc"
proof (induction v acc rule: digit_loop.induct)
  case (1 v acc)
  let ?n = "nat \<bar>v\<bar>"
  have "c_rem v 10 \<in> {- 9..9}"
    using c_rem_abs [of v] pos_mod_bound [of 10 "\<bar>v\<bar>"] by (simp add: abs_le_iff) linarith
  then have z: "zero_digit (c_rem v 10) = digit_char (?n mod 10)"
    by (simp add: zero_digit_abs c_rem_abs nat_mod_distrib)
  have q: "nat \<bar>c_div v 10\<bar> = ?n div 10" by (simp add: c_div_abs nat_div_distrib)
  have e: "c_div v 10 = 0 \<longleftrightarrow> ?n div 10 = 0"
    using q by (metis abs_eq_0 nat_0 nat_0_iff abs_ge_zero antisym)
  show ?case
  proof (cases "?n < 10")
    case True
    then have "digit_loop v acc = zero_digit (c_rem v 10) # acc" using e by (subst digit_loop.simps) (simp add: Let_def)
    also have "\<dots> = string_of_nat ?n @ acc" using True z by (subst string_of_nat.simps) simp
    finally show ?thesis .
  next
    case False
    then have n0: "c_div v 10 \<noteq> 0" using e by simp
    then have "digit_loop v acc = digit_loop (c_div v 10) (zero_digit (c_rem v 10) # acc)"
      by (subst digit_loop.simps) (simp add: Let_def)
    also have "\<dots> = string_of_nat ?n @ acc"
      using "1.IH" [OF refl refl n0] False z q by (simp add: string_of_nat.simps [of ?n])
    finally show ?thesis .
  qed
qed

lemma integer_text_decimal: "integer_text v = string_of_int v"
  by (simp add: integer_text_def string_of_int_def digit_loop_value)

text \<open>
  Every integer type is printed in decimal. For every value of the signed and unsigned types
  up to 64 bits, the least negative ones included, formatting into a buffer with room for the
  numeric area appends its decimal text, of at most 20 characters, so that the digits, which the
  code writes from the end of the 48 byte area, never overlap the place they are copied to; and
  reading the text back as a number gives the value.
\<close>

lemma format_integer_decimal:
  assumes "- (2 ^ 63) \<le> v" "v < 2 ^ 64" "kMaxNumericSize \<le> fixed_avail b"
  shows "fb_data (formatInteger v b) = fb_data b @ integer_text v \<and> length (integer_text v) \<le> 20 \<and>
    (if v < 2 ^ 63 then strtol (integer_text v) = v else strtoul (integer_text v) = nat v)"
proof -
  have "length (string_of_nat (nat i)) \<le> 20" if "i < 2 ^ 64" for i :: int
    using that by (intro string_of_nat_length) (simp_all add: nat_less_iff)
  moreover have "length (string_of_nat (nat (- v))) \<le> 19"
    using assms(1) by (intro string_of_nat_length) (simp_all add: nat_less_iff)
  ultimately have l: "length (integer_text v) \<le> 20"
    using assms(2) by (simp add: integer_text_decimal string_of_int_def)
  have r: "if v < 2 ^ 63 then strtol (integer_text v) = v else strtoul (integer_text v) = nat v"
    using assms(1,2) strtoul_string_of_nat [of "nat v"]
    by (simp add: integer_text_decimal strtol_string_of_int) (simp add: string_of_int_def nat_less_iff)
  show ?thesis using l r assms(3)
    by (simp add: formatInteger_def fixed_append_def kMaxNumericSize_def)
qed

lemma format_integer_decimal_witness:
  "fb_data (formatInteger (- (2 ^ 63)) (fixed_new kSmallBuffer)) = ''-9223372036854775808''"
  using format_integer_decimal [of "- (2 ^ 63)" "fixed_new kSmallBuffer"]
  by (simp add: fixed_new_def fixed_avail_def kSmallBuffer_def kMaxNumericSize_def integer_text_decimal
      string_of_int_def string_of_nat.simps digit_char_def char_of_def bit_0)

section \<open>The stream operators\<close>

text \<open>
  What can be written: an integer of any type, a double with six digits (\<open>%.6g\<close>), a pointer by its
  \<open>snprintf\<close> text, a truth value, a character, a C string (\<^term>\<open>None\<close> for a null pointer) or a string.
\<close>

datatype log_value = LInt int | LDouble rat | LPrintf string | LBool bool | LChar char | LCStr "string option" | LStr string

definition stream_put :: "log_value \<Rightarrow> fixed_buffer \<Rightarrow> fixed_buffer" where
  "stream_put x b = (case x of
     LInt v \<Rightarrow> formatInteger v b
   | LDouble v \<Rightarrow> if kMaxNumericSize \<le> fixed_avail b then fixed_append (print_double 6 v) b else b
   | LPrintf text \<Rightarrow> if kMaxNumericSize \<le> fixed_avail b then fixed_append text b else b
   | LBool v \<Rightarrow> fixed_append (if v then ''1'' else ''0'') b
   | LChar c \<Rightarrow> fixed_append [c] b
   | LCStr None \<Rightarrow> fixed_append ''(null)'' b
   | LCStr (Some t) \<Rightarrow> fixed_append t b
   | LStr t \<Rightarrow> fixed_append t b)"

definition value_text :: "log_value \<Rightarrow> string" where
  "value_text x = (case x of
     LInt v \<Rightarrow> string_of_int v | LDouble v \<Rightarrow> print_double 6 v | LPrintf t \<Rightarrow> t | LBool v \<Rightarrow> if v then ''1'' else ''0'' | LChar c \<Rightarrow> [c]
   | LCStr None \<Rightarrow> ''(null)'' | LCStr (Some t) \<Rightarrow> t | LStr t \<Rightarrow> t)"

lemma stream_put_cases:
  "fb_data (stream_put x b) \<in> {fb_data b, fb_data b @ value_text x} \<and> fb_size (stream_put x b) = fb_size b"
  by (auto simp: stream_put_def value_text_def formatInteger_def fixed_append_def integer_text_decimal
      split: log_value.split option.split)

lemma stream_put_fits:
  "length (fb_data b) + length (value_text x) + kMaxNumericSize < fb_size b \<Longrightarrow>
     fb_data (stream_put x b) = fb_data b @ value_text x"
  by (auto simp: stream_put_def value_text_def formatInteger_def fixed_append_def fixed_avail_def
      integer_text_decimal kMaxNumericSize_def split: log_value.split option.split)

lemma stream_puts_fit:
  "length (fb_data b) + length (concat (map value_text xs)) + kMaxNumericSize < fb_size b \<Longrightarrow>
     fb_data (fold stream_put xs b) = fb_data b @ concat (map value_text xs) \<and>
     fb_size (fold stream_put xs b) = fb_size b"
proof (induction xs arbitrary: b)
  case (Cons x xs)
  have "fb_data (stream_put x b) = fb_data b @ value_text x" using Cons.prems by (intro stream_put_fits) simp
  moreover have "fb_size (stream_put x b) = fb_size b" using stream_put_cases by blast
  ultimately show ?case using Cons.IH [of "stream_put x b"] Cons.prems by simp
qed simp

lemma stream_puts_bounded:
  "length (fb_data b) < fb_size b \<Longrightarrow>
     length (fb_data (fold stream_put xs b)) < fb_size b \<and> fb_size (fold stream_put xs b) = fb_size b"
proof (induction xs arbitrary: b)
  case (Cons x xs)
  have "fb_size (stream_put x b) = fb_size b" using stream_put_cases by blast
  moreover have "length (fb_data (stream_put x b)) < fb_size b"
    using Cons.prems
    by (auto simp: stream_put_def formatInteger_def fixed_append_def fixed_avail_def
        split: log_value.split option.split)
  ultimately show ?case using Cons.IH [of "stream_put x b"] by simp
qed simp

section \<open>Logger\<close>

datatype log_level = kTrace | kDebug | kInfo | kWarn | kError | kFatal

definition level_number :: "log_level \<Rightarrow> nat" where
  "level_number l = (case l of kTrace \<Rightarrow> 0 | kDebug \<Rightarrow> 1 | kInfo \<Rightarrow> 2 | kWarn \<Rightarrow> 3 | kError \<Rightarrow> 4 | kFatal \<Rightarrow> 5)"

text \<open>The levels are ordered by their numbers.\<close>

instantiation log_level :: linorder
begin

definition less_eq_log_level :: "log_level \<Rightarrow> log_level \<Rightarrow> bool" where
  "less_eq_log_level a b \<longleftrightarrow> level_number a \<le> level_number b"

definition less_log_level :: "log_level \<Rightarrow> log_level \<Rightarrow> bool" where
  "less_log_level a b \<longleftrightarrow> level_number a < level_number b"

instance
proof
  show "a = b" if "a \<le> b" "b \<le> a" for a b :: log_level
    using that by (cases a; cases b) (simp_all add: less_eq_log_level_def level_number_def)
qed (auto simp: less_eq_log_level_def less_log_level_def)

end

definition logLevelName :: "log_level \<Rightarrow> string" where
  "logLevelName l = (case l of
     kTrace \<Rightarrow> ''TRACE'' | kDebug \<Rightarrow> ''DEBUG'' | kInfo \<Rightarrow> ''INFO '' | kWarn \<Rightarrow> ''WARN ''
   | kError \<Rightarrow> ''ERROR'' | kFatal \<Rightarrow> ''FATAL'')"

definition logLevelFromString :: "string \<Rightarrow> log_level \<Rightarrow> log_level" where
  "logLevelFromString text fallback =
     (if text = ''trace'' then kTrace
      else if text = ''debug'' then kDebug
      else if text = ''info'' then kInfo
      else if text = ''warn'' \<or> text = ''warning'' then kWarn
      else if text = ''error'' then kError
      else if text = ''fatal'' then kFatal
      else fallback)"

text \<open>What comes after the last slash.\<close>

definition log_baseName :: "string \<Rightarrow> string" where
  "log_baseName path = rev (takeWhile (\<lambda>c. c \<noteq> CHR ''/'') (rev path))"

definition kNewline :: string where "kNewline = [CHR 0x0A]"

text \<open>\<open>appendTimestamp\<close>: the date by \<open>strftime\<close>, then the microseconds as a plain number.\<close>

definition timestamp_values :: "string \<Rightarrow> int \<Rightarrow> log_value list" where
  "timestamp_values date nsec = [LCStr (Some date), LCStr (Some ''.''), LInt (c_div nsec 1000)]"

definition log_prefix :: "string \<Rightarrow> int \<Rightarrow> int \<Rightarrow> log_level \<Rightarrow> log_value list" where
  "log_prefix date nsec tid l =
     timestamp_values date nsec @ [LCStr (Some '' [''), LCStr (Some (logLevelName l)),
       LCStr (Some ''] [tid:''), LInt tid, LCStr (Some ''] '')]"

definition log_suffix :: "string \<Rightarrow> int \<Rightarrow> log_value list" where
  "log_suffix file line =
     [LCStr (Some '' - ''), LCStr (Some (log_baseName file)), LCStr (Some '':''), LInt line, LCStr (Some kNewline)]"

text \<open>
  One use of a \<open>LOG_...\<close> macro: below the global level nothing happens; otherwise the line goes to
  the output and is counted, and a fatal line flushes and aborts.
\<close>

record log_world =
  lw_level :: log_level
  lw_output :: "string list"
  lw_lineCount :: "64 word"
  lw_flushes :: nat
  lw_aborted :: bool

definition log_line :: "string \<Rightarrow> int \<Rightarrow> int \<Rightarrow> log_level \<Rightarrow> string \<Rightarrow> int \<Rightarrow> log_value list \<Rightarrow> string" where
  "log_line date nsec tid l file line values =
     fb_data (fold stream_put (log_prefix date nsec tid l @ values @ log_suffix file line) (fixed_new kSmallBuffer))"

definition log_emit ::
  "string \<Rightarrow> int \<Rightarrow> int \<Rightarrow> log_level \<Rightarrow> string \<Rightarrow> int \<Rightarrow> log_value list \<Rightarrow> log_world \<Rightarrow> log_world" where
  "log_emit date nsec tid l file line values w =
     (if l < lw_level w then w
      else let w1 = w\<lparr>lw_output := lw_output w @ [log_line date nsec tid l file line values],
                      lw_lineCount := lw_lineCount w + 1\<rparr> in
        if l = kFatal then w1\<lparr>lw_flushes := lw_flushes w1 + 1, lw_aborted := True\<rparr> else w1)"

definition Logger_setLevel :: "log_level \<Rightarrow> log_world \<Rightarrow> log_world" where
  "Logger_setLevel l w = w\<lparr>lw_level := l\<rparr>"

definition Logger_level :: "log_world \<Rightarrow> log_level" where
  "Logger_level w = lw_level w"

definition Logger_lineCount :: "log_world \<Rightarrow> 64 word" where
  "Logger_lineCount w = lw_lineCount w"

lemma log_line_length: "length (log_line date nsec tid l file line values) < kSmallBuffer"
  using stream_puts_bounded [of "fixed_new kSmallBuffer"]
  by (simp add: log_line_def fixed_new_def kSmallBuffer_def del: fold_append)

text \<open>
  A line is complete, new line included, when its parts leave room for one numeric area; the
  bound is not far from sharp, since parts that do not fit are dropped one by one.
\<close>

lemma log_line_complete:
  assumes "length (concat (map value_text (log_prefix date nsec tid l @ values @ log_suffix file line))) + 48 < 4096"
  shows "log_line date nsec tid l file line values =
    concat (map value_text (log_prefix date nsec tid l @ values @ log_suffix file line))"
  using stream_puts_fit [of "fixed_new kSmallBuffer" "log_prefix date nsec tid l @ values @ log_suffix file line"] assms
  by (simp add: log_line_def fixed_new_def kSmallBuffer_def kMaxNumericSize_def del: map_append concat_append fold_append)

text \<open>
  The microseconds are not padded: 5 and 500000 microseconds after the second print as \<open>.5\<close> and
  \<open>.500000\<close>, the same decimal fraction.
\<close>

lemma timestamp_not_padded:
  "concat (map value_text (timestamp_values date 5000)) = date @ ''.5''"
  "concat (map value_text (timestamp_values date 500000000)) = date @ ''.500000''"
  by (simp_all add: timestamp_values_def value_text_def c_div_nonneg string_of_int_def string_of_nat.simps
      digit_char_def char_of_def bit_0)

text \<open>Level names are read back, up to case and padding.\<close>

lemma logLevel_roundtrip: "logLevelFromString (toLower (trim (logLevelName l))) d = l"
  by (cases l) (simp_all add: logLevelName_def logLevelFromString_def toLower_def to_lower_def trim_def
      is_blank_def find_last_not_blank_def substr_def char_of_def bit_0)

end
