(* ===== verification/Log_File.thy ===== *)
theory Log_File
  imports Complex_Main Prelude
begin

text \<open>
  \<open>log/LogFile\<close>: appending to a file that is changed by size and by day. The disk is the list of
  files in the order they were created, each with the bytes \<open>fwrite\<close> took for it; \<open>fopen\<close> in append
  mode goes on with a file that exists. Every call of \<open>time\<close>, \<open>fopen\<close> and \<open>fwrite\<close> has a result of
  its own: the clock may jump, \<open>fopen\<close> may fail, \<open>fwrite\<close> may take less than it is given. The
  operations get the file name of a second as an argument; \<open>makeFileName\<close> is the function they are
  used with, over the local time as \<open>strftime\<close> prints it, so two seconds may have one name. The flush
  interval is not negative. Flushing moves bytes from the stdio buffer to the kernel and is counted
  only. For an observer the state also has the names opened so far and a record of every \<open>append\<close>.
\<close>

definition kRollPerSeconds :: int where "kRollPerSeconds = 24 * 60 * 60"

text \<open>One \<open>append\<close>, seen from outside: the file it went to if any, its bytes, how many were taken.\<close>

type_synonym log_entry = "string option \<times> string \<times> nat"

record log_file =
  lf_rollSize :: nat
  lf_flushIntervalSeconds :: rat
  lf_checkEveryN :: nat
  lf_count :: nat
  lf_writtenBytes :: nat
  lf_lastFlush :: int
  lf_lastRoll :: int
  lf_file :: "string option"
  lf_disk :: "(string \<times> string) list"
  lf_flushes :: nat
  lf_opened :: "string list"
  lf_trace :: "log_entry list"

definition file_touch :: "string \<Rightarrow> (string \<times> string) list \<Rightarrow> (string \<times> string) list" where
  "file_touch nm disk = (if nm \<in> fst ` set disk then disk else disk @ [(nm, [])])"

definition file_write :: "string \<Rightarrow> string \<Rightarrow> (string \<times> string) list \<Rightarrow> (string \<times> string) list" where
  "file_write nm d disk = map (\<lambda>(n, c). if n = nm then (n, c @ d) else (n, c)) disk"

definition close_log :: "log_file \<Rightarrow> log_file" where
  "close_log f = (if lf_file f = None then f else f\<lparr>lf_file := None, lf_flushes := lf_flushes f + 1\<rparr>)"

text \<open>The time \<open>time\<close> returns and whether \<open>fopen\<close> succeeds.\<close>

type_synonym open_result = "int \<times> bool"

definition rollFileLocked :: "(int \<Rightarrow> string) \<Rightarrow> open_result \<Rightarrow> log_file \<Rightarrow> bool \<times> log_file" where
  "rollFileLocked mk r f =
     (let (now, ok) = r; f1 = close_log f in
      if \<not> ok then (False, f1)
      else (True, f1\<lparr>lf_file := Some (mk now), lf_disk := file_touch (mk now) (lf_disk f1),
        lf_opened := lf_opened f1 @ [mk now],
        lf_writtenBytes := 0, lf_count := 0, lf_lastRoll := now, lf_lastFlush := now\<rparr>))"

definition rollFile :: "(int \<Rightarrow> string) \<Rightarrow> open_result \<Rightarrow> log_file \<Rightarrow> bool \<times> log_file" where
  "rollFile mk r f = rollFileLocked mk r f"

text \<open>\<open>server.20260926-201503.12345.log\<close>: base name, time and process number.\<close>

definition makeFileName :: "(int \<Rightarrow> string) \<Rightarrow> nat \<Rightarrow> string \<Rightarrow> int \<Rightarrow> string" where
  "makeFileName timeText pid baseName now =
     baseName @ ''.'' @ timeText now @ ''.'' @ string_of_nat pid @ ''.log''"

definition LogFile_destroy :: "log_file \<Rightarrow> log_file" where
  "LogFile_destroy f = close_log f"

definition LogFile_new :: "(int \<Rightarrow> string) \<Rightarrow> nat \<Rightarrow> rat \<Rightarrow> nat \<Rightarrow> open_result \<Rightarrow> log_file" where
  "LogFile_new mk rollSize interval n r =
     snd (rollFile mk r
       \<lparr>lf_rollSize = rollSize, lf_flushIntervalSeconds = interval, lf_checkEveryN = n, lf_count = 0,
        lf_writtenBytes = 0, lf_lastFlush = 0, lf_lastRoll = 0, lf_file = None, lf_disk = [], lf_flushes = 0,
        lf_opened = [], lf_trace = []\<rparr>)"

text \<open>
  What the calls of one \<open>append\<close> return, as far as it makes them: opening a missing file, the count
  of \<open>fwrite\<close>, the change of file at the end, and the time of the periodic check.
\<close>

record append_env =
  ae_open :: open_result
  ae_fwrite :: nat
  ae_check :: int
  ae_roll :: open_result

text \<open>
  The write, which counts what \<open>fwrite\<close> returned and never tries the rest again; the change by size;
  and every \<open>checkEveryN\<close> writes the flush and the change by day.
\<close>

definition log_write :: "(int \<Rightarrow> string) \<Rightarrow> append_env \<Rightarrow> string \<Rightarrow> string \<Rightarrow> log_file \<Rightarrow> log_file" where
  "log_write mk e d nm f =
     (let written = min (ae_fwrite e) (length d);
          f1 = f\<lparr>lf_disk := file_write nm (take written d) (lf_disk f),
                 lf_writtenBytes := lf_writtenBytes f + written,
                 lf_count := lf_count f + 1,
                 lf_trace := lf_trace f @ [(Some nm, d, written)]\<rparr> in
      if lf_rollSize f1 < lf_writtenBytes f1 then snd (rollFileLocked mk (ae_roll e) f1)
      else if lf_checkEveryN f1 \<le> lf_count f1 then
        let f2 = f1\<lparr>lf_count := 0\<rparr>; now = ae_check e;
            f3 = (if \<lfloor>lf_flushIntervalSeconds f2\<rfloor> \<le> now - lf_lastFlush f2
                  then f2\<lparr>lf_flushes := lf_flushes f2 + 1, lf_lastFlush := now\<rparr> else f2) in
        if kRollPerSeconds \<le> now - lf_lastRoll f3 then snd (rollFileLocked mk (ae_roll e) f3) else f3
      else f1)"

text \<open>\<open>append\<close>: without a file it first tries to open one, and drops the data when that fails.\<close>

definition log_append :: "(int \<Rightarrow> string) \<Rightarrow> append_env \<Rightarrow> string \<Rightarrow> log_file \<Rightarrow> log_file" where
  "log_append mk e d f =
     (case lf_file f of
        Some nm \<Rightarrow> log_write mk e d nm f
      | None \<Rightarrow>
          (case rollFileLocked mk (ae_open e) f of
             (False, f1) \<Rightarrow> f1\<lparr>lf_trace := lf_trace f1 @ [(None, d, 0)]\<rparr>
           | (True, f1) \<Rightarrow> log_write mk e d (mk (fst (ae_open e))) f1))"

definition log_flush :: "log_file \<Rightarrow> log_file" where
  "log_flush f = (if lf_file f = None then f else f\<lparr>lf_flushes := lf_flushes f + 1\<rparr>)"

section \<open>What is on the disk\<close>

definition disk_text :: "log_file \<Rightarrow> string" where
  "disk_text f = concat (map snd (lf_disk f))"

definition file_content :: "string \<Rightarrow> (string \<times> string) list \<Rightarrow> string" where
  "file_content nm disk = (case map_of disk nm of Some c \<Rightarrow> c | None \<Rightarrow> [])"

text \<open>The bytes an entry of the record was given and those that were taken; whether nothing was lost.\<close>

definition given :: "log_entry \<Rightarrow> string" where "given x = fst (snd x)"

definition kept_bytes :: "log_entry \<Rightarrow> string" where "kept_bytes x = take (snd (snd x)) (fst (snd x))"

definition no_loss :: "log_entry list \<Rightarrow> bool" where
  "no_loss tr \<longleftrightarrow> list_all (\<lambda>x. kept_bytes x = given x) tr"

definition to_file :: "string \<Rightarrow> log_entry \<Rightarrow> bool" where
  "to_file nm x \<longleftrightarrow> fst x = Some nm"

text \<open>No name comes back after another one has been opened.\<close>

definition names_advance :: "log_file \<Rightarrow> bool" where
  "names_advance f \<longleftrightarrow> distinct (remdups_adj (lf_opened f))"

text \<open>
  Every file holds what was taken for its name, in order; the open file is the one opened last; and
  while no name comes back, the files in the order of their creation are all that was taken.
\<close>

definition log_ok :: "log_file \<Rightarrow> bool" where
  "log_ok f \<longleftrightarrow>
     distinct (map fst (lf_disk f)) \<and>
     (\<forall>nm. file_content nm (lf_disk f) = concat (map kept_bytes (filter (to_file nm) (lf_trace f)))) \<and>
     (\<forall>nm. lf_file f = Some nm \<longrightarrow> nm \<in> fst ` set (lf_disk f) \<and> lf_opened f \<noteq> [] \<and> last (lf_opened f) = nm) \<and>
     (names_advance f \<longrightarrow> map fst (lf_disk f) = remdups_adj (lf_opened f) \<and>
        disk_text f = concat (map kept_bytes (lf_trace f)))"

lemma file_write_names [simp]: "map fst (file_write nm d disk) = map fst disk"
  by (auto simp: file_write_def comp_def case_prod_beta)

lemma file_write_name_set [simp]: "fst ` set (file_write nm d disk) = fst ` set disk"
  by (simp flip: set_map)

lemma map_of_write:
  "map_of (file_write nm d disk) n = map_option (\<lambda>c. if n = nm then c @ d else c) (map_of disk n)"
  by (induction disk) (auto simp: file_write_def)

lemma file_content_write:
  "file_content n (file_write nm d disk) =
     (if n = nm \<and> nm \<in> fst ` set disk then file_content n disk @ d else file_content n disk)"
proof (cases "map_of disk n")
  case None
  then have "n \<notin> fst ` set disk" by (simp add: map_of_eq_None_iff)
  with None show ?thesis by (auto simp: file_content_def map_of_write)
next
  case (Some c)
  then have "n \<in> fst ` set disk" by (metis map_of_eq_None_iff option.distinct(1))
  with Some show ?thesis by (auto simp: file_content_def map_of_write)
qed

lemma file_content_touch: "file_content n (file_touch nm disk) = file_content n disk"
  by (auto simp: file_content_def file_touch_def map_of_append map_add_def split: option.splits)

lemma file_touch_names [simp]: "nm \<in> fst ` set (file_touch nm disk)"
  by (simp add: file_touch_def)

lemma file_write_last:
  assumes "distinct (map fst disk)" "map fst disk = xs @ [nm]"
  shows "concat (map snd (file_write nm d disk)) = concat (map snd disk) @ d"
proof -
  obtain ys c where y: "disk = ys @ [(nm, c)]" "map fst ys = xs"
    using assms(2) by (auto simp: map_eq_append_conv)
  then have "\<forall>y \<in> set ys. fst y \<noteq> nm" using assms(1) by force
  then have "file_write nm d ys = ys" by (auto simp: file_write_def intro!: map_idI)
  then show ?thesis by (simp add: y file_write_def)
qed

text \<open>Opening one more name.\<close>

lemma remdups_adj_snoc:
  "remdups_adj (xs @ [y]) = (if xs \<noteq> [] \<and> last xs = y then remdups_adj xs else remdups_adj xs @ [y])"
proof (cases xs rule: rev_cases)
  case (snoc ys x)
  then show ?thesis using remdups_adj_append_two [of ys x y] by simp
qed simp

lemma log_ok_same:
  "log_ok f \<Longrightarrow> lf_disk g = lf_disk f \<Longrightarrow> lf_trace g = lf_trace f \<Longrightarrow> lf_opened g = lf_opened f \<Longrightarrow>
     lf_file g = None \<or> lf_file g = lf_file f \<Longrightarrow> log_ok g"
  by (auto simp: log_ok_def disk_text_def names_advance_def)

lemma close_log_simps [simp]:
  "lf_disk (close_log f) = lf_disk f" "lf_trace (close_log f) = lf_trace f" "lf_file (close_log f) = None"
  "lf_opened (close_log f) = lf_opened f"
  by (simp_all add: close_log_def)

lemma roll_trace [simp]: "lf_trace (snd (rollFileLocked mk r f)) = lf_trace f"
  by (simp add: rollFileLocked_def Let_def case_prod_beta)

lemma roll_ok:
  assumes "log_ok f"
  shows "log_ok (snd (rollFileLocked mk r f))"
proof (cases "snd r")
  case False
  then show ?thesis using log_ok_same [OF assms, of "close_log f"]
    by (simp add: rollFileLocked_def Let_def case_prod_beta)
next
  case True
  let ?n = "mk (fst r)" and ?g = "snd (rollFileLocked mk r f)"
  have g: "lf_disk ?g = file_touch ?n (lf_disk f)" "lf_opened ?g = lf_opened f @ [?n]" "lf_file ?g = Some ?n"
    using True by (simp_all add: rollFileLocked_def Let_def case_prod_beta)
  have d: "distinct (map fst (lf_disk ?g))"
    using assms by (auto simp: g log_ok_def file_touch_def)
  have c: "file_content nm (lf_disk ?g) = concat (map kept_bytes (filter (to_file nm) (lf_trace ?g)))" for nm
    using assms by (simp add: g file_content_touch log_ok_def)
  have same: "disk_text ?g = disk_text f" by (simp add: disk_text_def g file_touch_def)
  have "map fst (lf_disk ?g) = remdups_adj (lf_opened ?g) \<and> disk_text ?g = concat (map kept_bytes (lf_trace ?g))"
    if n: "names_advance ?g"
  proof -
    have old: "names_advance f" using n by (auto simp: names_advance_def g remdups_adj_snoc split: if_splits)
    then have m: "map fst (lf_disk f) = remdups_adj (lf_opened f)" using assms by (simp add: log_ok_def)
    then have s: "fst ` set (lf_disk f) = set (lf_opened f)" by (metis remdups_adj_set set_map)
    have "map fst (lf_disk ?g) = remdups_adj (lf_opened ?g)"
    proof (cases "lf_opened f \<noteq> [] \<and> last (lf_opened f) = ?n")
      case True
      then have "?n \<in> fst ` set (lf_disk f)" by (metis s last_in_set)
      then show ?thesis using True m by (simp add: g file_touch_def remdups_adj_snoc)
    next
      case False
      then have "?n \<notin> set (lf_opened f)" using n by (auto simp: names_advance_def g remdups_adj_snoc)
      then show ?thesis using False m s by (auto simp: g file_touch_def remdups_adj_snoc)
    qed
    then show ?thesis using old assms same by (simp add: log_ok_def)
  qed
  moreover have "nm \<in> fst ` set (lf_disk ?g) \<and> lf_opened ?g \<noteq> [] \<and> last (lf_opened ?g) = nm"
    if "lf_file ?g = Some nm" for nm
    using that by (simp add: g)
  ultimately show ?thesis using d c unfolding log_ok_def by blast
qed

lemma log_write_ok:
  assumes "log_ok f" "lf_file f = Some nm"
  shows "log_ok (log_write mk e d nm f) \<and>
    lf_trace (log_write mk e d nm f) = lf_trace f @ [(Some nm, d, min (ae_fwrite e) (length d))]"
proof -
  define w where "w = min (ae_fwrite e) (length d)"
  define f1 where "f1 = f\<lparr>lf_disk := file_write nm (take w d) (lf_disk f),
                 lf_writtenBytes := lf_writtenBytes f + w, lf_count := lf_count f + 1,
                 lf_trace := lf_trace f @ [(Some nm, d, w)]\<rparr>"
  have nm: "nm \<in> fst ` set (lf_disk f)" "lf_opened f \<noteq> []" "last (lf_opened f) = nm"
    using assms by (auto simp: log_ok_def)
  have 1: "log_ok f1"
  proof -
    have c: "file_content n (lf_disk f1) = concat (map kept_bytes (filter (to_file n) (lf_trace f1)))" for n
      using assms(1) nm(1) by (simp add: f1_def file_content_write log_ok_def to_file_def kept_bytes_def)
    have "disk_text f1 = concat (map kept_bytes (lf_trace f1)) \<and> map fst (lf_disk f1) = remdups_adj (lf_opened f1)"
      if "names_advance f1"
    proof -
      have n: "map fst (lf_disk f) = remdups_adj (lf_opened f)" "disk_text f = concat (map kept_bytes (lf_trace f))"
        using that assms(1) by (auto simp: log_ok_def names_advance_def f1_def)
      obtain ys where "lf_opened f = ys @ [nm]" using nm(2,3) by (metis append_butlast_last_id)
      then obtain xs where "map fst (lf_disk f) = xs @ [nm]"
        using n(1) by (metis remdups_adj_snoc append_butlast_last_id last_remdups_adj remdups_adj_Nil_iff nm(2,3))
      moreover have "distinct (map fst (lf_disk f))" using assms(1) by (simp add: log_ok_def)
      ultimately have "concat (map snd (file_write nm (take w d) (lf_disk f))) = disk_text f @ take w d"
        unfolding disk_text_def by (intro file_write_last)
      then show ?thesis using n by (simp add: disk_text_def f1_def kept_bytes_def)
    qed
    then show ?thesis using c assms nm by (simp add: log_ok_def f1_def)
  qed
  define f2 where "f2 = f1\<lparr>lf_count := 0\<rparr>"
  define f3 where "f3 = (if \<lfloor>lf_flushIntervalSeconds f2\<rfloor> \<le> ae_check e - lf_lastFlush f2
                  then f2\<lparr>lf_flushes := lf_flushes f2 + 1, lf_lastFlush := ae_check e\<rparr> else f2)"
  have 3: "log_ok f3" "lf_trace f3 = lf_trace f1"
    using log_ok_same [OF 1, of f3] by (simp_all add: f2_def f3_def)
  have "log_write mk e d nm f =
      (if lf_rollSize f1 < lf_writtenBytes f1 then snd (rollFileLocked mk (ae_roll e) f1)
       else if lf_checkEveryN f1 \<le> lf_count f1 then
         (if kRollPerSeconds \<le> ae_check e - lf_lastRoll f3 then snd (rollFileLocked mk (ae_roll e) f3) else f3)
       else f1)"
    by (simp only: log_write_def Let_def flip: w_def f1_def f2_def f3_def)
  then show ?thesis using 1 3 roll_ok [OF 1] roll_ok [OF 3(1)] by (simp add: f1_def w_def)
qed

text \<open>One \<open>append\<close>, whatever its calls return.\<close>

lemma log_append_ok:
  assumes "log_ok f"
  shows "log_ok (log_append mk e d f) \<and>
    (\<exists>x. lf_trace (log_append mk e d f) = lf_trace f @ [x] \<and> given x = d \<and>
       ((lf_file f \<noteq> None \<or> snd (ae_open e)) \<and> length d \<le> ae_fwrite e \<longrightarrow> kept_bytes x = given x))"
proof (cases "lf_file f")
  case (Some nm)
  then show ?thesis using log_write_ok [OF assms Some, of mk e d]
    by (auto simp: log_append_def given_def kept_bytes_def min_def)
next
  case None
  note r = roll_ok [OF assms, of mk "ae_open e"]
  show ?thesis
  proof (cases "snd (ae_open e)")
    case True
    obtain g where g: "rollFileLocked mk (ae_open e) f = (True, g)" "lf_file g = Some (mk (fst (ae_open e)))"
      using True by (simp add: rollFileLocked_def Let_def case_prod_beta)
    have ok: "log_ok g" "lf_trace g = lf_trace f" using r roll_trace [of mk "ae_open e" f] g(1) by simp_all
    have a: "log_append mk e d f = log_write mk e d (mk (fst (ae_open e))) g"
      using None g(1) by (simp add: log_append_def)
    show ?thesis unfolding a using log_write_ok [OF ok(1) g(2), of mk e d] ok(2)
      by (auto simp: given_def kept_bytes_def min_def)
  next
    case False
    have n: "log_append mk e d f = (close_log f)\<lparr>lf_trace := lf_trace f @ [(None, d, 0)]\<rparr>"
      using False None by (simp add: log_append_def rollFileLocked_def Let_def case_prod_beta)
    have "log_ok (close_log f)" using log_ok_same [OF assms, of "close_log f"] by simp
    then show ?thesis using False None
      by (auto simp: n log_ok_def names_advance_def disk_text_def to_file_def given_def kept_bytes_def)
  qed
qed

lemma LogFile_new_ok: "log_ok (LogFile_new mk rollSize interval n r)"
  "lf_trace (LogFile_new mk rollSize interval n r) = []"
  unfolding LogFile_new_def rollFile_def
  by (rule roll_ok) (simp_all add: log_ok_def file_content_def disk_text_def)

end
