(* ===== verification/Async_Logging.thy ===== *)
theory Async_Logging
  imports Log_Stream Log_File
begin

text \<open>
  \<open>log/AsyncLogging\<close>: the double-buffered backend as a transition system. One step is one critical
  section of a front-end thread or of the background thread, or one write of the background
  thread. A buffer pointer is \<^term>\<open>None\<close> when it has been moved from; using such a pointer sets
  \<open>al_crashed\<close>. The thread is started at most once. The abstract view is a queue of bytes: what was accepted and how much of it has
  reached the log file.
\<close>

section \<open>States\<close>

datatype log_pc = NotStarted | Testing | Waiting | Writing nat | Draining | Finished

record async_log =
  al_pc :: log_pc
  al_running :: bool
  al_current :: "fixed_buffer option"
  al_next :: "fixed_buffer option"
  al_buffers :: "fixed_buffer list"
  al_new1 :: "fixed_buffer option"
  al_new2 :: "fixed_buffer option"
  al_toWrite :: "fixed_buffer list"
  al_file :: string
  al_accepted :: string
  al_crashed :: bool

definition large_new :: fixed_buffer where "large_new = fixed_new kLargeBuffer"

definition AsyncLogging_new :: async_log where
  "AsyncLogging_new = \<lparr>al_pc = NotStarted, al_running = False, al_current = Some large_new,
     al_next = Some large_new, al_buffers = [], al_new1 = None, al_new2 = None, al_toWrite = [],
     al_file = [], al_accepted = [], al_crashed = False\<rparr>"

definition or_new :: "fixed_buffer option \<Rightarrow> fixed_buffer" where
  "or_new p = (case p of Some b \<Rightarrow> b | None \<Rightarrow> large_new)"

section \<open>Operations\<close>

text \<open>
  \<open>append\<close>; a line that fits in no buffer at all is dropped by \<open>FixedBuffer::append\<close> and not
  accepted.
\<close>

definition al_append :: "string \<Rightarrow> async_log \<Rightarrow> async_log" where
  "al_append d s = (case al_current s of
     None \<Rightarrow> s\<lparr>al_crashed := True\<rparr>
   | Some b \<Rightarrow>
       if length d < fixed_avail b
       then s\<lparr>al_current := Some (fixed_append d b), al_accepted := al_accepted s @ d\<rparr>
       else
         let fresh = or_new (al_next s) in
         s\<lparr>al_buffers := al_buffers s @ [b], al_next := None, al_current := Some (fixed_append d fresh),
           al_accepted := (if length d < fixed_avail fresh then al_accepted s @ d else al_accepted s)\<rparr>)"

definition al_flush :: "async_log \<Rightarrow> async_log" where
  "al_flush s = (case al_current s of
     Some b \<Rightarrow>
       if 0 < length (fb_data b)
       then s\<lparr>al_buffers := al_buffers s @ [b], al_current := Some (fixed_reset (or_new (al_next s))), al_next := None\<rparr>
       else s
   | None \<Rightarrow> s\<lparr>al_current := Some (fixed_reset (or_new (al_next s))), al_next := None\<rparr>)"

definition al_start :: "async_log \<Rightarrow> async_log" where
  "al_start s = (if al_running s then s
     else s\<lparr>al_running := True, al_pc := Testing, al_new1 := Some large_new, al_new2 := Some large_new\<rparr>)"

definition al_stop :: "async_log \<Rightarrow> async_log" where
  "al_stop s = s\<lparr>al_running := False\<rparr>"

text \<open>The critical section of the background thread.\<close>

definition al_take :: "fixed_buffer \<Rightarrow> async_log \<Rightarrow> async_log" where
  "al_take b s =
     (let (nx, n2) = (case al_next s of None \<Rightarrow> (al_new2 s, None) | Some x \<Rightarrow> (Some x, al_new2 s)) in
      s\<lparr>al_toWrite := al_buffers s @ [b], al_buffers := [], al_current := Some (or_new (al_new1 s)),
        al_new1 := None, al_next := nx, al_new2 := n2, al_pc := Writing 0\<rparr>)"

text \<open>
  After the writes: keep two buffers, take the last ones back into the empty places, allocate what
  is still missing.
\<close>

definition recycle :: "fixed_buffer option \<Rightarrow> fixed_buffer list \<Rightarrow> fixed_buffer option \<times> fixed_buffer list" where
  "recycle p bs = (if p = None \<and> bs \<noteq> [] then (Some (fixed_reset (last bs)), butlast bs) else (p, bs))"

definition al_recycle :: "async_log \<Rightarrow> async_log" where
  "al_recycle s =
     (let bs = take 2 (al_toWrite s); (n1, bs1) = recycle (al_new1 s) bs; (n2, bs2) = recycle (al_new2 s) bs1 in
      s\<lparr>al_new1 := Some (or_new n1), al_new2 := Some (or_new n2), al_toWrite := [], al_pc := Testing\<rparr>)"

definition al_drain :: "async_log \<Rightarrow> async_log" where
  "al_drain s = s\<lparr>al_file := al_file s @ concat (map fb_data (al_buffers s)) @
       (case al_current s of Some b \<Rightarrow> fb_data b | None \<Rightarrow> []),
     al_buffers := [], al_current := None, al_pc := Finished\<rparr>"

inductive al_step :: "async_log \<Rightarrow> async_log \<Rightarrow> bool" where
  append: "al_step s (al_append d s)"
| flush: "al_step s (al_flush s)"
| launch: "al_pc s = NotStarted \<Longrightarrow> al_step s (al_start s)"
| halt: "al_step s (al_stop s)"
| go: "al_pc s = Testing \<Longrightarrow> al_running s \<Longrightarrow> al_step s (s\<lparr>al_pc := Waiting\<rparr>)"
| leave: "al_pc s = Testing \<Longrightarrow> \<not> al_running s \<Longrightarrow> al_step s (s\<lparr>al_pc := Draining\<rparr>)"
| exchange: "al_pc s = Waiting \<Longrightarrow> al_current s = Some b \<Longrightarrow> al_step s (al_take b s)"
| put: "al_pc s = Writing k \<Longrightarrow> k < length (al_toWrite s) \<Longrightarrow>
    al_step s (s\<lparr>al_file := al_file s @ fb_data (al_toWrite s ! k), al_pc := Writing (Suc k)\<rparr>)"
| reuse: "al_pc s = Writing k \<Longrightarrow> k = length (al_toWrite s) \<Longrightarrow> al_step s (al_recycle s)"
| drain: "al_pc s = Draining \<Longrightarrow> al_step s (al_drain s)"

inductive al_reach :: "async_log \<Rightarrow> bool" where
  init: "al_reach AsyncLogging_new"
| step: "al_reach s \<Longrightarrow> al_step s t \<Longrightarrow> al_reach t"

lemmas al_ops = al_append_def al_flush_def al_start_def al_stop_def al_take_def al_recycle_def al_drain_def

section \<open>Refinement of a byte queue\<close>

text \<open>What has been accepted and not yet handed to the log file, in order.\<close>

definition al_pending :: "async_log \<Rightarrow> string" where
  "al_pending s =
     (case al_pc s of Writing k \<Rightarrow> concat (map fb_data (drop k (al_toWrite s))) | _ \<Rightarrow> []) @
     concat (map fb_data (al_buffers s)) @ (case al_current s of Some b \<Rightarrow> fb_data b | None \<Rightarrow> [])"

definition empty_ptr :: "fixed_buffer option \<Rightarrow> bool" where
  "empty_ptr p \<longleftrightarrow> (case p of Some b \<Rightarrow> fb_data b = [] | None \<Rightarrow> True)"

text \<open>Spare buffers are empty, and only the end of the background thread leaves no current buffer.\<close>

definition al_inv :: "async_log \<Rightarrow> bool" where
  "al_inv s \<longleftrightarrow> al_accepted s = al_file s @ al_pending s \<and>
     empty_ptr (al_next s) \<and> empty_ptr (al_new1 s) \<and> empty_ptr (al_new2 s) \<and>
     (al_pc s \<noteq> Finished \<longrightarrow> al_current s \<noteq> None \<and> \<not> al_crashed s)"

text \<open>The abstract log: bytes accepted, and the prefix of them in the file.\<close>

inductive queue_step :: "string \<times> string \<Rightarrow> string \<times> string \<Rightarrow> bool" where
  accept: "queue_step (acc, out) (acc @ d, out)"
| deliver: "acc = out @ d @ rest \<Longrightarrow> queue_step (acc, out) (acc, out @ d)"

definition al_abs :: "async_log \<Rightarrow> string \<times> string" where
  "al_abs s = (al_accepted s, al_file s)"

lemma fb_data_fixed [simp]:
  "fb_data (fixed_reset b) = []" "fb_data large_new = []"
  "length d < fixed_avail b \<Longrightarrow> fb_data (fixed_append d b) = fb_data b @ d"
  "\<not> length d < fixed_avail b \<Longrightarrow> fb_data (fixed_append d b) = fb_data b"
  by (simp_all add: fixed_reset_def large_new_def fixed_new_def fixed_append_def)

lemma empty_ptr_simps [simp]:
  "empty_ptr None" "empty_ptr (Some b) \<longleftrightarrow> fb_data b = []" "empty_ptr p \<Longrightarrow> fb_data (or_new p) = []"
  by (auto simp: empty_ptr_def or_new_def split: option.splits)

lemma pending_pc: "\<forall>k. al_pc s \<noteq> Writing k \<Longrightarrow> al_pending s = concat (map fb_data (al_buffers s)) @
     (case al_current s of Some b \<Rightarrow> fb_data b | None \<Rightarrow> [])"
  by (cases "al_pc s") (simp_all add: al_pending_def)

lemma recycle_empty: "empty_ptr p \<Longrightarrow> empty_ptr (fst (recycle p bs))"
  by (simp add: recycle_def)

lemma append_inv: "al_inv s \<Longrightarrow> al_inv (al_append d s)"
  by (auto simp: al_inv_def al_append_def al_pending_def Let_def split: option.splits log_pc.splits)

lemma flush_inv: "al_inv s \<Longrightarrow> al_inv (al_flush s)"
  by (auto simp: al_inv_def al_flush_def al_pending_def Let_def split: option.splits log_pc.splits)

lemma al_step_inv: "al_step s t \<Longrightarrow> al_inv s \<Longrightarrow> al_inv t"
proof (induction rule: al_step.induct)
  case (append s d)
  then show ?case by (rule append_inv)
next
  case (flush s)
  then show ?case by (rule flush_inv)
next
  case (exchange s b)
  then show ?case
    by (auto simp: al_inv_def al_take_def al_pending_def split: option.split)
next
  case (put s k)
  then have "drop k (al_toWrite s) = al_toWrite s ! k # drop (Suc k) (al_toWrite s)"
    by (simp add: Cons_nth_drop_Suc)
  with put show ?case by (auto simp: al_inv_def al_pending_def)
next
  case (reuse s k)
  then have "al_inv s" by simp
  then have "empty_ptr (fst (recycle (al_new1 s) bs))" "empty_ptr (fst (recycle (al_new2 s) bs))" for bs
    by (simp_all add: al_inv_def recycle_empty)
  with reuse show ?case
    by (auto simp: al_inv_def al_recycle_def al_pending_def Let_def case_prod_beta)
next
  case (drain s)
  then show ?case by (auto simp: al_inv_def al_drain_def al_pending_def)
next
  case (halt s)
  then show ?case by (cases "al_pc s") (auto simp: al_inv_def al_pending_def al_stop_def)
qed (auto simp: al_inv_def al_pending_def al_start_def al_stop_def)

lemma al_reach_inv: "al_reach s \<Longrightarrow> al_inv s"
proof (induction rule: al_reach.induct)
  case init
  show ?case by (simp add: al_inv_def AsyncLogging_new_def al_pending_def)
next
  case (step s t)
  then show ?case using al_step_inv by blast
qed

lemma al_step_write_or_accept:
  "al_step s t \<Longrightarrow> (\<exists>d. al_accepted t = al_accepted s @ d \<and> al_file t = al_file s) \<or>
     (\<exists>d. al_accepted t = al_accepted s \<and> al_file t = al_file s @ d)"
  by (induction rule: al_step.induct)
    (auto simp: al_ops Let_def case_prod_beta split: option.split)

text \<open>
  C38: the asynchronous log is a queue. Every step of any interleaving of writers, flushes, start,
  stop and the background thread either appends a whole accepted line to the abstract queue or
  moves a piece from its front to the log file: nothing is lost, doubled or reordered by the
  exchange of buffers. Once the background thread has ended, all that was accepted before is in
  the file; and no writer meets a missing buffer before that.
\<close>

theorem async_log_refines_queue:
  assumes "al_reach s" and "al_step s t"
  shows "queue_step (al_abs s) (al_abs t) \<and>
    (al_pc t = Finished \<and> al_pc s \<noteq> Finished \<longrightarrow> al_file t = al_accepted t) \<and>
    (al_pc s \<noteq> Finished \<longrightarrow> \<not> al_crashed t)"
proof -
  have i: "al_inv s" "al_inv t" using al_reach_inv assms al_reach.step by blast+
  have q: "queue_step (al_abs s) (al_abs t)"
    using al_step_write_or_accept [OF assms(2)]
  proof (elim disjE exE conjE)
    fix d
    assume d: "al_accepted t = al_accepted s" "al_file t = al_file s @ d"
    then have "al_accepted s = al_file s @ d @ al_pending t" using i(2) by (simp add: al_inv_def)
    then show ?thesis unfolding al_abs_def d by (rule queue_step.deliver)
  qed (simp add: al_abs_def queue_step.accept)
  have "al_pc t = Finished \<and> al_pc s \<noteq> Finished \<longrightarrow> t = al_drain s"
    using assms(2) by cases (auto simp: al_ops Let_def case_prod_beta split: option.splits)
  then have f: "al_pc t = Finished \<and> al_pc s \<noteq> Finished \<longrightarrow> al_file t = al_accepted t"
    using i(2) by (auto simp: al_inv_def al_drain_def al_pending_def)
  have "al_pc s \<noteq> Finished \<longrightarrow> \<not> al_crashed t"
    using assms(2) i(1)
    by cases (auto simp: al_inv_def al_ops Let_def case_prod_beta split: option.splits)
  with q f show ?thesis by blast
qed

text \<open>After the thread has ended, one more line reaches a pointer that was moved from.\<close>

lemma append_after_end_crashes:
  "al_pc s = Draining \<Longrightarrow> al_crashed (al_append d (al_drain s))"
  by (simp add: al_append_def al_drain_def)

theorem async_log_refines_queue_witness:
  "al_file (al_drain (al_append ''hello'' (AsyncLogging_new\<lparr>al_pc := Draining, al_new1 := Some large_new,
     al_new2 := Some large_new\<rparr>))) = ''hello''"
proof -
  let ?r = "AsyncLogging_new\<lparr>al_running := True, al_pc := Testing, al_new1 := Some large_new, al_new2 := Some large_new\<rparr>"
  let ?h = "AsyncLogging_new\<lparr>al_pc := Testing, al_new1 := Some large_new, al_new2 := Some large_new\<rparr>"
  let ?d = "AsyncLogging_new\<lparr>al_pc := Draining, al_new1 := Some large_new, al_new2 := Some large_new\<rparr>"
  from al_reach.step [OF al_reach.init launch] have "al_reach ?r"
    by (simp add: al_start_def AsyncLogging_new_def)
  from al_reach.step [OF this halt] have "al_reach ?h" by (simp add: al_stop_def AsyncLogging_new_def)
  from al_reach.step [OF this leave] have "al_reach ?d" by (simp add: AsyncLogging_new_def)
  from al_reach.step [OF this append] have a: "al_reach (al_append ''hello'' ?d)" .
  have pc: "al_pc (al_append ''hello'' ?d) = Draining" and acc: "al_accepted (al_append ''hello'' ?d) = ''hello''"
    by (simp_all add: al_append_def AsyncLogging_new_def large_new_def fixed_new_def fixed_avail_def kLargeBuffer_def)
  from async_log_refines_queue [OF a drain [OF pc]] pc acc show ?thesis
    by (simp add: al_drain_def)
qed

end
