(* ===== verification/Server_Main.thy ===== *)
theory Server_Main
  imports Connection_Table_Props Async_Logging
begin

text \<open>
  The frame of \<open>main.cpp\<close>: exit codes, the output function of the log, the signal flag with the
  periodic task that looks at it, and the shutdown, over the connection table and its steps. The
  connections are closed through the connection steps of \<open>Server\<close>; the log backend is that of
  \<open>Async_Logging\<close>.
\<close>

section \<open>The log output\<close>

text \<open>
  \<open>g_asyncLog\<close>, \<open>g_consoleOutput\<close>, what went to \<open>stdout\<close>, and whether \<open>Logger::setOutput\<close> has put the
  functions of \<open>main\<close> in the place of the default ones.
\<close>

record log_target =
  lg_async :: "async_log option"
  lg_console :: bool
  lg_stdout :: string
  lg_fflushes :: nat
  lg_custom :: bool

definition logOutput :: "string \<Rightarrow> log_target \<Rightarrow> log_target" where
  "logOutput d g =
     (let g1 = g\<lparr>lg_async := map_option (al_append d) (lg_async g)\<rparr> in
      if lg_console g1 then g1\<lparr>lg_stdout := lg_stdout g1 @ d\<rparr> else g1)"

definition logFlush :: "log_target \<Rightarrow> log_target" where
  "logFlush g =
     (let g1 = g\<lparr>lg_async := map_option al_flush (lg_async g)\<rparr> in
      if lg_console g1 then g1\<lparr>lg_fflushes := lg_fflushes g1 + 1\<rparr> else g1)"

definition defaultOutput :: "string \<Rightarrow> log_target \<Rightarrow> log_target" where
  "defaultOutput d g = g\<lparr>lg_stdout := lg_stdout g @ d\<rparr>"

definition defaultFlush :: "log_target \<Rightarrow> log_target" where
  "defaultFlush g = g\<lparr>lg_fflushes := lg_fflushes g + 1\<rparr>"

definition Logger_setOutput :: "bool \<Rightarrow> log_target \<Rightarrow> log_target" where
  "Logger_setOutput custom g = g\<lparr>lg_custom := custom\<rparr>"

definition Logger_output :: "string \<Rightarrow> log_target \<Rightarrow> log_target" where
  "Logger_output d g = (if lg_custom g then logOutput d g else defaultOutput d g)"

definition Logger_flush :: "log_target \<Rightarrow> log_target" where
  "Logger_flush g = (if lg_custom g then logFlush g else defaultFlush g)"

text \<open>
  The set-up of \<open>main\<close>: a backend only with a log directory, its thread started, and one line about
  it, which comes before the output is set.
\<close>

definition setup_log :: "server_options \<Rightarrow> string \<Rightarrow> log_level \<times> log_target" where
  "setup_log opts line =
     (let level = logLevelFromString (op_logLevel opts) kInfo;
          g0 = \<lparr>lg_async = None, lg_console = (\<not> op_quiet opts), lg_stdout = [], lg_fflushes = 0, lg_custom = False\<rparr>;
          g1 = (if op_logDir opts \<noteq> [] then
                  let g = g0\<lparr>lg_async := Some (al_start AsyncLogging_new)\<rparr> in
                  if level \<le> kInfo then Logger_output line g else g
                else g0) in
      (level, Logger_setOutput True g1))"

text \<open>That line goes to the console even with \<open>-q\<close>, and never to the file.\<close>

lemma setup_line_ignores_quiet:
  assumes "op_quiet opts" "op_logDir opts \<noteq> []" "op_logLevel opts = ''info''"
  shows "lg_stdout (snd (setup_log opts line)) = line \<and>
    lg_async (snd (setup_log opts line)) = Some (al_start AsyncLogging_new) \<and>
    lg_stdout (fold Logger_output ds (snd (setup_log opts line))) = line"
proof -
  define g where "g = snd (setup_log opts line)"
  have g: "lg_stdout g = line" "lg_async g = Some (al_start AsyncLogging_new)" "lg_custom g" "\<not> lg_console g"
    using assms by (simp_all add: g_def setup_log_def Let_def logLevelFromString_def Logger_setOutput_def
        Logger_output_def defaultOutput_def)
  have "lg_stdout (fold Logger_output ds h) = lg_stdout h" if "lg_custom h" "\<not> lg_console h" for h
    using that by (induction ds arbitrary: h) (simp_all add: Logger_output_def logOutput_def Let_def)
  with g show ?thesis by (simp flip: g_def)
qed

definition log_baseName_of :: "server_options \<Rightarrow> string" where
  "log_baseName_of opts = op_logDir opts @ ''/server''"

definition log_rollSize :: "server_options \<Rightarrow> nat" where
  "log_rollSize opts = op_logRollSizeMb opts * 1024 * 1024 mod 2 ^ 64"

text \<open>A run of lines: the console has all of them, and so has the backend.\<close>

lemma logOutput_console:
  "lg_console g \<Longrightarrow> lg_stdout (fold logOutput ds g) = lg_stdout g @ concat ds \<and> lg_console (fold logOutput ds g)"
  by (induction ds arbitrary: g) (simp_all add: logOutput_def Let_def)

lemma logOutput_quiet: "\<not> lg_console g \<Longrightarrow> lg_stdout (fold logOutput ds g) = lg_stdout g"
  by (induction ds arbitrary: g) (simp_all add: logOutput_def Let_def)

lemma logOutput_async: "lg_async (fold logOutput ds g) = map_option (fold al_append ds) (lg_async g)"
  by (induction ds arbitrary: g) (simp_all add: logOutput_def Let_def option.map_comp comp_def option.map_id)

section \<open>The life of the process\<close>

text \<open>What \<open>main\<close> returns before it does anything, if the command line says so.\<close>

definition early_exit :: "args_result \<Rightarrow> int option" where
  "early_exit r = (case r of ArgsOk \<Rightarrow> None | ArgsExit \<Rightarrow> Some 0 | ArgsError \<Rightarrow> Some 1)"

text \<open>
  \<open>Serving\<close>: the base loop runs; \<open>LoopLeft\<close>: it has returned; \<open>ClosedAll\<close>: \<open>closeAll\<close> has returned.
  \<open>sm_forced\<close> holds the connections whose \<open>forceClose\<close> is queued on an IO loop.
\<close>

datatype main_phase = Serving | LoopLeft | ClosedAll

record server_main =
  sm_phase :: main_phase
  sm_flag :: bool
  sm_quit :: bool
  sm_front :: front
  sm_forced :: "(int \<times> nat) list"

definition main_new :: "int \<Rightarrow> server_main" where
  "main_new now = \<lparr>sm_phase = Serving, sm_flag = False, sm_quit = False, sm_front = front_new now,
     sm_forced = []\<rparr>"

definition onTerminationSignal :: "server_main \<Rightarrow> server_main" where
  "onTerminationSignal m = m\<lparr>sm_flag := True\<rparr>"

text \<open>The task that runs every 0.2 seconds.\<close>

definition shutdown_tick :: "server_main \<Rightarrow> server_main" where
  "shutdown_tick m = (if \<not> sm_flag m then m else m\<lparr>sm_quit := True\<rparr>)"

text \<open>\<open>forceClose\<close> of a connection, which does nothing once it is closed.\<close>

definition force_close :: "server_options \<Rightarrow> int \<times> nat \<Rightarrow> front \<Rightarrow> front" where
  "force_close opts x f =
     (if om_get (fr_open f) (fst x) = Some (snd x) then close_connection opts x f else f)"

text \<open>\<open>closeAll\<close>: with no IO threads the loop of a connection is the caller's, so the task runs at once.\<close>

definition closeAll :: "server_options \<Rightarrow> server_main \<Rightarrow> server_main" where
  "closeAll opts m =
     (case registry_closeAll (fr_registry (sm_front m)) of (pending, reg) \<Rightarrow>
        let f = (sm_front m)\<lparr>fr_registry := reg\<rparr> in
        if op_ioThreads opts = 0
        then m\<lparr>sm_phase := ClosedAll, sm_front := fold (force_close opts) pending f\<rparr>
        else m\<lparr>sm_phase := ClosedAll, sm_front := f, sm_forced := pending\<rparr>)"

definition run_forced :: "server_options \<Rightarrow> nat \<Rightarrow> server_main \<Rightarrow> server_main" where
  "run_forced opts i m =
     m\<lparr>sm_front := force_close opts (sm_forced m ! i) (sm_front m),
       sm_forced := remove_nth i (sm_forced m)\<rparr>"

text \<open>
  While the base loop runs everything of \<^const>\<open>front_step\<close> can happen; after it has returned the
  IO threads, if there are any, go on with all but accepting.
\<close>

inductive main_step :: "server_options \<Rightarrow> server_main \<Rightarrow> server_main \<Rightarrow> bool" for opts where
  signal: "main_step opts m (onTerminationSignal m)"
| tick: "sm_phase m = Serving \<Longrightarrow> main_step opts m (shutdown_tick m)"
| serve: "sm_phase m = Serving \<Longrightarrow> front_step opts (sm_front m) f \<Longrightarrow> main_step opts m (m\<lparr>sm_front := f\<rparr>)"
| leave: "sm_phase m = Serving \<Longrightarrow> sm_quit m \<Longrightarrow> main_step opts m (m\<lparr>sm_phase := LoopLeft\<rparr>)"
| close_all: "sm_phase m = LoopLeft \<Longrightarrow> main_step opts m (closeAll opts m)"
| io_thread: "0 < op_ioThreads opts \<Longrightarrow> front_step opts (sm_front m) f \<Longrightarrow>
    fr_next f = fr_next (sm_front m) \<Longrightarrow> fr_rejected f = fr_rejected (sm_front m) \<Longrightarrow>
    main_step opts m (m\<lparr>sm_front := f\<rparr>)"
| forced: "i < length (sm_forced m) \<Longrightarrow> main_step opts m (run_forced opts i m)"

inductive main_reach :: "server_options \<Rightarrow> server_main \<Rightarrow> bool" for opts where
  init: "main_reach opts (main_new now)"
| step: "main_reach opts m \<Longrightarrow> main_step opts m n \<Longrightarrow> main_reach opts n"

section \<open>Shutdown\<close>

text \<open>Closing every connection of the table, one after the other, on the main thread.\<close>

lemma force_close_all:
  assumes "op_ioThreads opts = 0" "fr_registry f = om_empty"
    and "mt_connectionsCurrent (fr_metrics f) = of_nat (length (fr_open f))"
  shows "fr_open (fold (force_close opts) (fr_open f) f) = [] \<and>
    fr_registry (fold (force_close opts) (fr_open f) f) = [] \<and>
    mt_connectionsCurrent (fr_metrics (fold (force_close opts) (fr_open f) f)) = 0"
  using assms(2,3)
proof (induction "fr_open f" arbitrary: f)
  case Nil
  then show ?case by (simp flip: Nil.hyps add: om_empty_def)
next
  case (Cons x xs)
  let ?f = "force_close opts x f"
  have o: "fr_open f = x # xs" using Cons.hyps(2) by simp
  have e: "?f = f\<lparr>fr_open := xs, fr_registry := om_empty, fr_metrics := onConnectionClosed (fr_metrics f)\<rparr>"
    using assms(1) Cons.prems(1) o
    by (cases x) (simp add: force_close_def front_ops Let_def om_get_def om_empty_def)
  show ?case using Cons.hyps(1) [of ?f] Cons.prems(2) by (simp add: e o)
qed

definition single_inv :: "server_options \<Rightarrow> server_main \<Rightarrow> bool" where
  "single_inv opts m \<longleftrightarrow> sm_forced m = [] \<and>
     (if sm_phase m = ClosedAll
      then fr_open (sm_front m) = [] \<and> fr_registry (sm_front m) = [] \<and>
        mt_connectionsCurrent (fr_metrics (sm_front m)) = 0
      else exact_table opts (sm_front m))"

lemma main_step_single:
  assumes "main_step opts m n" "op_ioThreads opts = 0" "single_inv opts m"
  shows "single_inv opts n"
  using assms(1)
proof (cases rule: main_step.cases)
  case (serve f)
  then show ?thesis using exact_table_step assms(2,3) by (simp add: single_inv_def)
next
  case close_all
  let ?f = "(sm_front m)\<lparr>fr_registry := om_empty\<rparr>"
  have "exact_table opts (sm_front m)" using close_all assms(3) by (simp add: single_inv_def)
  then have "fr_registry (sm_front m) = fr_open ?f"
    "mt_connectionsCurrent (fr_metrics ?f) = of_nat (length (fr_open ?f))"
    by (simp_all add: exact_table_def registry_size_def)
  then show ?thesis
    using force_close_all [OF assms(2), of ?f] close_all assms(2,3)
    by (simp add: single_inv_def closeAll_def registry_closeAll_def Let_def)
qed (use assms(2,3) in \<open>simp_all add: single_inv_def onTerminationSignal_def shutdown_tick_def\<close>)

text \<open>
  C35: with no IO threads shutdown closes everything. Once \<open>closeAll\<close> has returned, after any history
  of the server, no connection is open, the table is empty and the published number of
  connections is 0; and this point is reached only after a termination signal.
\<close>

theorem shutdown_closes_all:
  assumes "main_reach opts m" and "op_ioThreads opts = 0" and "sm_phase m = ClosedAll"
  shows "fr_open (sm_front m) = [] \<and> fr_registry (sm_front m) = [] \<and>
    mt_connectionsCurrent (fr_metrics (sm_front m)) = 0 \<and> sm_flag m"
proof -
  have "single_inv opts m \<and> (sm_quit m \<longrightarrow> sm_flag m) \<and> (sm_phase m \<noteq> Serving \<longrightarrow> sm_quit m)"
    using assms(1)
  proof (induction rule: main_reach.induct)
    case (init now)
    show ?case by (simp add: main_new_def single_inv_def exact_table_def front_new_def registry_size_def
        om_empty_def metrics_reset_def)
  next
    case (step m n)
    have "(sm_quit n \<longrightarrow> sm_flag n) \<and> (sm_phase n \<noteq> Serving \<longrightarrow> sm_quit n)"
      using step.hyps(2) step.IH
      by (cases rule: main_step.cases)
        (auto simp: onTerminationSignal_def shutdown_tick_def closeAll_def run_forced_def registry_closeAll_def Let_def)
    then show ?case using main_step_single [OF step.hyps(2) assms(2)] step.IH by blast
  qed
  then show ?thesis using assms(3) by (simp add: single_inv_def)
qed

text \<open>One connection is accepted, the signal comes, the base loop is left.\<close>

definition left_with :: "front \<Rightarrow> server_main" where
  "left_with f = \<lparr>sm_phase = LoopLeft, sm_flag = True, sm_quit = True, sm_front = f, sm_forced = []\<rparr>"

lemma left_reach:
  assumes "front_step opts (front_new 0) f"
  shows "main_reach opts (left_with f)"
proof -
  let ?n = "main_new 0"
  from main_reach.step [OF main_reach.init main_step.serve [of ?n opts f]] assms
  have "main_reach opts (?n\<lparr>sm_front := f\<rparr>)" by (simp add: main_new_def)
  from main_reach.step [OF this main_step.signal]
  have "main_reach opts (?n\<lparr>sm_front := f, sm_flag := True\<rparr>)" by (simp add: onTerminationSignal_def)
  from main_reach.step [OF this main_step.tick]
  have "main_reach opts (?n\<lparr>sm_front := f, sm_flag := True, sm_quit := True\<rparr>)"
    by (simp add: main_new_def shutdown_tick_def)
  from main_reach.step [OF this main_step.leave] show ?thesis by (simp add: main_new_def left_with_def)
qed

lemma first_accept: "front_step opts (front_new 0) (new_connection opts fd (front_new 0))"
  by (rule front_step.accept) (simp add: front_new_def om_empty_def om_get_def)

theorem shutdown_closes_all_witness:
  "\<exists>opts m. op_ioThreads opts = 0 \<and> main_reach opts m \<and> sm_phase m = ClosedAll \<and> fr_next (sm_front m) = 1 \<and> fr_open (sm_front m) = [] \<and> sm_flag m"
proof -
  let ?o = "ServerOptions_new\<lparr>op_ioThreads := 0\<rparr>"
  let ?m = "closeAll ?o (left_with (new_connection ?o 5 (front_new 0)))"
  have r: "main_reach ?o ?m"
    by (rule main_reach.step [OF left_reach [OF first_accept] main_step.close_all]) (simp add: left_with_def)
  have t: "op_ioThreads ?o = 0" by simp
  have p: "sm_phase ?m = ClosedAll" by (simp add: closeAll_def registry_closeAll_def Let_def)
  have "fr_next (sm_front ?m) = 1"
    by (simp add: closeAll_def registry_closeAll_def Let_def left_with_def front_new_def front_ops
        force_close_def om_empty_def om_get_def ServerOptions_new_def)
  then show ?thesis using shutdown_closes_all [OF r t p] r t p by blast
qed

text \<open>
  With IO threads a connection whose task is still waiting when \<open>closeAll\<close> runs is missed: it enters
  the table afterwards, open, and nothing is left that would close it.
\<close>

lemma late_connection_survives:
  assumes "0 < op_ioThreads opts"
  shows "\<exists>m :: server_main. main_reach opts m \<and> sm_phase m = ClosedAll \<and> sm_forced m = [] \<and>
    fr_opening (sm_front m) = [] \<and> fr_closing (sm_front m) = [] \<and>
    om_get (fr_open (sm_front m)) fd = Some 0 \<and> fr_registry (sm_front m) = [(fd, 0)]"
proof -
  define f where "f = new_connection opts fd (front_new 0)"
  have f: "fr_open f = [(fd, 0)]" "fr_registry f = []" "fr_opening f = [(fd, 0)]" "fr_closing f = []"
    unfolding f_def using assms
    by (subst new_connection_accepts; auto simp: front_new_def om_empty_def registry_size_def)+
  define m where "m = closeAll opts (left_with f)"
  have r: "main_reach opts m"
    unfolding m_def f_def
    by (rule main_reach.step [OF left_reach [OF first_accept] main_step.close_all]) (simp add: left_with_def)
  have m: "sm_phase m = ClosedAll" "sm_forced m = []" "sm_front m = f"
    using assms f(2) by (simp_all add: m_def closeAll_def registry_closeAll_def Let_def left_with_def om_empty_def)
  define g where "g = run_opening 0 f"
  have g: "fr_open g = [(fd, 0)]" "fr_registry g = [(fd, 0)]" "fr_opening g = []" "fr_closing g = []"
    "fr_next g = fr_next f" "fr_rejected g = fr_rejected f"
    by (simp_all add: g_def run_opening_def open_connection_def registry_add_def f remove_nth_def)
  have "front_step opts f g" unfolding g_def using f(3) by (intro front_step.open_task) simp
  then have "main_reach opts (m\<lparr>sm_front := g\<rparr>)"
    using main_reach.step [OF r main_step.io_thread [OF assms]] m(3) g(5,6) by simp
  then show ?thesis using m(1,2) g(1-4) by (intro exI [of _ "m\<lparr>sm_front := g\<rparr>"]) (simp add: om_get_def)
qed

end
