(* ===== verification/Channel_Props.thy ===== *)
theory Channel_Props
  imports Channel
begin

text \<open>
  The registry: what one operation on a channel does to it and to the set the kernel watches, and
  what the two masks sharing the edge-trigger bit means. \<open>Channel_Runs\<close> has sequences of operations.
\<close>

section \<open>The registry and the kernel agree\<close>

text \<open>The events wanted for a descriptor.\<close>

definition wanted :: "loop_reg \<Rightarrow> int \<Rightarrow> 32 word option" where
  "wanted s fd = map_option (\<lambda>c. ch_events (lr_objects s c)) (om_get (lr_channels s) fd)"

text \<open>
  The registry by itself: each entry is a channel with its own descriptor, a non-empty mask and not
  removed, and the counter counts the entries. \<open>reg_valid\<close> adds that the kernel, which refuses no
  call, watches exactly what is wanted.
\<close>

definition reg_ok :: "loop_reg \<Rightarrow> bool" where
  "reg_ok s \<longleftrightarrow> om_valid (lr_channels s) \<and> lr_channelCount s = length (lr_channels s) \<and>
     (\<forall>fd c. om_get (lr_channels s) fd = Some c \<longrightarrow>
        ch_fd (lr_objects s c) = fd \<and> ch_events (lr_objects s c) \<noteq> 0 \<and> \<not> ch_removed (lr_objects s c))"

definition reg_valid :: "loop_reg \<Rightarrow> bool" where
  "reg_valid s \<longleftrightarrow> om_valid (lr_channels s) \<and> ep.mirrors (lr_epoll s) (wanted s) \<and>
     lr_channelCount s = length (lr_channels s) \<and>
     (\<forall>fd c. om_get (lr_channels s) fd = Some c \<longrightarrow>
        ch_fd (lr_objects s c) = fd \<and> ch_events (lr_objects s c) \<noteq> 0 \<and> \<not> ch_removed (lr_objects s c))"

lemma reg_valid_iff: "reg_valid s \<longleftrightarrow> reg_ok s \<and> ep.mirrors (lr_epoll s) (wanted s)"
  by (auto simp: reg_valid_def reg_ok_def)

text \<open>No other channel holds the descriptor of \<open>c\<close> in the map.\<close>

definition sole :: "nat \<Rightarrow> loop_reg \<Rightarrow> bool" where
  "sole c s \<longleftrightarrow> om_get (lr_channels s) (ch_fd (lr_objects s c)) \<in> {None, Some c}"

lemma reg_validD:
  assumes "reg_valid s"
  shows "om_valid (lr_channels s)" "ep.mirrors (lr_epoll s) (wanted s)"
    "lr_channelCount s = length (lr_channels s)"
    "\<And>fd c. om_get (lr_channels s) fd = Some c \<Longrightarrow> ch_fd (lr_objects s c) = fd"
    "\<And>fd c. om_get (lr_channels s) fd = Some c \<Longrightarrow> ch_events (lr_objects s c) \<noteq> 0"
    "\<And>fd c. om_get (lr_channels s) fd = Some c \<Longrightarrow> \<not> ch_removed (lr_objects s c)"
  using assms by (auto simp: reg_valid_def)

lemma om_erase_length: "om_get m k = Some v \<Longrightarrow> length (om_erase k m) = length m - 1 \<and> 0 < length m"
  by (induction k m rule: om_erase.induct) (auto simp: om_get_def split: if_splits)

lemma loop_reg_new_wanted: "wanted (loop_reg_new objs refuses) = Map.empty"
  by (auto simp: wanted_def loop_reg_new_def om.get_empty)

lemma loop_reg_new_ok: "reg_ok (loop_reg_new objs refuses)"
  by (simp add: reg_ok_def loop_reg_new_def om_empty_def om_get_def)

lemma loop_reg_new_valid: "(\<forall>n. \<not> refuses n) \<Longrightarrow> reg_valid (loop_reg_new objs refuses)"
  by (simp add: reg_valid_iff loop_reg_new_ok loop_reg_new_wanted)
    (simp add: ep.mirrors_def loop_reg_new_def epoll_new_def epoll_ok_def watched_def om.valid_empty
      om.get_empty fun_eq_iff)

text \<open>Taking the registration of \<open>fd\<close> away keeps the agreement of the others.\<close>

lemma removeChannel_valid:
  assumes v: "om_valid (lr_channels s)" "lr_channelCount s = length (lr_channels s)"
    and m: "ep.mirrors (lr_epoll s) w" and d: "\<And>fd. w fd = None \<longleftrightarrow> om_get (lr_channels s) fd = None"
    and others: "\<And>fd d. fd \<noteq> ch_fd (lr_objects s c) \<Longrightarrow> om_get (lr_channels s) fd = Some d \<Longrightarrow>
      ch_fd (lr_objects s d) = fd \<and> ch_events (lr_objects s d) \<noteq> 0 \<and>
      \<not> ch_removed (lr_objects s d) \<and> w fd = Some (ch_events (lr_objects s d))"
  shows "reg_valid (removeChannel c s) \<and>
    om_get (lr_channels (removeChannel c s)) (ch_fd (lr_objects s c)) = None \<and>
    lr_objects (removeChannel c s) = lr_objects s"
proof (cases "om_get (lr_channels s) (ch_fd (lr_objects s c))")
  case None
  have "wanted s = w"
  proof
    fix fd
    show "wanted s fd = w fd"
    proof (cases "om_get (lr_channels s) fd")
      case n: None
      then show ?thesis using d [of fd] by (simp add: wanted_def)
    next
      case (Some e)
      then have "fd \<noteq> ch_fd (lr_objects s c)" using None by auto
      then show ?thesis using others [OF _ Some] Some by (simp add: wanted_def)
    qed
  qed
  moreover have "fd \<noteq> ch_fd (lr_objects s c)" if "om_get (lr_channels s) fd = Some e" for fd e
    using that None by auto
  ultimately show ?thesis
    using None v m others by (simp add: removeChannel_def reg_valid_def)
next
  case (Some e)
  let ?fd = "ch_fd (lr_objects s c)"
  let ?s = "removeChannel c s"
  have s': "?s = s\<lparr>lr_epoll := snd (epoller_remove ?fd (lr_epoll s)),
      lr_channels := om_erase ?fd (lr_channels s), lr_channelCount := lr_channelCount s - 1\<rparr>"
    using Some by (simp add: removeChannel_def Let_def)
  have g: "om_get (lr_channels ?s) = (om_get (lr_channels s))(?fd := None)"
    using v(1) by (simp add: s' om_get_erase)
  have o: "lr_objects ?s = lr_objects s" by (simp add: s')
  have "wanted ?s = w(?fd := None)"
  proof
    fix fd
    show "wanted ?s fd = (w(?fd := None)) fd"
    proof (cases "om_get (lr_channels s) fd")
      case n: None
      then show ?thesis using d [of fd] by (simp add: wanted_def g o)
    next
      case (Some e)
      then show ?thesis using others [OF _ Some] Some by (simp add: wanted_def g o)
    qed
  qed
  moreover have "ep.mirrors (lr_epoll ?s) (w(?fd := None))"
    using ep.mirrors_remove [OF m] Some d by (simp add: s')
  moreover have "lr_channelCount ?s = length (lr_channels ?s)"
    using om_erase_length [OF Some] v(2) by (simp add: s')
  moreover have "om_valid (lr_channels ?s)" using v(1) by (simp add: s' om_valid_erase)
  ultimately show ?thesis
    using others o by (auto simp: reg_valid_def g split: if_splits)
qed

lemma set_object_simps [simp]:
  "lr_objects (set_object c ch s) = (lr_objects s)(c := ch)" "lr_channels (set_object c ch s) = lr_channels s"
  "lr_epoll (set_object c ch s) = lr_epoll s" "lr_channelCount (set_object c ch s) = lr_channelCount s"
  by (simp_all add: set_object_def)

lemma set_events_valid:
  assumes r: "reg_valid s" and u: "sole c s" and n: "\<not> ch_removed (lr_objects s c)"
  shows "reg_valid (set_events c ev s)" (is ?V)
    and "watched (lr_epoll (set_events c ev s)) (ch_fd (lr_objects s c)) = (if ev = 0 then None else Some ev)"
      (is ?E)
    and "lr_objects (set_events c ev s) = (lr_objects s)(c := (lr_objects s c)\<lparr>ch_events := ev\<rparr>)" (is ?O)
proof -
  let ?fd = "ch_fd (lr_objects s c)"
  let ?s = "set_object c ((lr_objects s c)\<lparr>ch_events := ev\<rparr>) s"
  note r = reg_validD [OF r]
  have up: "set_events c ev s = updateChannel c ?s" using n by (simp add: set_events_def channel_update_def)
  have other: "d \<noteq> c" if "fd \<noteq> ?fd" "om_get (lr_channels s) fd = Some d" for fd d
    using r(4) that by auto
  have w: "wanted s fd = None \<longleftrightarrow> om_get (lr_channels s) fd = None" for fd by (simp add: wanted_def)
  have wo: "wanted s fd = Some (ch_events (lr_objects s d))" if "om_get (lr_channels s) fd = Some d" for fd d
    using that by (simp add: wanted_def)
  show ?V ?E ?O
  proof -
    have "?V \<and> ?E \<and> ?O"
    proof (cases "ev = 0")
      case True
      have e: "updateChannel c ?s = removeChannel c ?s"
        using True by (simp add: updateChannel_def removeChannel_def isNoneEvent_def Let_def)
      have "reg_valid (removeChannel c ?s) \<and>
          om_get (lr_channels (removeChannel c ?s)) ?fd = None \<and>
          lr_objects (removeChannel c ?s) = lr_objects ?s"
        using removeChannel_valid [of ?s "wanted s" c] r w wo other by simp
      moreover from this have "watched (lr_epoll (removeChannel c ?s)) ?fd = None"
        by (auto simp: reg_valid_def ep.mirrors_def wanted_def)
      ultimately show ?thesis unfolding up e using True by simp
    next
      case False
      show ?thesis
      proof (cases "om_get (lr_channels s) ?fd")
        case None
        have x: "updateChannel c ?s = ?s\<lparr>lr_channels := om_put ?fd c (lr_channels s),
            lr_epoll := snd (epoller_add ?fd ev (lr_epoll s)), lr_channelCount := lr_channelCount s + 1\<rparr>"
          using None False by (simp add: updateChannel_def isNoneEvent_def Let_def)
        have ww: "wanted (updateChannel c ?s) = (wanted s)(?fd \<mapsto> ev)"
          using other by (auto simp: wanted_def x om_get_put fun_eq_iff map_option_case split: option.split)
        have mm: "ep.mirrors (snd (epoller_add ?fd ev (lr_epoll s))) ((wanted s)(?fd \<mapsto> ev))"
          using ep.mirrors_add [OF r(2)] None w by simp
        have "reg_valid (updateChannel c ?s)"
          unfolding reg_valid_def ww
          using mm r(1,3-6) other None False n om_put_absent_length [OF None]
          by (auto simp: x om_valid_put om_get_put)
        then show ?thesis using mm False by (simp add: up x ep.mirrors_def)
      next
        case (Some d)
        then have d: "d = c" using u by (simp add: sole_def)
        have x: "updateChannel c ?s = ?s\<lparr>lr_epoll := snd (epoller_modify ?fd ev (lr_epoll s))\<rparr>"
          using Some False by (simp add: updateChannel_def isNoneEvent_def Let_def)
        have ww: "wanted (updateChannel c ?s) = (wanted s)(?fd \<mapsto> ev)"
          using other Some d by (auto simp: wanted_def x fun_eq_iff map_option_case split: option.split)
        have mm: "ep.mirrors (snd (epoller_modify ?fd ev (lr_epoll s))) ((wanted s)(?fd \<mapsto> ev))"
          using ep.mirrors_modify [OF r(2)] Some w by simp
        have "reg_valid (updateChannel c ?s)"
          unfolding reg_valid_def ww
          using mm r(1,3-6) other d False n by (auto simp: x)
        then show ?thesis using mm False by (simp add: up x ep.mirrors_def)
      qed
    qed
    then show ?V ?E ?O by simp_all
  qed
qed


lemma channel_remove_valid:
  assumes r: "reg_valid s" and u: "sole c s" and n: "\<not> ch_removed (lr_objects s c)"
  shows "reg_valid (channel_remove c s)"
    and "watched (lr_epoll (channel_remove c s)) (ch_fd (lr_objects s c)) = None"
proof -
  let ?s = "set_object c ((lr_objects s c)\<lparr>ch_removed := True\<rparr>) s"
  note r = reg_validD [OF r]
  have up: "channel_remove c s = removeChannel c ?s" using n by (simp add: channel_remove_def)
  have "d \<noteq> c" if "fd \<noteq> ch_fd (lr_objects s c)" "om_get (lr_channels s) fd = Some d" for fd d
    using r(4) that by auto
  then have "reg_valid (removeChannel c ?s) \<and>
      om_get (lr_channels (removeChannel c ?s)) (ch_fd (lr_objects s c)) = None"
    using removeChannel_valid [of ?s "wanted s" c] r by (simp add: wanted_def)
  then show "reg_valid (channel_remove c s)"
    "watched (lr_epoll (channel_remove c s)) (ch_fd (lr_objects s c)) = None"
    unfolding up by (auto simp: reg_valid_def ep.mirrors_def wanted_def)
qed

section \<open>The edge-trigger bit\<close>

lemma events_after:
  assumes "\<not> ch_removed (lr_objects s c)"
  shows "ch_events (lr_objects (set_events c ev s) c) = ev"
  using assms
  by (simp add: set_events_def channel_update_def updateChannel_def removeChannel_def Let_def)

lemma removed_after [simp]: "ch_removed (lr_objects (set_events c ev s) c) = ch_removed (lr_objects s c)"
  by (simp add: set_events_def channel_update_def updateChannel_def removeChannel_def Let_def)

lemma mask_values: "kReadEvent = 0x80000003" "kWriteEvent = 0x80000004"
  by (simp_all add: kReadEvent_def kWriteEvent_def epoll_defs)

text \<open>
  The shared edge-trigger bit. Both masks hold the edge-trigger bit, so a new channel that
  has only enabled reading already counts as writing; after writing was enabled and disabled
  once, the channel no longer counts as writing and its read side is level-triggered.
\<close>

lemma edge_trigger_bit_shared:
  assumes "ch_events (lr_objects s c) = 0" "\<not> ch_removed (lr_objects s c)"
    and "s1 = enableReading c s" "s2 = disableWriting c (enableWriting c s1)"
  shows "isWriting (lr_objects s1 c) \<and> ch_events (lr_objects s1 c) AND EPOLLOUT = 0 \<and>
    \<not> isWriting (lr_objects s2 c) \<and> ch_events (lr_objects s2 c) = EPOLLIN OR EPOLLPRI \<and>
    ch_events (lr_objects s2 c) AND EPOLLET = 0"
proof -
  have e1: "ch_events (lr_objects s1 c) = 0x80000003"
    using assms(1-3) by (simp add: enableReading_def events_after mask_values)
  have r1: "\<not> ch_removed (lr_objects s1 c)" using assms(2,3) by (simp add: enableReading_def)
  have "ch_events (lr_objects s2 c) = 3"
    using r1 e1 assms(4) by (simp add: disableWriting_def enableWriting_def events_after mask_values)
  then show ?thesis using e1 by (simp add: isWriting_def mask_values epoll_defs)
qed

lemma edge_trigger_bit_shared_witness:
  "isWriting (lr_objects (enableReading 0 (loop_reg_new (\<lambda>n. Channel_new (int n + 5)) (\<lambda>n. False))) 0)"
proof -
  let ?s = "loop_reg_new (\<lambda>n. Channel_new (int n + 5)) (\<lambda>n. False)"
  have "ch_events (lr_objects ?s 0) = 0" "\<not> ch_removed (lr_objects ?s 0)"
    by (simp_all add: loop_reg_new_def Channel_new_def)
  from edge_trigger_bit_shared [OF this refl refl] show ?thesis by blast
qed

end
