(* ===== verification/Descriptors.thy ===== *)
theory Descriptors
  imports Acceptor Channel_Props
begin

text \<open>
  Who opens and closes which descriptor while the server is set up and taken down: \<open>listenOn\<close> and
  \<open>setNonBlocking\<close> of \<open>net/Socket\<close>, the constructors and destructors of \<open>net/Acceptor\<close>,
  \<open>net/Epoller\<close>, \<open>net/Channel\<close> and \<open>net/EventLoop\<close>. The system calls are a trace; their results and
  \<open>inet_pton\<close>, \<open>strerror\<close> are parameters. An exception is a value on the left of a sum.
\<close>

section \<open>System calls\<close>

datatype syscall =
    SocketCall int "32 word"
  | EpollCreateCall int
  | EventfdCall int
  | SetReuseAddrCall int bool
  | SetFlagsCall int "32 word"
  | BindCall int nat nat
  | ListenCall int int
  | CloseCall int

definition opened_fds :: "syscall list \<Rightarrow> int list" where
  "opened_fds tr = concat (map (\<lambda>c. case c of
     SocketCall fd ty \<Rightarrow> [fd] | EpollCreateCall fd \<Rightarrow> [fd] | EventfdCall fd \<Rightarrow> [fd] | _ \<Rightarrow> []) tr)"

definition closed_fds :: "syscall list \<Rightarrow> int list" where
  "closed_fds tr = concat (map (\<lambda>c. case c of CloseCall fd \<Rightarrow> [fd] | _ \<Rightarrow> []) tr)"

text \<open>
  The results of the calls: a new descriptor or an error number, and for \<open>bind\<close> and \<open>listen\<close> the
  error number if they fail. Addresses are numbers in host order.
\<close>

record net_kernel =
  nk_socket :: "int + nat"
  nk_epollCreate :: "int + nat"
  nk_eventfd :: "int + nat"
  nk_epollRefuses :: "nat \<Rightarrow> bool"
  nk_bind :: "int \<Rightarrow> nat \<Rightarrow> nat \<Rightarrow> int option"
  nk_listen :: "int \<Rightarrow> int \<Rightarrow> int option"
  nk_inetPton :: "string \<Rightarrow> nat option"
  nk_strerror :: "int \<Rightarrow> string"

definition call_result :: "int + nat \<Rightarrow> int" where
  "call_result r = (case r of Inl e \<Rightarrow> -1 | Inr fd \<Rightarrow> int fd)"

definition sysError :: "net_kernel \<Rightarrow> string \<Rightarrow> int \<Rightarrow> string" where
  "sysError k what errno = what @ '': '' @ nk_strerror k errno"

text \<open>
  Whether a descriptor made by \<open>socket\<close> is non-blocking after a trace: by its type, or by the last
  change of its flags.
\<close>

definition SOCK_STREAM :: "32 word" where "SOCK_STREAM = 1"
definition O_NONBLOCK :: "32 word" where "O_NONBLOCK = 0x800"

definition flags_of :: "syscall \<Rightarrow> (int \<times> 32 word) list" where
  "flags_of c = (case c of SocketCall fd ty \<Rightarrow> [(fd, ty)] | SetFlagsCall fd fl \<Rightarrow> [(fd, fl)] | _ \<Rightarrow> [])"

definition nonblocking :: "syscall list \<Rightarrow> int \<Rightarrow> bool" where
  "nonblocking tr fd =
     fold (\<lambda>(fd', fl) b. if fd' = fd then fl AND O_NONBLOCK \<noteq> 0 else b) (concat (map flags_of tr)) False"

section \<open>Socket\<close>

definition closing :: "socket \<Rightarrow> syscall list" where
  "closing s = map CloseCall (snd (socket_close s))"

definition setReuseAddr :: "bool \<Rightarrow> socket \<Rightarrow> syscall list" where
  "setReuseAddr on s = [SetReuseAddrCall (so_fd s) on]"

text \<open>\<open>c_str()\<close> ends at the first NUL.\<close>

definition listen_address :: "net_kernel \<Rightarrow> string \<Rightarrow> nat option" where
  "listen_address k ip =
     (if ip = [] \<or> ip = ''0.0.0.0'' then Some 0 else nk_inetPton k (takeWhile (\<lambda>c. c \<noteq> CHR 0x00) ip))"

text \<open>
  \<open>listenOn\<close>. The local socket object is destroyed on every throw; on success it is moved out to
  the caller, and the local one owns nothing any more.
\<close>

definition listenOn :: "net_kernel \<Rightarrow> string \<Rightarrow> int \<Rightarrow> int \<Rightarrow> (string + socket) \<times> syscall list" where
  "listenOn k ip port backlog =
     (let sock = Socket_new (call_result (nk_socket k)) in
      if \<not> socket_valid sock then
        (Inl (sysError k ''socket'' (case nk_socket k of Inl e \<Rightarrow> e | Inr _ \<Rightarrow> 0)), closing sock)
      else
        let fd = so_fd sock; t1 = SocketCall fd SOCK_STREAM # setReuseAddr True sock in
        case listen_address k ip of
          None \<Rightarrow> (Inl (''invalid ip address: '' @ ip), t1 @ closing sock)
        | Some addr \<Rightarrow>
            let t2 = t1 @ [BindCall fd addr (listen_port port)] in
            (case nk_bind k fd addr (listen_port port) of
               Some e \<Rightarrow> (Inl (sysError k ''bind'' e), t2 @ closing sock)
             | None \<Rightarrow>
                 let t3 = t2 @ [ListenCall fd backlog] in
                 (case nk_listen k fd backlog of
                    Some e \<Rightarrow> (Inl (sysError k ''listen'' e), t3 @ closing sock)
                  | None \<Rightarrow>
                      (case socket_move sock of (result, old) \<Rightarrow> (Inr result, t3 @ closing old)))))"

text \<open>\<open>setNonBlocking\<close>: the result of \<open>F_GETFL\<close>, an error or the flags, and whether \<open>F_SETFL\<close> fails.\<close>

definition setNonBlocking ::
  "net_kernel \<Rightarrow> bool \<Rightarrow> int + 32 word \<Rightarrow> (32 word \<Rightarrow> int option) \<Rightarrow> socket \<Rightarrow> string option \<times> syscall list" where
  "setNonBlocking k on getfl setfl s =
     (case getfl of
        Inl e \<Rightarrow> (Some (sysError k ''fcntl(F_GETFL)'' e), [])
      | Inr flags \<Rightarrow>
          let newFlags = (if on then flags OR O_NONBLOCK else flags AND NOT O_NONBLOCK) in
          (case setfl newFlags of
             Some e \<Rightarrow> (Some (sysError k ''fcntl(F_SETFL)'' e), [])
           | None \<Rightarrow> (None, [SetFlagsCall (so_fd s) newFlags])))"

section \<open>Acceptor\<close>

record acceptor =
  ac_listenSocket :: socket
  ac_channel :: nat
  ac_port :: int

text \<open>The channel gets the number \<open>c\<close> in the store of objects of its loop.\<close>

definition Acceptor_new ::
  "net_kernel \<Rightarrow> string \<Rightarrow> int \<Rightarrow> nat \<Rightarrow> loop_reg \<Rightarrow> (string + acceptor \<times> loop_reg) \<times> syscall list" where
  "Acceptor_new k ip port c s =
     (case listenOn k ip port 128 of
        (Inl e, tr) \<Rightarrow> (Inl e, tr)
      | (Inr sock, tr) \<Rightarrow>
          (Inr (\<lparr>ac_listenSocket = sock, ac_channel = c, ac_port = port\<rparr>,
                set_object c (Channel_new (so_fd sock)) s), tr))"

definition acceptor_listen :: "acceptor \<Rightarrow> loop_reg \<Rightarrow> loop_reg" where
  "acceptor_listen a s = enableReading (ac_channel a) s"

text \<open>The read callback: the loop of \<open>accept4\<close> calls on the listening socket.\<close>

definition acceptor_handleRead ::
  "syscall list \<Rightarrow> bool \<Rightarrow> acceptor \<Rightarrow> accept_result list \<Rightarrow>
     (int \<times> string \<times> nat) list \<times> int list \<times> nat \<times> accept_result list \<times> bool" where
  "acceptor_handleRead tr has_callback a rs =
     accept_loop (nonblocking tr (so_fd (ac_listenSocket a))) has_callback rs"

text \<open>The body of the destructor, then the members in reverse order: the channel, the socket.\<close>

definition acceptor_destroy :: "acceptor \<Rightarrow> loop_reg \<Rightarrow> loop_reg \<times> syscall list" where
  "acceptor_destroy a s =
     (channel_destroy (ac_channel a) (disableAll (ac_channel a) s), closing (ac_listenSocket a))"

section \<open>Epoller and EventLoop\<close>

definition epoller_new :: "net_kernel \<Rightarrow> (string + socket) \<times> syscall list" where
  "epoller_new k =
     (case nk_epollCreate k of
        Inl e \<Rightarrow> (Inl (sysError k ''epoll_create1'' e), [])
      | Inr fd \<Rightarrow> (Inr (Socket_new (int fd)), [EpollCreateCall (int fd)]))"

definition epoller_destroy :: "socket \<Rightarrow> socket \<times> syscall list" where
  "epoller_destroy ep = (fst (socket_close ep), closing ep)"

text \<open>\<open>wait\<close>: at most as many events as the array holds, 1024 by default.\<close>

definition kMaxEvents :: nat where "kMaxEvents = 1024"

definition epoller_wait :: "int + (int \<times> 32 word) list \<Rightarrow> int \<times> (int \<times> 32 word) list" where
  "epoller_wait ready = (case ready of
     Inl e \<Rightarrow> (-1, [])
   | Inr evs \<Rightarrow> (int (length (take kMaxEvents evs)), take kMaxEvents evs))"

record loop_object =
  lo_epoll :: socket
  lo_wakeup :: socket
  lo_wakeupChannel :: nat
  lo_reg :: loop_reg

text \<open>
  The constructor: when \<open>eventfd\<close> fails, the poller, a complete member, is destroyed by the throw.
  The wake-up channel is registered for reading.
\<close>

definition EventLoop_new :: "net_kernel \<Rightarrow> nat \<Rightarrow> (nat \<Rightarrow> channel) \<Rightarrow> (string + loop_object) \<times> syscall list" where
  "EventLoop_new k c objs =
     (case epoller_new k of
        (Inl e, tr) \<Rightarrow> (Inl e, tr)
      | (Inr ep, tr) \<Rightarrow>
          (case nk_eventfd k of
             Inl e \<Rightarrow> (Inl ''eventfd: failed to create wakeup fd'', tr @ snd (epoller_destroy ep))
           | Inr fd \<Rightarrow>
               (Inr \<lparr>lo_epoll = ep, lo_wakeup = Socket_new (int fd), lo_wakeupChannel = c,
                     lo_reg = enableReading c (set_object c (Channel_new (int fd)) (loop_reg_new objs (nk_epollRefuses k)))\<rparr>,
                tr @ [EventfdCall (int fd)])))"

text \<open>
  The destructor: the wake-up channel leaves the poller before its descriptor is closed; the
  members follow, the channel, the timer queue and the poller.
\<close>

definition EventLoop_destroy :: "loop_object \<Rightarrow> loop_object \<times> syscall list" where
  "EventLoop_destroy l =
     (let c = lo_wakeupChannel l;
          r = channel_destroy c (channel_remove c (disableAll c (lo_reg l)));
          (ep, tr) = epoller_destroy (lo_epoll l) in
      (l\<lparr>lo_reg := r, lo_wakeup := fst (socket_close (lo_wakeup l)), lo_epoll := ep\<rparr>,
       closing (lo_wakeup l) @ tr))"

definition channelCount :: "loop_object \<Rightarrow> nat" where
  "channelCount l = lr_channelCount (lo_reg l)"

end
