(* ===== verification/Descriptors_Props.thy ===== *)
theory Descriptors_Props
  imports Descriptors "HOL-Library.Multiset"
begin

text \<open>
  Properties of setting up and taking down: no path of \<open>listenOn\<close>, of the acceptor's and of the
  loop's life leaks a descriptor or leaves a channel registered; and the acceptor reads a blocking
  socket until \<open>EAGAIN\<close>, so that it waits inside its callback.
\<close>

section \<open>listenOn\<close>

lemma fd_simps [simp]:
  "opened_fds [] = []" "closed_fds [] = []"
  "opened_fds (c # tr) = (case c of
     SocketCall fd ty \<Rightarrow> [fd] | EpollCreateCall fd \<Rightarrow> [fd] | EventfdCall fd \<Rightarrow> [fd] | _ \<Rightarrow> []) @ opened_fds tr"
  "closed_fds (c # tr) = (case c of CloseCall fd \<Rightarrow> [fd] | _ \<Rightarrow> []) @ closed_fds tr"
  by (simp_all add: opened_fds_def closed_fds_def)

lemma fd_append [simp]:
  "opened_fds (a @ b) = opened_fds a @ opened_fds b" "closed_fds (a @ b) = closed_fds a @ closed_fds b"
  by (simp_all add: opened_fds_def closed_fds_def)

lemma closing_new: "closing (Socket_new (int n)) = [CloseCall (int n)]" "closing (Socket_new (-1)) = []"
  by (simp_all add: closing_def socket_close_def Socket_new_def)

lemma valid_new: "socket_valid (Socket_new (call_result r)) \<longleftrightarrow> (\<exists>n. r = Inr n)"
  by (cases r) (simp_all add: socket_valid_def Socket_new_def call_result_def)

text \<open>The calls \<open>listenOn\<close> makes until the step that fails.\<close>

definition listen_calls :: "nat \<Rightarrow> nat \<Rightarrow> int \<Rightarrow> int \<Rightarrow> syscall list" where
  "listen_calls n addr port backlog =
     [SocketCall (int n) SOCK_STREAM, SetReuseAddrCall (int n) True, BindCall (int n) addr (listen_port port),
      ListenCall (int n) backlog]"

lemma listenOn_cases:
  "listenOn k ip port backlog =
     (case nk_socket k of
        Inl e \<Rightarrow> (Inl (sysError k ''socket'' e), [])
      | Inr n \<Rightarrow>
          (case listen_address k ip of
             None \<Rightarrow> (Inl (''invalid ip address: '' @ ip), take 2 (listen_calls n 0 port backlog) @ [CloseCall (int n)])
           | Some addr \<Rightarrow>
               (case nk_bind k (int n) addr (listen_port port) of
                  Some e \<Rightarrow> (Inl (sysError k ''bind'' e), take 3 (listen_calls n addr port backlog) @ [CloseCall (int n)])
                | None \<Rightarrow>
                    (case nk_listen k (int n) backlog of
                       Some e \<Rightarrow> (Inl (sysError k ''listen'' e), listen_calls n addr port backlog @ [CloseCall (int n)])
                     | None \<Rightarrow> (Inr \<lparr>so_fd = int n\<rparr>, listen_calls n addr port backlog)))))"
  by (cases "nk_socket k")
    (auto simp: listenOn_def listen_calls_def call_result_def closing_def socket_close_def socket_valid_def
      Socket_new_def socket_move_def setReuseAddr_def Let_def numeral_2_eq_2 numeral_3_eq_3 split: option.split)

text \<open>
  Opening the listening socket. \<open>listenOn\<close> either returns a socket that has been created,
  given SO_REUSEADDR, bound to the address and the port and told to listen, in this order, and is
  still open; or it throws, with a message that names the first step that failed, after closing
  the descriptor it had opened, if any.
\<close>

lemma listenOn_outcome:
  "case listenOn k ip port backlog of
     (Inr s, tr) \<Rightarrow>
       \<exists>n addr. nk_socket k = Inr n \<and> so_fd s = int n \<and> listen_address k ip = Some addr \<and>
         tr = [SocketCall (int n) SOCK_STREAM, SetReuseAddrCall (int n) True,
               BindCall (int n) addr (listen_port port), ListenCall (int n) backlog] \<and>
         nk_bind k (int n) addr (listen_port port) = None \<and> nk_listen k (int n) backlog = None
   | (Inl msg, tr) \<Rightarrow>
       closed_fds tr = opened_fds tr \<and>
       (case nk_socket k of
          Inl e \<Rightarrow> msg = ''socket: '' @ nk_strerror k e \<and> tr = []
        | Inr n \<Rightarrow> opened_fds tr = [int n] \<and>
            (case listen_address k ip of
               None \<Rightarrow> msg = ''invalid ip address: '' @ ip
             | Some addr \<Rightarrow>
                 (case nk_bind k (int n) addr (listen_port port) of
                    Some e \<Rightarrow> msg = ''bind: '' @ nk_strerror k e
                  | None \<Rightarrow> \<exists>e. nk_listen k (int n) backlog = Some e \<and> msg = ''listen: '' @ nk_strerror k e)))"
  unfolding listenOn_cases
  by (auto simp: listen_calls_def sysError_def numeral_2_eq_2 numeral_3_eq_3 split: sum.split option.split)

section \<open>The life of the acceptor's channel\<close>

lemma om_erase_put: "om_get m k = None \<Longrightarrow> om_valid m \<Longrightarrow> om_get (om_erase k (om_put k v m)) = om_get m"
  by (auto simp: om_get_erase om_valid_put om_get_put)

text \<open>A fresh channel that reads and is then destroyed leaves the registry as it was.\<close>

lemma channel_life:
  assumes v: "reg_valid s" and fd: "om_get (lr_channels s) fd = None"
    and c: "lr_objects s c = Channel_new fd"
  defines "s1 \<equiv> enableReading c s"
  shows "om_get (lr_channels s1) = (om_get (lr_channels s))(fd \<mapsto> c)"
    "watched (lr_epoll s1) = (watched (lr_epoll s))(fd \<mapsto> kReadEvent)"
    "lr_channelCount s1 = lr_channelCount s + 1"
    "om_get (lr_channels (channel_destroy c (disableAll c s1))) = om_get (lr_channels s)"
    "watched (lr_epoll (channel_destroy c (disableAll c s1))) = watched (lr_epoll s)"
    "lr_channelCount (channel_destroy c (disableAll c s1)) = lr_channelCount s"
    "ch_removed (lr_objects (channel_destroy c (disableAll c s1)) c)"
proof -
  have ch: "om_valid (lr_channels s)" "epoll_ok (lr_epoll s)" "watched (lr_epoll s) fd = None"
    using v fd by (auto simp: reg_valid_def ep.mirrors_def wanted_def)
  define e1 where "e1 = snd (epoller_add fd kReadEvent (lr_epoll s))"
  define e2 where "e2 = snd (epoller_remove fd e1)"
  have w1: "epoll_ok e1" "watched e1 = (watched (lr_epoll s))(fd \<mapsto> kReadEvent)"
    using ep.add_new [OF ch(2,3), of kReadEvent] ep.ok_add [OF ch(2), of fd kReadEvent] by (simp_all add: e1_def)
  have w2: "watched e2 = watched (lr_epoll s)"
    using ep.remove_known [OF w1(1), of fd] w1(2) ch(3) by (simp add: e2_def fun_eq_iff)
  have nz: "kReadEvent \<noteq> 0" by (simp add: mask_values)
  have s1: "s1 = s\<lparr>lr_objects := (lr_objects s)(c := (Channel_new fd)\<lparr>ch_events := kReadEvent\<rparr>),
      lr_channels := om_put fd c (lr_channels s), lr_epoll := e1,
      lr_channelCount := lr_channelCount s + 1\<rparr>"
    using fd nz by (simp add: s1_def e1_def enableReading_def set_events_def channel_update_def updateChannel_def c
        Channel_new_def set_object_def isNoneEvent_def Let_def)
  have dis: "disableAll c s1 = s\<lparr>lr_objects := (lr_objects s)(c := Channel_new fd),
      lr_channels := om_erase fd (om_put fd c (lr_channels s)),
      lr_epoll := e2, lr_channelCount := lr_channelCount s\<rparr>"
    using ch by (simp add: s1 e2_def disableAll_def set_events_def channel_update_def updateChannel_def removeChannel_def
        Channel_new_def set_object_def isNoneEvent_def om_get_put Let_def)
  have e: "om_get (om_erase fd (om_put fd c (lr_channels s))) = om_get (lr_channels s)"
    using om_erase_put fd ch by metis
  have des: "channel_destroy c (disableAll c s1) =
      (disableAll c s1)\<lparr>lr_objects := (lr_objects s)(c := (Channel_new fd)\<lparr>ch_removed := True\<rparr>)\<rparr>"
    using e fd by (simp add: dis channel_destroy_def channel_remove_def removeChannel_def Channel_new_def
        set_object_def Let_def)
  show "om_get (lr_channels s1) = (om_get (lr_channels s))(fd \<mapsto> c)"
    "watched (lr_epoll s1) = (watched (lr_epoll s))(fd \<mapsto> kReadEvent)"
    "lr_channelCount s1 = lr_channelCount s + 1"
    using ch w1 by (simp_all add: s1 om_get_put)
  show "om_get (lr_channels (channel_destroy c (disableAll c s1))) = om_get (lr_channels s)"
    "watched (lr_epoll (channel_destroy c (disableAll c s1))) = watched (lr_epoll s)"
    "lr_channelCount (channel_destroy c (disableAll c s1)) = lr_channelCount s"
    "ch_removed (lr_objects (channel_destroy c (disableAll c s1)) c)"
    unfolding des using e w2 by (simp_all add: dis)
qed

text \<open>The acceptor from its constructor to its destructor.\<close>

lemma Acceptor_new_cases:
  assumes "Acceptor_new k ip port c s = (Inr (a, s1), tr)"
  shows "\<exists>n addr. nk_socket k = Inr n \<and> tr = listen_calls n addr port 128 \<and>
    a = \<lparr>ac_listenSocket = \<lparr>so_fd = int n\<rparr>, ac_channel = c, ac_port = port\<rparr> \<and>
    s1 = set_object c (Channel_new (int n)) s"
  using assms
  by (auto simp: Acceptor_new_def listenOn_cases split: sum.splits option.splits)

lemma acceptor_life:
  assumes v: "reg_valid s" and c: "\<And>fd. om_get (lr_channels s) fd \<noteq> Some c"
    and a: "Acceptor_new k ip port c s = (Inr (a, s1), tr)"
    and fd: "om_get (lr_channels s) (so_fd (ac_listenSocket a)) = None"
    and d: "acceptor_destroy a (acceptor_listen a s1) = (s2, tr2)"
  shows "watched (lr_epoll (acceptor_listen a s1)) (so_fd (ac_listenSocket a)) = Some kReadEvent"
    "om_get (lr_channels s2) = om_get (lr_channels s)" "watched (lr_epoll s2) = watched (lr_epoll s)"
    "closed_fds (tr @ tr2) = opened_fds (tr @ tr2)"
proof -
  obtain n addr where x: "tr = listen_calls n addr port 128"
    "a = \<lparr>ac_listenSocket = \<lparr>so_fd = int n\<rparr>, ac_channel = c, ac_port = port\<rparr>"
    "s1 = set_object c (Channel_new (int n)) s"
    using Acceptor_new_cases [OF a] by blast
  have "wanted s1 = wanted s" using c by (auto simp: wanted_def x fun_eq_iff map_option_case split: option.split)
  then have "reg_valid s1" using v c by (auto simp: reg_valid_def x)
  moreover have "om_get (lr_channels s1) (int n) = None" "lr_objects s1 c = Channel_new (int n)"
    using fd by (simp_all add: x)
  ultimately have l: "watched (lr_epoll (enableReading c s1)) = (watched (lr_epoll s1))(int n \<mapsto> kReadEvent)"
    "om_get (lr_channels (channel_destroy c (disableAll c (enableReading c s1)))) = om_get (lr_channels s1)"
    "watched (lr_epoll (channel_destroy c (disableAll c (enableReading c s1)))) = watched (lr_epoll s1)"
    using channel_life [of s1 "int n" c] by simp_all
  show "watched (lr_epoll (acceptor_listen a s1)) (so_fd (ac_listenSocket a)) = Some kReadEvent"
    using l(1) by (simp add: x(2) acceptor_listen_def)
  have s2: "s2 = channel_destroy c (disableAll c (enableReading c s1))" "tr2 = [CloseCall (int n)]"
    using d by (simp_all add: x(2) acceptor_destroy_def acceptor_listen_def closing_def socket_close_def)
  show "om_get (lr_channels s2) = om_get (lr_channels s)" "watched (lr_epoll s2) = watched (lr_epoll s)"
    using l by (simp_all add: s2 x)
  show "closed_fds (tr @ tr2) = opened_fds (tr @ tr2)"
    by (simp add: x s2 listen_calls_def)
qed

section \<open>The life of a loop\<close>

lemma loop_new_cases:
  "EventLoop_new k c objs =
     (case nk_epollCreate k of
        Inl e \<Rightarrow> (Inl (sysError k ''epoll_create1'' e), [])
      | Inr n \<Rightarrow>
          (case nk_eventfd k of
             Inl e \<Rightarrow> (Inl ''eventfd: failed to create wakeup fd'', [EpollCreateCall (int n), CloseCall (int n)])
           | Inr w \<Rightarrow>
               (Inr \<lparr>lo_epoll = \<lparr>so_fd = int n\<rparr>, lo_wakeup = \<lparr>so_fd = int w\<rparr>, lo_wakeupChannel = c,
                  lo_reg = enableReading c (set_object c (Channel_new (int w)) (loop_reg_new objs (nk_epollRefuses k)))\<rparr>,
                [EpollCreateCall (int n), EventfdCall (int w)])))"
  by (auto simp: EventLoop_new_def epoller_destroy_def epoller_new_def closing_new Socket_new_def closing_def socket_close_def
      split: sum.split)

lemma channel_remove_twice: "channel_remove c (channel_remove c s) = channel_remove c s"
  by (simp add: channel_remove_def removeChannel_def Let_def)

text \<open>
  A loop that nobody else registered with is taken down completely: one channel while it lives, the
  wake-up, none afterwards, and both descriptors closed. A constructor that throws leaks nothing.
\<close>

lemma loop_life:
  assumes n: "EventLoop_new k c objs = (Inr l, tr)" and d: "EventLoop_destroy l = (l', tr2)"
    and willing: "\<forall>n. \<not> nk_epollRefuses k n"
  shows "channelCount l = 1 \<and> watched (lr_epoll (lo_reg l)) (so_fd (lo_wakeup l)) = Some kReadEvent \<and>
    channelCount l' = 0 \<and> lr_channels (lo_reg l') = [] \<and> watched (lr_epoll (lo_reg l')) = Map.empty \<and>
    mset (closed_fds (tr @ tr2)) = mset (opened_fds (tr @ tr2))"
proof -
  obtain n w where x: "tr = [EpollCreateCall (int n), EventfdCall (int w)]"
    "l = \<lparr>lo_epoll = \<lparr>so_fd = int n\<rparr>, lo_wakeup = \<lparr>so_fd = int w\<rparr>, lo_wakeupChannel = c,
        lo_reg = enableReading c (set_object c (Channel_new (int w)) (loop_reg_new objs (nk_epollRefuses k)))\<rparr>"
    using n by (auto simp: loop_new_cases split: sum.splits)
  let ?n = "loop_reg_new objs (nk_epollRefuses k)"
  let ?s = "set_object c (Channel_new (int w)) ?n"
  have none: "om_get (lr_channels ?n) = Map.empty" "watched (lr_epoll ?n) = Map.empty" "lr_channelCount ?n = 0"
    by (simp_all add: loop_reg_new_def epoll_new_def watched_def om.get_empty fun_eq_iff)
  have "wanted ?s = wanted ?n" by (simp add: wanted_def none fun_eq_iff)
  then have "reg_valid ?s" using loop_reg_new_valid [OF willing, of objs] by (simp add: reg_valid_def none om_get_def)
  then have life: "watched (lr_epoll (enableReading c ?s)) = (watched (lr_epoll ?s))(int w \<mapsto> kReadEvent)"
    "lr_channelCount (enableReading c ?s) = 1"
    "om_get (lr_channels (channel_destroy c (disableAll c (enableReading c ?s)))) = Map.empty"
    "watched (lr_epoll (channel_destroy c (disableAll c (enableReading c ?s)))) = Map.empty"
    "lr_channelCount (channel_destroy c (disableAll c (enableReading c ?s))) = 0"
    using channel_life [of ?s "int w" c] by (simp_all add: none)
  have nil: "m = []" if "om_get m = Map.empty" for m :: "(int, 'b) omap"
  proof (cases m)
    case (Cons p ps)
    then have "om_get m (fst p) = Some (snd p)" by (cases p) (simp add: om_get_def)
    then show ?thesis using that by simp
  qed simp
  have l': "lo_reg l' = channel_destroy c (disableAll c (enableReading c ?s))"
    "tr2 = [CloseCall (int w), CloseCall (int n)]"
    using d by (simp_all add: x(2) EventLoop_destroy_def epoller_destroy_def Let_def channel_destroy_def channel_remove_twice
        closing_def socket_close_def split: prod.splits) auto
  show ?thesis
    using life nil [OF life(3)] by (simp add: x channelCount_def l')
qed

lemma loop_throw_closes:
  "EventLoop_new k c objs = (Inl msg, tr) \<Longrightarrow> closed_fds tr = opened_fds tr"
  by (auto simp: loop_new_cases split: sum.splits)

text \<open>One call of \<open>epoll_wait\<close> reports at most 1024 events; the rest wait for the next turn.\<close>

lemma epoller_wait_bound: "epoller_wait ready = (n, evs) \<Longrightarrow> length evs \<le> 1024 \<and> n \<le> 1024"
  by (auto simp: epoller_wait_def kMaxEvents_def split: sum.splits)

section \<open>The acceptor waits\<close>

lemma listen_blocking: "\<not> nonblocking (listen_calls n addr port backlog) (int n)"
  by (simp add: nonblocking_def flags_of_def listen_calls_def SOCK_STREAM_def O_NONBLOCK_def)

text \<open>
  C36: the callback of the acceptor does not come back. The listening socket is created blocking
  and nothing changes that; so, whatever connections are waiting when the acceptor's channel is
  readable, the callback hands over each of them and then waits in \<open>accept4\<close> for one more, unless
  an error other than an interruption ends the loop. Had \<open>setNonBlocking(true)\<close> been called, it
  would return.
\<close>

theorem acceptor_waits_in_accept:
  assumes "Acceptor_new k ip port c s = (Inr (a, s1), tr)" "interrupted_only rs"
    and "acceptor_handleRead tr True a rs = (passed, closed, errors, rest, waits)"
    and "setNonBlocking k True (Inr flags) setfl (ac_listenSocket a) = (None, tr2)"
    and "acceptor_handleRead (tr @ tr2) True a rs = (passed2, closed2, errors2, rest2, waits2)"
  shows "waits \<and> map fst passed = accepted_fds rs \<and> \<not> waits2 \<and> map fst passed2 = accepted_fds rs"
proof -
  obtain n addr where x: "tr = listen_calls n addr port 128" "so_fd (ac_listenSocket a) = int n"
    using Acceptor_new_cases [OF assms(1)] by auto
  have "tr2 = [SetFlagsCall (int n) (flags OR O_NONBLOCK)]"
    using assms(4) by (simp add: setNonBlocking_def x Let_def split: option.splits)
  moreover have "(flags OR O_NONBLOCK) AND O_NONBLOCK = O_NONBLOCK"
    by (rule bit_eqI) (auto simp: bit_and_iff bit_or_iff)
  then have "(flags OR O_NONBLOCK) AND O_NONBLOCK \<noteq> 0" by (simp add: O_NONBLOCK_def)
  ultimately have "nonblocking (tr @ tr2) (int n)" by (simp add: nonblocking_def flags_of_def)
  then show ?thesis
    using listen_blocking [of n addr port 128] accept_loop_waits accept_loop_passes_all [OF assms(2)] assms(2,3,5)
    unfolding acceptor_handleRead_def x by (metis fst_conv snd_conv)
qed

section \<open>Inputs\<close>

definition demo_kernel :: net_kernel where
  "demo_kernel = \<lparr>nk_socket = Inr 6, nk_epollCreate = Inr 4, nk_eventfd = Inr 5,
     nk_epollRefuses = \<lambda>_. False, nk_bind = \<lambda>_ _ _. None,
     nk_listen = \<lambda>_ _. None, nk_inetPton = \<lambda>_. None, nk_strerror = \<lambda>_. ''error''\<rparr>"

definition demo_acceptor :: acceptor where
  "demo_acceptor = \<lparr>ac_listenSocket = \<lparr>so_fd = 6\<rparr>, ac_channel = 1, ac_port = 8080\<rparr>"

theorem acceptor_waits_in_accept_witness:
  "snd (snd (snd (snd (acceptor_handleRead
     [SocketCall 6 SOCK_STREAM, SetReuseAddrCall 6 True, BindCall 6 0 8080, ListenCall 6 128] True demo_acceptor
     [Accepted 9 ''10.0.0.1'' 50000, AcceptErr 4]))))"
proof -
  let ?tr = "[SocketCall 6 SOCK_STREAM, SetReuseAddrCall 6 True, BindCall 6 0 8080, ListenCall 6 128]"
  let ?rs = "[Accepted 9 ''10.0.0.1'' 50000, AcceptErr 4]"
  have 1: "Acceptor_new demo_kernel [] 8080 1 (loop_reg_new (\<lambda>_. Channel_new 0) (\<lambda>_. False)) =
      (Inr (demo_acceptor, set_object 1 (Channel_new 6) (loop_reg_new (\<lambda>_. Channel_new 0) (\<lambda>_. False))), ?tr)"
    by (simp add: Acceptor_new_def listenOn_cases demo_kernel_def listen_address_def listen_calls_def
        demo_acceptor_def listen_port_def)
  have 2: "interrupted_only ?rs" by (simp add: interrupted_only_def aEINTR_def)
  have 3: "acceptor_handleRead ?tr True demo_acceptor ?rs = ([(9, ''10.0.0.1'', 50000)], [], 0, [], True)"
    by (simp add: acceptor_handleRead_def demo_acceptor_def nonblocking_def flags_of_def SOCK_STREAM_def
        O_NONBLOCK_def aEINTR_def aEAGAIN_def)
  have 4: "setNonBlocking demo_kernel True (Inr 2) (\<lambda>_. None) (ac_listenSocket demo_acceptor) =
      (None, [SetFlagsCall 6 (2 OR O_NONBLOCK)])"
    by (simp add: setNonBlocking_def demo_acceptor_def)
  have 5: "acceptor_handleRead (?tr @ [SetFlagsCall 6 (2 OR O_NONBLOCK)]) True demo_acceptor ?rs =
      ([(9, ''10.0.0.1'', 50000)], [], 0, [], False)"
    by (simp add: acceptor_handleRead_def demo_acceptor_def nonblocking_def flags_of_def SOCK_STREAM_def
        O_NONBLOCK_def aEINTR_def aEAGAIN_def)
  show ?thesis using acceptor_waits_in_accept [OF 1 2 3 4 5] by (simp add: 3)
qed

end
