(* ===== verification/Server_Life.thy ===== *)
theory Server_Life
  imports Server_Main Descriptors_Props
begin

text \<open>
  The frame of \<open>main\<close> around the loop, as far as the base loop and the acceptor are concerned: in
  which order the two objects are made and destroyed, and the exceptions that end them. Also the
  answer a rejected client gets, and the end of the log.
\<close>

section \<open>The base loop and the acceptor\<close>

text \<open>
  The two locals of the \<open>try\<close> block that own descriptors of the main thread: the loop is the first
  one made, the acceptor the last. What happens between and inside is a parameter: \<open>setup\<close> says
  whether what is made between the two (the pools and their threads, timers, routes) throws, and
  \<open>serve\<close> what \<open>loop()\<close> and \<open>closeAll\<close> do to the registry of the loop, \<open>thrown\<close> whether an exception
  of a callback comes out of them. An exception destroys what exists, in reverse, and \<open>main\<close> returns 1;
  at the end the acceptor goes before the loop it is registered with. The loop of \<open>main\<close> is object
  0, the listening channel object 1. The trace holds the calls of these two objects only: accepted
  descriptors belong to their connections, those of the IO loops to the IO threads.
\<close>

definition base_life ::
  "net_kernel \<Rightarrow> server_options \<Rightarrow> (nat \<Rightarrow> channel) \<Rightarrow> bool \<Rightarrow> (loop_reg \<Rightarrow> loop_reg) \<Rightarrow> bool \<Rightarrow> int \<times> syscall list" where
  "base_life k opts objs setup serve thrown =
     (case EventLoop_new k 0 objs of
        (Inl e, tr) \<Rightarrow> (1, tr)
      | (Inr l, tr) \<Rightarrow>
          if setup then (case EventLoop_destroy l of (l', tr3) \<Rightarrow> (1, tr @ tr3))
          else (case Acceptor_new k ''0.0.0.0'' (op_port opts) 1 (lo_reg l) of
             (Inl e, tr2) \<Rightarrow>
               (case EventLoop_destroy l of (l', tr3) \<Rightarrow> (1, tr @ tr2 @ tr3))
           | (Inr (a, reg), tr2) \<Rightarrow>
               (case acceptor_destroy a (serve (acceptor_listen a reg)) of (reg', tr3) \<Rightarrow>
                  (case EventLoop_destroy (l\<lparr>lo_reg := reg'\<rparr>) of (l', tr4) \<Rightarrow>
                     (if thrown then 1 else 0, tr @ tr2 @ tr3 @ tr4)))))"

text \<open>Every call that the two objects need succeeds.\<close>

definition starts :: "net_kernel \<Rightarrow> server_options \<Rightarrow> bool" where
  "starts k opts \<longleftrightarrow> (\<exists>n w s. nk_epollCreate k = Inr n \<and> nk_eventfd k = Inr w \<and> nk_socket k = Inr s \<and>
     nk_bind k (int s) 0 (listen_port (op_port opts)) = None \<and> nk_listen k (int s) 128 = None)"

lemma destroy_trace: "snd (EventLoop_destroy l) = closing (lo_wakeup l) @ closing (lo_epoll l)"
  by (simp add: EventLoop_destroy_def epoller_destroy_def Let_def)

text \<open>
  C37: the main thread's own three descriptors. Wherever the set-up fails, and however the server
  runs in between, the base loop and the acceptor close exactly the descriptors they opened (the
  poller's, the wake-up descriptor and the listening socket), each once and in the reverse order; and
  \<open>main\<close> leaves the \<open>try\<close> block normally exactly if the kernel granted all three, nothing between
  threw and no exception came out of the loop. That the run itself ends is not part of this (see C25
  and C35), nor are the descriptors of connections (C30) and of the IO loops.
\<close>

theorem base_descriptors_closed:
  "case base_life k opts objs setup serve thrown of (code, tr) \<Rightarrow>
     closed_fds tr = rev (opened_fds tr) \<and>
     code = (if starts k opts \<and> \<not> setup \<and> \<not> thrown then 0 else 1)"
proof (cases "EventLoop_new k 0 objs")
  case (Pair r tr)
  show ?thesis
  proof (cases r)
    case (Inl e)
    then show ?thesis using Pair
      by (auto simp: base_life_def starts_def loop_new_cases split: sum.splits)
  next
    case (Inr l)
    then obtain n w where l: "nk_epollCreate k = Inr n" "nk_eventfd k = Inr w"
      "tr = [EpollCreateCall (int n), EventfdCall (int w)]"
      "lo_epoll l = \<lparr>so_fd = int n\<rparr>" "lo_wakeup l = \<lparr>so_fd = int w\<rparr>"
      using Pair by (auto simp: loop_new_cases split: sum.splits)
    have d: "snd (EventLoop_destroy (l\<lparr>lo_reg := x\<rparr>)) = [CloseCall (int w), CloseCall (int n)]"
      "snd (EventLoop_destroy l) = [CloseCall (int w), CloseCall (int n)]" for x
      by (simp_all add: destroy_trace l closing_def socket_close_def)
    have a: "listen_address k ''0.0.0.0'' = Some 0" by (simp add: listen_address_def)
    show ?thesis
      unfolding base_life_def Pair Inr Acceptor_new_def listenOn_cases a starts_def l(1,2)
      using d l(3)
      by (auto simp: listen_calls_def acceptor_destroy_def closing_def socket_close_def case_prod_beta
          numeral_3_eq_3 split: sum.split option.split)
  qed
qed

section \<open>The refusal\<close>

text \<open>What the accept callback writes to a client over the limit before it closes the descriptor.\<close>

definition rejection_bytes :: "string \<Rightarrow> string" where
  "rejection_bytes date = serialize date True serviceUnavailable"

section \<open>The last lines\<close>

text \<open>
  After the \<open>try\<close> block: one line, \<open>Logger::flush\<close>, and the stop of the backend, which nobody can
  reach any more after it. The second component is the backend, to be joined.
\<close>

definition main_end :: "string \<Rightarrow> log_level \<Rightarrow> log_target \<Rightarrow> log_target \<times> async_log option" where
  "main_end line level g =
     (let g1 = (if level \<le> kInfo then Logger_output line g else g);
          g2 = Logger_flush g1 in
      (g2\<lparr>lg_async := None\<rparr>, map_option al_stop (lg_async g2)))"

text \<open>
  The backend that is joined has accepted everything it had before and the last line, and it has
  been told to stop; so by \<open>Log_Pipeline\<close> its thread ends with all of it on the disk.
\<close>

lemma main_end_backend:
  assumes "lg_custom g" "lg_async g = Some l" "al_current l = Some b" "level \<le> kInfo"
    and "length line < fixed_avail b"
  shows "\<exists>m. snd (main_end line level g) = Some m \<and> al_accepted m = al_accepted l @ line \<and>
    \<not> al_running m \<and> al_pc m = al_pc l"
  using assms
  by (auto simp: main_end_def Logger_output_def Logger_flush_def logOutput_def logFlush_def al_append_def
      al_flush_def al_stop_def Let_def)

end
