(* ===== verification/Thread_Pool.thy ===== *)
theory Thread_Pool
  imports Prelude "HOL-Library.Multiset"
begin

text \<open>
  \<open>thread/ThreadPool\<close> as a transition system: one step is one critical section of a worker or of a
  caller, or the end of a task. A task may throw; the worker catches it and goes on. The history
  records which tasks were submitted, which were started, in order, and which have ended.
\<close>

section \<open>States and steps\<close>

datatype 'a worker = Looping | Executing 'a | Exited

record 'a thread_pool =
  tp_threadCount :: nat
  tp_running :: bool
  tp_tasks :: "'a list"
  tp_workers :: "'a worker list"
  tp_submitted :: "'a list"
  tp_started :: "'a list"
  tp_ended :: "'a list"
  tp_errors :: nat

definition ThreadPool_new :: "nat \<Rightarrow> 'a thread_pool" where
  "ThreadPool_new n = \<lparr>tp_threadCount = n, tp_running = False, tp_tasks = [], tp_workers = [],
     tp_submitted = [], tp_started = [], tp_ended = [], tp_errors = 0\<rparr>"

definition tp_start :: "'a thread_pool \<Rightarrow> 'a thread_pool" where
  "tp_start p = (if tp_running p then p
     else p\<lparr>tp_running := True, tp_workers := tp_workers p @ replicate (tp_threadCount p) Looping\<rparr>)"

text \<open>\<open>submit\<close>; \<^term>\<open>None\<close> is the \<open>runtime_error\<close> of a pool that is not running.\<close>

definition tp_submit :: "'a \<Rightarrow> 'a thread_pool \<Rightarrow> 'a thread_pool option" where
  "tp_submit t p = (if \<not> tp_running p then None
     else Some (p\<lparr>tp_tasks := tp_tasks p @ [t], tp_submitted := tp_submitted p @ [t]\<rparr>))"

definition pendingTasks :: "'a thread_pool \<Rightarrow> nat" where
  "pendingTasks p = length (tp_tasks p)"

text \<open>The first half of \<open>stop\<close>; the second waits for the workers and clears them.\<close>

definition tp_stop :: "'a thread_pool \<Rightarrow> 'a thread_pool" where
  "tp_stop p = p\<lparr>tp_running := False\<rparr>"

definition tp_join :: "'a thread_pool \<Rightarrow> 'a thread_pool" where
  "tp_join p = p\<lparr>tp_workers := []\<rparr>"

text \<open>The critical section of \<open>workerLoop\<close>: leave, take a task, or wait (\<^term>\<open>None\<close>).\<close>

definition worker_section :: "nat \<Rightarrow> 'a thread_pool \<Rightarrow> 'a thread_pool option" where
  "worker_section i p = (case tp_tasks p of
     [] \<Rightarrow> if tp_running p then None else Some (p\<lparr>tp_workers := (tp_workers p)[i := Exited]\<rparr>)
   | t # ts \<Rightarrow> Some (p\<lparr>tp_tasks := ts, tp_workers := (tp_workers p)[i := Executing t],
       tp_started := tp_started p @ [t]\<rparr>))"

definition worker_done :: "nat \<Rightarrow> 'a \<Rightarrow> bool \<Rightarrow> 'a thread_pool \<Rightarrow> 'a thread_pool" where
  "worker_done i t threw p = p\<lparr>tp_workers := (tp_workers p)[i := Looping], tp_ended := tp_ended p @ [t],
     tp_errors := tp_errors p + (if threw then 1 else 0)\<rparr>"

inductive tp_step :: "'a thread_pool \<Rightarrow> 'a thread_pool \<Rightarrow> bool" where
  launch: "tp_step p (tp_start p)"
| submit: "tp_submit t p = Some q \<Longrightarrow> tp_step p q"
| halt: "tp_step p (tp_stop p)"
| enter: "i < length (tp_workers p) \<Longrightarrow> tp_workers p ! i = Looping \<Longrightarrow> worker_section i p = Some q \<Longrightarrow> tp_step p q"
| finish: "i < length (tp_workers p) \<Longrightarrow> tp_workers p ! i = Executing t \<Longrightarrow> tp_step p (worker_done i t threw p)"
| join: "\<not> tp_running p \<Longrightarrow> list_all (\<lambda>w. w = Exited) (tp_workers p) \<Longrightarrow> tp_step p (tp_join p)"

inductive tp_reach :: "nat \<Rightarrow> 'a thread_pool \<Rightarrow> bool" for n where
  init: "tp_reach n (ThreadPool_new n)"
| step: "tp_reach n p \<Longrightarrow> tp_step p q \<Longrightarrow> tp_reach n q"

lemmas tp_ops = tp_start_def tp_submit_def tp_stop_def tp_join_def worker_section_def worker_done_def

section \<open>Invariants\<close>

text \<open>The tasks workers are executing.\<close>

definition executing :: "'a worker list \<Rightarrow> 'a list" where
  "executing ws = concat (map (\<lambda>w. case w of Executing t \<Rightarrow> [t] | _ \<Rightarrow> []) ws)"

lemma mset_executing_update:
  "i < length ws \<Longrightarrow> mset (executing (ws[i := w])) + mset (executing [ws ! i]) = mset (executing ws) + mset (executing [w])"
  by (induction ws arbitrary: i) (auto simp: executing_def split: nat.split)

lemma executing_exited: "list_all (\<lambda>w. w = Exited) ws \<Longrightarrow> executing ws = []"
  by (induction ws) (auto simp: executing_def)

text \<open>
  Tasks are started in the order of their submission; what is started has ended or is being
  executed; and while the pool runs or tasks wait there is a worker that has not left.
\<close>

definition pool_inv :: "'a thread_pool \<Rightarrow> bool" where
  "pool_inv p \<longleftrightarrow> tp_submitted p = tp_started p @ tp_tasks p \<and>
     mset (tp_started p) = mset (tp_ended p) + mset (executing (tp_workers p)) \<and>
     (tp_running p \<or> tp_tasks p \<noteq> [] \<longrightarrow> (\<exists>w \<in> set (tp_workers p). w \<noteq> Exited))"

lemma executing_simps [simp]:
  "executing [] = []" "executing [Looping] = []" "executing [Exited] = []" "executing [Executing t] = [t]"
  "executing (xs @ ys) = executing xs @ executing ys" "executing (replicate k Looping) = []"
  by (simp_all add: executing_def)

lemma tp_step_inv:
  "tp_step p q \<Longrightarrow> pool_inv p \<Longrightarrow> 0 < tp_threadCount p \<Longrightarrow> pool_inv q \<and> tp_threadCount q = tp_threadCount p"
proof (induction rule: tp_step.induct)
  case (launch p)
  then show ?case by (auto simp: pool_inv_def tp_start_def)
next
  case (submit t p q)
  then show ?case by (auto simp: pool_inv_def tp_submit_def split: if_splits)
next
  case (halt p)
  then show ?case by (auto simp: pool_inv_def tp_stop_def)
next
  case (enter i p q)
  note m = mset_executing_update [OF enter.hyps(1)]
  show ?case
  proof (cases "tp_tasks p")
    case Nil
    then show ?thesis using enter m [of Exited] by (auto simp: pool_inv_def worker_section_def split: if_splits)
  next
    case (Cons t ts)
    have "Executing t \<in> set ((tp_workers p)[i := Executing t])" using enter.hyps(1) by (rule set_update_memI)
    then show ?thesis using enter m [of "Executing t"] Cons by (auto simp: pool_inv_def worker_section_def)
  qed
next
  case (finish i p t threw)
  have "Looping \<in> set ((tp_workers p)[i := Looping])" using finish.hyps(1) by (rule set_update_memI)
  then show ?case using finish mset_executing_update [OF finish.hyps(1), of Looping]
    by (auto simp: pool_inv_def worker_done_def)
next
  case (join p)
  then show ?case by (auto simp: pool_inv_def tp_join_def executing_exited list_all_iff)
qed

lemma tp_reach_inv: "tp_reach n p \<Longrightarrow> 0 < n \<Longrightarrow> pool_inv p \<and> tp_threadCount p = n"
proof (induction rule: tp_reach.induct)
  case init
  show ?case by (simp add: pool_inv_def ThreadPool_new_def)
next
  case (step p q)
  then show ?case using tp_step_inv [of p q] by simp
qed

text \<open>
  C40: the worker pool runs every task once. In every reachable state of a pool with workers the
  tasks started so far are the first ones submitted, in order, and what has ended was started;
  and when the pool is stopped and all workers have left, no task is waiting and every submitted
  task has ended, whether it threw or not.
\<close>

theorem pool_runs_all_tasks:
  assumes "tp_reach n p" and "0 < n"
  shows "tp_submitted p = tp_started p @ tp_tasks p \<and> mset (tp_ended p) \<subseteq># mset (tp_started p) \<and>
    (\<not> tp_running p \<and> list_all (\<lambda>w. w = Exited) (tp_workers p) \<longrightarrow>
       tp_tasks p = [] \<and> mset (tp_ended p) = mset (tp_submitted p))"
proof -
  have i: "pool_inv p" using tp_reach_inv [OF assms] by simp
  have "tp_tasks p = [] \<and> mset (tp_ended p) = mset (tp_submitted p)"
    if e: "list_all (\<lambda>w. w = Exited) (tp_workers p)"
    using i executing_exited [OF e] e by (auto simp: pool_inv_def list_all_iff)
  with i show ?thesis by (auto simp: pool_inv_def)
qed

theorem pool_runs_all_tasks_witness:
  "\<exists>p :: nat thread_pool. tp_reach 1 p \<and> tp_workers p = [Executing 7] \<and> tp_submitted p = tp_started p @ tp_tasks p \<and>
     tp_submitted p = [7, 8]"
proof -
  let ?i = "ThreadPool_new 1 :: nat thread_pool"
  let ?a = "?i\<lparr>tp_running := True, tp_workers := [Looping]\<rparr>"
  let ?b = "?a\<lparr>tp_tasks := [7], tp_submitted := [7]\<rparr>"
  let ?c = "?a\<lparr>tp_tasks := [7, 8], tp_submitted := [7, 8]\<rparr>"
  let ?d = "?a\<lparr>tp_tasks := [8], tp_submitted := [7, 8], tp_workers := [Executing 7], tp_started := [7]\<rparr>"
  from tp_reach.step [OF tp_reach.init [of 1] launch] have "tp_reach 1 ?a" by (simp add: tp_start_def ThreadPool_new_def)
  from tp_reach.step [OF this submit [of 7 _ ?b]] have "tp_reach 1 ?b" by (simp add: tp_submit_def ThreadPool_new_def)
  from tp_reach.step [OF this submit [of 8 _ ?c]] have "tp_reach 1 ?c" by (simp add: tp_submit_def ThreadPool_new_def)
  from tp_reach.step [OF this enter [of 0 _ ?d]] have "tp_reach 1 ?d"
    by (simp add: worker_section_def ThreadPool_new_def)
  with pool_runs_all_tasks [OF this] show ?thesis by (intro exI [of _ ?d]) (simp add: ThreadPool_new_def)
qed

text \<open>A pool that was stopped refuses further tasks with an exception.\<close>

lemma submit_after_stop: "tp_submit t (tp_stop p) = None"
  by (simp add: tp_submit_def tp_stop_def)

end
