(* ===== verification/Log_Pipeline.thy ===== *)
theory Log_Pipeline
  imports Async_Logging
begin

text \<open>
  The log backend with its file: \<open>log/AsyncLogging\<close> writing through \<open>log/LogFile\<close>. The steps are
  those of \<open>Async_Logging\<close>; where the background thread writes, \<open>append\<close> of the log file runs, with
  whatever the clock, \<open>fopen\<close> and \<open>fwrite\<close> return. So the bytes that \<open>Async_Logging\<close> calls handed over
  are followed to the files the log was rolled through, and to the places where they can be lost.
\<close>

section \<open>States and steps\<close>

record log_pipe =
  pi_log :: async_log
  pi_file :: log_file

text \<open>The constructor opens the first file; it checks the clock every 1024 writes.\<close>

definition log_pipe_new :: "(int \<Rightarrow> string) \<Rightarrow> nat \<Rightarrow> rat \<Rightarrow> open_result \<Rightarrow> log_pipe" where
  "log_pipe_new mk rollSizeBytes flushIntervalSeconds r =
     \<lparr>pi_log = AsyncLogging_new, pi_file = LogFile_new mk rollSizeBytes flushIntervalSeconds 1024 r\<rparr>"

text \<open>One \<open>append\<close>: what its calls return, the bytes.\<close>

type_synonym file_write_call = "append_env \<times> string"

definition write_call :: "(int \<Rightarrow> string) \<Rightarrow> file_write_call \<Rightarrow> log_file \<Rightarrow> log_file" where
  "write_call mk c f = log_append mk (fst c) (snd c) f"

definition pipe_put :: "(int \<Rightarrow> string) \<Rightarrow> append_env \<Rightarrow> nat \<Rightarrow> log_pipe \<Rightarrow> log_pipe" where
  "pipe_put mk e k s =
     (let l = pi_log s; d = fb_data (al_toWrite l ! k) in
      s\<lparr>pi_log := l\<lparr>al_file := al_file l @ d, al_pc := Writing (Suc k)\<rparr>,
        pi_file := write_call mk (e, d) (pi_file s)\<rparr>)"

text \<open>After the writes the file is flushed, then the buffers are taken back.\<close>

definition pipe_reuse :: "log_pipe \<Rightarrow> log_pipe" where
  "pipe_reuse s = s\<lparr>pi_log := al_recycle (pi_log s), pi_file := log_flush (pi_file s)\<rparr>"

text \<open>The end of the thread: what is left is written under the lock, then the file is flushed.\<close>

definition drained :: "async_log \<Rightarrow> string list" where
  "drained l = map fb_data (al_buffers l) @ (case al_current l of Some b \<Rightarrow> [fb_data b] | None \<Rightarrow> [])"

definition pipe_drain :: "(int \<Rightarrow> string) \<Rightarrow> file_write_call list \<Rightarrow> log_pipe \<Rightarrow> log_pipe" where
  "pipe_drain mk cs s =
     s\<lparr>pi_log := al_drain (pi_log s), pi_file := log_flush (fold (write_call mk) cs (pi_file s))\<rparr>"

text \<open>The destructor: the thread has been joined; the log file closes itself.\<close>

definition pipe_destroy :: "log_pipe \<Rightarrow> log_pipe" where
  "pipe_destroy s = s\<lparr>pi_log := al_stop (pi_log s), pi_file := LogFile_destroy (pi_file s)\<rparr>"

text \<open>
  All other steps of the backend leave the file alone: they are those of the writers and the moves of
  the background thread between its writes.
\<close>

inductive pipe_step :: "(int \<Rightarrow> string) \<Rightarrow> log_pipe \<Rightarrow> log_pipe \<Rightarrow> bool" for mk where
  buffers: "al_step (pi_log s) l \<Longrightarrow> al_pc l = al_pc (pi_log s) \<or> al_pc (pi_log s) \<in> {NotStarted, Testing, Waiting} \<Longrightarrow>
    pipe_step mk s (s\<lparr>pi_log := l\<rparr>)"
| put: "al_pc (pi_log s) = Writing k \<Longrightarrow> k < length (al_toWrite (pi_log s)) \<Longrightarrow>
    pipe_step mk s (pipe_put mk e k s)"
| reuse: "al_pc (pi_log s) = Writing k \<Longrightarrow> k = length (al_toWrite (pi_log s)) \<Longrightarrow>
    pipe_step mk s (pipe_reuse s)"
| drain: "al_pc (pi_log s) = Draining \<Longrightarrow> map snd cs = drained (pi_log s) \<Longrightarrow>
    pipe_step mk s (pipe_drain mk cs s)"

inductive pipe_reach :: "(int \<Rightarrow> string) \<Rightarrow> log_pipe \<Rightarrow> bool" for mk where
  init: "pipe_reach mk (log_pipe_new mk rollSizeBytes interval r)"
| step: "pipe_reach mk s \<Longrightarrow> pipe_step mk s t \<Longrightarrow> pipe_reach mk t"

section \<open>What is handed over and what the files hold\<close>

text \<open>Every step of the pipeline is one of the backend.\<close>

lemma pipe_step_log: "pipe_step mk s t \<Longrightarrow> al_step (pi_log s) (pi_log t)"
  by (erule pipe_step.cases)
    (auto simp: pipe_put_def pipe_reuse_def pipe_drain_def Let_def intro: al_step.intros)

lemma pipe_reach_log: "pipe_reach mk s \<Longrightarrow> al_reach (pi_log s)"
proof (induction rule: pipe_reach.induct)
  case init
  show ?case by (simp add: log_pipe_new_def al_reach.init)
next
  case (step s t)
  then show ?case using pipe_step_log [OF step.hyps(2)] al_reach.step by auto
qed

definition pipe_inv :: "log_pipe \<Rightarrow> bool" where
  "pipe_inv s \<longleftrightarrow> log_ok (pi_file s) \<and> concat (map given (lf_trace (pi_file s))) = al_file (pi_log s)"

lemma log_flush_ok: "log_ok (log_flush f) = log_ok f" "lf_trace (log_flush f) = lf_trace f"
  "lf_file (log_flush f) = lf_file f"
  by (simp_all add: log_flush_def log_ok_def disk_text_def names_advance_def)

lemma write_calls_ok:
  "log_ok f \<Longrightarrow> log_ok (fold (write_call mk) cs f) \<and>
     concat (map given (lf_trace (fold (write_call mk) cs f))) = concat (map given (lf_trace f)) @ concat (map snd cs)"
proof (induction cs arbitrary: f)
  case (Cons c cs)
  from log_append_ok [OF Cons.prems, of mk "fst c" "snd c"] Cons.IH [of "write_call mk c f"]
  show ?case by (auto simp: write_call_def)
qed simp

lemma pipe_step_inv:
  assumes "pipe_step mk s t" "pipe_inv s"
  shows "pipe_inv t"
  using assms(1)
proof (cases rule: pipe_step.cases)
  case (buffers l)
  from buffers(2,3) have "al_file l = al_file (pi_log s)"
    by (cases rule: al_step.cases) (auto simp: al_ops Let_def case_prod_beta split: option.split)
  then show ?thesis using assms(2) buffers by (simp add: pipe_inv_def)
next
  case (put k e)
  then show ?thesis
    using write_calls_ok [of "pi_file s" mk "[(e, fb_data (al_toWrite (pi_log s) ! k))]"] assms(2)
    by (simp add: pipe_inv_def pipe_put_def Let_def)
next
  case (reuse k)
  then show ?thesis using assms(2)
    by (simp add: pipe_inv_def pipe_reuse_def log_flush_ok al_recycle_def Let_def case_prod_beta)
next
  case (drain cs)
  have "concat (map snd cs) = concat (map fb_data (al_buffers (pi_log s))) @
      (case al_current (pi_log s) of Some b \<Rightarrow> fb_data b | None \<Rightarrow> [])"
    unfolding drain(3) by (simp add: drained_def split: option.split)
  then show ?thesis
    using write_calls_ok [of "pi_file s" mk cs] drain assms(2)
    by (simp add: pipe_inv_def pipe_drain_def log_flush_ok al_drain_def)
qed

lemma pipe_reach_inv: "pipe_reach mk s \<Longrightarrow> pipe_inv s"
proof (induction rule: pipe_reach.induct)
  case (init rollSizeBytes interval r)
  then show ?case using LogFile_new_ok by (simp add: pipe_inv_def log_pipe_new_def AsyncLogging_new_def)
next
  case (step s t)
  then show ?case using pipe_step_inv by blast
qed

section \<open>The end of the background thread\<close>

text \<open>
  A step in which no writer takes part: nothing is accepted, started or stopped; and nothing is lost,
  if \<open>fopen\<close> and \<open>fwrite\<close> do what they are asked to.
\<close>

definition own_step :: "(int \<Rightarrow> string) \<Rightarrow> log_pipe \<Rightarrow> log_pipe \<Rightarrow> bool" where
  "own_step mk s t \<longleftrightarrow> pipe_step mk s t \<and> al_accepted (pi_log t) = al_accepted (pi_log s) \<and>
     al_running (pi_log t) = al_running (pi_log s) \<and>
     (log_ok (pi_file s) \<and> no_loss (lf_trace (pi_file s)) \<longrightarrow> no_loss (lf_trace (pi_file t)))"

definition willing_env :: "string \<Rightarrow> append_env" where
  "willing_env d = \<lparr>ae_open = (0, True), ae_fwrite = length d, ae_check = 0, ae_roll = (0, True)\<rparr>"

lemma willing_no_loss:
  "log_ok f \<Longrightarrow> no_loss (lf_trace f) \<Longrightarrow> no_loss (lf_trace (fold (write_call mk) (map (\<lambda>d. (willing_env d, d)) ds) f))"
proof (induction ds arbitrary: f)
  case (Cons d ds)
  from log_append_ok [OF Cons.prems(1), of mk "willing_env d" d] Cons.IH [of "log_append mk (willing_env d) d f"] Cons.prems(2)
  show ?case by (auto simp: write_call_def willing_env_def no_loss_def)
qed simp

definition ends :: "(int \<Rightarrow> string) \<Rightarrow> log_pipe \<Rightarrow> bool" where
  "ends mk s \<longleftrightarrow> (\<exists>t. rtranclp (own_step mk) s t \<and> al_pc (pi_log t) = Finished \<and> al_pending (pi_log t) = [])"

lemma ends_step: "own_step mk s t \<Longrightarrow> ends mk t \<Longrightarrow> ends mk s"
  unfolding ends_def using converse_rtranclp_into_rtranclp [of "own_step mk" s t] by blast

lemma ends_draining:
  assumes "al_pc (pi_log s) = Draining"
  shows "ends mk s"
proof -
  let ?cs = "map (\<lambda>d. (willing_env d, d)) (drained (pi_log s))"
  have "pipe_step mk s (pipe_drain mk ?cs s)"
    using assms by (intro pipe_step.drain) (simp_all add: comp_def)
  then have "own_step mk s (pipe_drain mk ?cs s)" 
    using willing_no_loss [of "pi_file s" mk "drained (pi_log s)"]
    by (simp add: own_step_def pipe_drain_def al_drain_def log_flush_ok)
  then show ?thesis
    unfolding ends_def by (intro exI [of _ "pipe_drain mk ?cs s"])
      (auto simp: pipe_drain_def al_drain_def al_pending_def)
qed

lemma ends_testing:
  assumes "al_pc (pi_log s) = Testing" "\<not> al_running (pi_log s)"
  shows "ends mk s"
proof -
  let ?t = "s\<lparr>pi_log := (pi_log s)\<lparr>al_pc := Draining\<rparr>\<rparr>"
  have "pipe_step mk s ?t" using assms al_step.leave [of "pi_log s"] by (intro pipe_step.buffers) simp_all
  then have "own_step mk s ?t" by (simp add: own_step_def)
  then show ?thesis using ends_draining [of ?t] by (auto intro: ends_step)
qed

lemma pipe_reuse_fields:
  "al_pc (pi_log (pipe_reuse s)) = Testing" "al_accepted (pi_log (pipe_reuse s)) = al_accepted (pi_log s)"
  "al_running (pi_log (pipe_reuse s)) = al_running (pi_log s)"
  "lf_trace (pi_file (pipe_reuse s)) = lf_trace (pi_file s)"
  by (simp_all add: log_flush_ok pipe_reuse_def al_recycle_def Let_def case_prod_beta)

lemma ends_writing:
  assumes "al_pc (pi_log s) = Writing k" "k \<le> length (al_toWrite (pi_log s))" "\<not> al_running (pi_log s)"
  shows "ends mk s"
  using assms
proof (induction "length (al_toWrite (pi_log s)) - k" arbitrary: s k)
  case 0
  then have "k = length (al_toWrite (pi_log s))" by simp
  with "0.prems"(1) have "pipe_step mk s (pipe_reuse s)" by (rule pipe_step.reuse)
  then have "own_step mk s (pipe_reuse s)" by (simp add: own_step_def pipe_reuse_fields)
  moreover have "ends mk (pipe_reuse s)" using "0.prems"(3) by (intro ends_testing) (simp_all add: pipe_reuse_fields)
  ultimately show ?case by (rule ends_step)
next
  case (Suc n)
  let ?d = "fb_data (al_toWrite (pi_log s) ! k)"
  have "own_step mk s (pipe_put mk (willing_env ?d) k s)"
    using pipe_step.put [of s k mk "willing_env ?d"] Suc willing_no_loss [of "pi_file s" mk "[?d]"]
    by (simp add: own_step_def pipe_put_def Let_def)
  moreover have "ends mk (pipe_put mk (willing_env ?d) k s)"
    using Suc.hyps(2) Suc.prems by (intro Suc.hyps(1) [of _ "Suc k"]) (simp_all add: pipe_put_def Let_def)
  ultimately show ?case by (rule ends_step)
qed

lemma ends_waiting:
  assumes "al_pc (pi_log s) = Waiting" "al_current (pi_log s) = Some b" "\<not> al_running (pi_log s)"
  shows "ends mk s"
proof -
  let ?t = "s\<lparr>pi_log := al_take b (pi_log s)\<rparr>"
  have "pipe_step mk s ?t" using assms al_step.exchange [of "pi_log s" b] by (intro pipe_step.buffers) simp_all
  then have "own_step mk s ?t" using assms
    by (simp add: own_step_def al_take_def Let_def case_prod_beta split: option.split)
  moreover have "ends mk ?t" using assms
    by (intro ends_writing [of _ 0]) (simp_all add: al_take_def Let_def case_prod_beta split: option.split)
  ultimately show ?thesis by (rule ends_step)
qed

lemma writing_bound: "al_reach l \<Longrightarrow> al_pc l = Writing k \<Longrightarrow> k \<le> length (al_toWrite l)"
proof (induction arbitrary: k rule: al_reach.induct)
  case init
  then show ?case by (simp add: AsyncLogging_new_def)
next
  case (step l m)
  from step.hyps(2) show ?case using step.IH step.prems
    by cases (auto simp: al_ops Let_def case_prod_beta split: option.splits if_splits)
qed

text \<open>
  C39: the log up to the disk. Whatever the clock, \<open>fopen\<close> and \<open>fwrite\<close> return, at every moment of any
  interleaving the accepted lines are the bytes given to \<open>append\<close> of the log file followed by what the
  buffers hold; and every file holds, in order, exactly what \<open>fwrite\<close> took of the pieces written
  while its name was open. Bytes are lost in two places only: a piece that comes while no file can be
  opened is dropped, and of a piece that \<open>fwrite\<close> takes only in part the rest is. If neither has
  happened and no file name has come back after another (as it can when the clock is put back), the
  files in the order of their creation followed by the buffers are exactly the accepted lines. Once
  stop has been called, the background thread can always run to its end without help, everything
  accepted is then given to the log file, and nothing of it is lost if \<open>fopen\<close> and \<open>fwrite\<close> do
  what they are asked to.
\<close>

theorem log_reaches_disk:
  assumes "pipe_reach mk s"
  shows "al_accepted (pi_log s) = concat (map given (lf_trace (pi_file s))) @ al_pending (pi_log s) \<and>
    (\<forall>nm. file_content nm (lf_disk (pi_file s)) = concat (map kept_bytes (filter (to_file nm) (lf_trace (pi_file s))))) \<and>
    (no_loss (lf_trace (pi_file s)) \<and> names_advance (pi_file s) \<longrightarrow>
       al_accepted (pi_log s) = disk_text (pi_file s) @ al_pending (pi_log s)) \<and>
    (\<not> al_running (pi_log s) \<and> al_pc (pi_log s) \<notin> {NotStarted, Finished} \<longrightarrow>
       (\<exists>t. rtranclp (own_step mk) s t \<and> al_pc (pi_log t) = Finished \<and>
          concat (map given (lf_trace (pi_file t))) = al_accepted (pi_log s) \<and>
          (no_loss (lf_trace (pi_file s)) \<longrightarrow> no_loss (lf_trace (pi_file t)))))"
proof (intro conjI impI)
  have eq: "al_accepted (pi_log u) = concat (map given (lf_trace (pi_file u))) @ al_pending (pi_log u)"
    if "pipe_reach mk u" for u
    using pipe_reach_inv [OF that] al_reach_inv [OF pipe_reach_log [OF that]]
    by (simp add: pipe_inv_def al_inv_def)
  then show "al_accepted (pi_log s) = concat (map given (lf_trace (pi_file s))) @ al_pending (pi_log s)"
    using assms .
  have ok: "log_ok (pi_file s)" using pipe_reach_inv [OF assms] by (simp add: pipe_inv_def)
  then show "\<forall>nm. file_content nm (lf_disk (pi_file s)) =
      concat (map kept_bytes (filter (to_file nm) (lf_trace (pi_file s))))" by (simp add: log_ok_def)
  show "al_accepted (pi_log s) = disk_text (pi_file s) @ al_pending (pi_log s)"
    if l: "no_loss (lf_trace (pi_file s)) \<and> names_advance (pi_file s)"
  proof -
    have "map kept_bytes (lf_trace (pi_file s)) = map given (lf_trace (pi_file s))"
      using l by (auto simp: no_loss_def list_all_iff)
    moreover have "disk_text (pi_file s) = concat (map kept_bytes (lf_trace (pi_file s)))"
      using ok l by (simp add: log_ok_def)
    ultimately show ?thesis using eq [OF assms] by (simp only:)
  qed
  assume r: "\<not> al_running (pi_log s) \<and> al_pc (pi_log s) \<notin> {NotStarted, Finished}"
  have "ends mk s"
  proof (cases "al_pc (pi_log s)")
    case Waiting
    then obtain b where "al_current (pi_log s) = Some b"
      using al_reach_inv [OF pipe_reach_log [OF assms]] by (auto simp: al_inv_def)
    then show ?thesis using ends_waiting Waiting r by blast
  next
    case (Writing k)
    then show ?thesis using ends_writing writing_bound [OF pipe_reach_log [OF assms]] r by blast
  qed (use r ends_testing ends_draining in auto)
  then obtain t where t: "rtranclp (own_step mk) s t" "al_pc (pi_log t) = Finished" "al_pending (pi_log t) = []"
    by (auto simp: ends_def)
  from t(1) have "pipe_reach mk t \<and> al_accepted (pi_log t) = al_accepted (pi_log s) \<and>
      (no_loss (lf_trace (pi_file s)) \<longrightarrow> no_loss (lf_trace (pi_file t)))"
  proof (induction rule: rtranclp_induct)
    case (step u v)
    then have "log_ok (pi_file u)" using pipe_reach_inv by (auto simp: pipe_inv_def)
    then show ?case using step by (auto simp: own_step_def intro: pipe_reach.step)
  qed (use assms in simp)
  then have "concat (map given (lf_trace (pi_file t))) = al_accepted (pi_log s) \<and>
      (no_loss (lf_trace (pi_file s)) \<longrightarrow> no_loss (lf_trace (pi_file t)))" using eq [of t] t(3) by simp
  then show "\<exists>t. rtranclp (own_step mk) s t \<and> al_pc (pi_log t) = Finished \<and>
      concat (map given (lf_trace (pi_file t))) = al_accepted (pi_log s) \<and>
      (no_loss (lf_trace (pi_file s)) \<longrightarrow> no_loss (lf_trace (pi_file t)))" using t(1,2) by blast
qed

text \<open>
  The two losses, on a pipeline whose only line is just being written: \<open>fwrite\<close> takes two bytes, or
  the file cannot be opened.
\<close>

lemma lost_bytes:
  "lf_file f = Some nm \<Longrightarrow> ae_fwrite e = 2 \<Longrightarrow> \<exists>x. lf_trace (log_append mk e ''hello'' f) = lf_trace f @ [x] \<and> kept_bytes x = ''he''"
  "lf_file f = None \<Longrightarrow> \<not> snd (ae_open e) \<Longrightarrow> lf_disk (log_append mk e d f) = lf_disk f"
  by (auto simp: log_append_def log_write_def rollFileLocked_def kept_bytes_def Let_def case_prod_beta)

text \<open>A backend that was started, given one line, and stopped before its thread did anything.\<close>

definition demo_names :: "int \<Rightarrow> string" where
  "demo_names = makeFileName string_of_int 12345 ''logs/server''"

definition demo_pipe :: log_pipe where
  "demo_pipe = (log_pipe_new demo_names 4096 3 (0, True))
     \<lparr>pi_log := al_stop (al_append ''hello'' (al_start AsyncLogging_new))\<rparr>"

lemma demo_pipe_reach: "pipe_reach demo_names demo_pipe"
proof -
  let ?n = "log_pipe_new demo_names 4096 3 (0, True)"
  let ?a = "al_start AsyncLogging_new"
  have pcs: "al_pc AsyncLogging_new = NotStarted" "al_pc ?a = Testing"
    "al_pc (al_append ''hello'' ?a) = Testing"
    "al_pc (al_stop (al_append ''hello'' ?a)) = Testing"
    by (simp_all add: AsyncLogging_new_def al_start_def al_append_def al_stop_def Let_def)
  have "pipe_reach demo_names ?n" by (rule pipe_reach.init)
  from pipe_reach.step [OF this pipe_step.buffers [of ?n ?a]]
  have "pipe_reach demo_names (?n\<lparr>pi_log := ?a\<rparr>)"
    using pcs by (simp add: log_pipe_new_def al_step.launch)
  from pipe_reach.step [OF this pipe_step.buffers [of _ "al_append ''hello'' ?a"]]
  have "pipe_reach demo_names (?n\<lparr>pi_log := al_append ''hello'' ?a\<rparr>)"
    using pcs by (simp add: al_step.append)
  from pipe_reach.step [OF this pipe_step.buffers [of _ "al_stop (al_append ''hello'' ?a)"]]
  show ?thesis using pcs by (simp add: demo_pipe_def al_step.halt)
qed

theorem log_reaches_disk_witness:
  "\<exists>t. rtranclp (own_step demo_names) demo_pipe t \<and> al_pc (pi_log t) = Finished \<and>
     concat (map given (lf_trace (pi_file t))) = ''hello'' \<and> no_loss (lf_trace (pi_file t))"
proof -
  have "al_accepted (pi_log demo_pipe) = ''hello''" "\<not> al_running (pi_log demo_pipe)"
    "al_pc (pi_log demo_pipe) = Testing"
    by (simp_all add: demo_pipe_def al_stop_def al_append_def al_start_def AsyncLogging_new_def Let_def
        large_new_def fixed_new_def fixed_avail_def kLargeBuffer_def)
  moreover have "no_loss (lf_trace (pi_file demo_pipe))"
    by (simp add: demo_pipe_def log_pipe_new_def LogFile_new_ok no_loss_def)
  ultimately show ?thesis 
    using conjunct2 [OF conjunct2 [OF conjunct2 [OF log_reaches_disk [OF demo_pipe_reach]]]] by simp
qed

end
