(* ===== verification/File_Bodies.thy ===== *)
theory File_Bodies
  imports Server Tcp_Connection_Props
begin

text \<open>
  Who closes the file of a zero-copy response. A \<open>FileBody\<close> (\<open>util/FileBody.h\<close>) is held through
  shared pointers: by the response that \<open>Router::serveFileBody\<close> made, and by the connection that is
  sending it (\<open>pendingFile_\<close>). Its destructor closes the descriptor when the last of them lets go.
  The model is a table of connections, the responses that hold a file and have not been answered
  yet, and the kernel's open descriptors, whose numbers are used again after a close. An observer
  records what was handed to each connection and counts the closes of descriptors that are not open.
\<close>

section \<open>Descriptors and shared ownership\<close>

record file_kernel =
  fk_open :: "int list"
  fk_files :: "int \<Rightarrow> string"
  fk_badCloses :: nat

definition fk_close :: "int \<Rightarrow> file_kernel \<Rightarrow> file_kernel" where
  "fk_close fd k =
     (if fd \<in> set (fk_open k) then k\<lparr>fk_open := remove1 fd (fk_open k)\<rparr>
      else k\<lparr>fk_badCloses := fk_badCloses k + 1\<rparr>)"

definition FileBody_destroy :: "file_body \<Rightarrow> file_kernel \<Rightarrow> file_kernel" where
  "FileBody_destroy f k = (if 0 \<le> fb_fd f then fk_close (fb_fd f) k else k)"

text \<open>
  A shared pointer lets go; \<open>holders\<close> are the pointers that may still refer to the same body. Two
  bodies in use at the same time have different descriptors, so they are told apart by them.
\<close>

definition release :: "file_body option \<Rightarrow> file_body option list \<Rightarrow> file_kernel \<Rightarrow> file_kernel" where
  "release old holders k =
     (case old of None \<Rightarrow> k
      | Some f \<Rightarrow> if Some f \<in> set holders then k else FileBody_destroy f k)"

section \<open>Connections and responses\<close>

record file_world =
  fw_conns :: "nat \<Rightarrow> conn option"
  fw_responses :: "file_body list"
  fw_kernel :: file_kernel
  fw_handed :: "nat \<Rightarrow> string"

definition file_world_new :: file_world where
  "file_world_new = \<lparr>fw_conns = (\<lambda>i. None), fw_responses = [],
     fw_kernel = \<lparr>fk_open = [], fk_files = (\<lambda>fd. []), fk_badCloses = 0\<rparr>, fw_handed = (\<lambda>i. [])\<rparr>"

text \<open>
  \<open>open\<close> in \<open>serveFileBody\<close>: a response with a body of its own. The kernel returns a number that is
  not open; a negative result makes no body. The length is the one \<open>stat\<close> gave, which the content
  need not have.
\<close>

definition open_body :: "int \<Rightarrow> string \<Rightarrow> nat \<Rightarrow> file_world \<Rightarrow> file_world" where
  "open_body fd content n w =
     (let k = fw_kernel w in
      if fd < 0 \<or> fd \<in> set (fk_open k) then w
      else w\<lparr>fw_responses := fw_responses w @ [\<lparr>fb_fd = fd, fb_offset = 0, fb_length = n\<rparr>],
             fw_kernel := k\<lparr>fk_open := fd # fk_open k, fk_files := (fk_files k)(fd := content)\<rparr>\<rparr>)"

text \<open>
  Connection \<open>i\<close> has been brought from \<open>c\<close> to \<open>c'\<close>, with the response that holds \<open>body\<close>, if any,
  destroyed at the end: first the connection's own pointer, then the one of the response.
\<close>

definition settle_conn ::
  "nat \<Rightarrow> conn \<Rightarrow> conn \<Rightarrow> file_body option \<Rightarrow> string \<Rightarrow> file_world \<Rightarrow> file_world" where
  "settle_conn i c c' body bytes w =
     w\<lparr>fw_conns := (fw_conns w)(i := Some c'),
       fw_kernel := release body [cn_pendingFile c']
         (release (cn_pendingFile c) [cn_pendingFile c', body] (fw_kernel w)),
       fw_handed := (fw_handed w)(i := fw_handed w i @ bytes)\<rparr>"

text \<open>What the lambda \<open>respond\<close> does to the connection with a response that has a file.\<close>

definition respond_file ::
  "(int \<Rightarrow> string) \<Rightarrow> string \<Rightarrow> bool \<Rightarrow> file_body \<Rightarrow> conn \<Rightarrow> io list \<Rightarrow> conn \<times> io list" where
  "respond_file files head headOnly f c rs =
     (case send head c rs of (c1, rs1) \<Rightarrow> if headOnly then (c1, rs1) else sendFile files f c1 rs1)"

text \<open>Response \<open>j\<close> is answered on connection \<open>i\<close>; the response dies with the call.\<close>

definition answer_file :: "nat \<Rightarrow> nat \<Rightarrow> string \<Rightarrow> bool \<Rightarrow> io list \<Rightarrow> file_world \<Rightarrow> file_world" where
  "answer_file i j head headOnly rs w =
     (case fw_conns w i of
        None \<Rightarrow> w
      | Some c \<Rightarrow>
          if j < length (fw_responses w) then
            let f = fw_responses w ! j; files = fk_files (fw_kernel w) in
            settle_conn i c (fst (respond_file files head headOnly f c rs)) (Some f)
              (head @ (if headOnly then [] else file_region files f))
              (w\<lparr>fw_responses := take j (fw_responses w) @ drop (Suc j) (fw_responses w)\<rparr>)
          else w)"

text \<open>A response is destroyed without being answered: the task that held it never runs.\<close>

definition drop_response :: "nat \<Rightarrow> file_world \<Rightarrow> file_world" where
  "drop_response j w =
     (if j < length (fw_responses w) then
        w\<lparr>fw_responses := take j (fw_responses w) @ drop (Suc j) (fw_responses w),
          fw_kernel := release (Some (fw_responses w ! j)) [] (fw_kernel w)\<rparr>
      else w)"

text \<open>Every other operation of a connection: bytes, a writable event, a half-close, a close.\<close>

definition conn_event :: "nat \<Rightarrow> conn_op \<times> io list \<Rightarrow> file_world \<Rightarrow> file_world" where
  "conn_event i x w =
     (case (fw_conns w i, fst x) of
        (None, _) \<Rightarrow> w
      | (Some c, OpFile f) \<Rightarrow> w
      | (Some c, _) \<Rightarrow>
          let files = fk_files (fw_kernel w) in
          settle_conn i c (conn_step files x c) None (op_bytes files x) w)"

text \<open>The destructor of a connection, open or closed: its members go with it.\<close>

definition destroy_conn :: "nat \<Rightarrow> file_world \<Rightarrow> file_world" where
  "destroy_conn i w =
     (case fw_conns w i of
        None \<Rightarrow> w
      | Some c \<Rightarrow> w\<lparr>fw_conns := (fw_conns w)(i := None), fw_handed := (fw_handed w)(i := []),
          fw_kernel := release (cn_pendingFile (conn_destroy c)) [] (fw_kernel w)\<rparr>)"

definition new_conn :: "nat \<Rightarrow> file_world \<Rightarrow> file_world" where
  "new_conn i w =
     (if fw_conns w i = None
      then w\<lparr>fw_conns := (fw_conns w)(i := Some (cn_start TcpConnection_new)),
             fw_handed := (fw_handed w)(i := [])\<rparr>
      else w)"

datatype file_event = NewConn nat | OpenBody int string nat | AnswerFile nat nat string bool "io list"
  | DropResponse nat | ConnEvent nat "conn_op \<times> io list" | DestroyConn nat

fun file_step :: "file_event \<Rightarrow> file_world \<Rightarrow> file_world" where
  "file_step (NewConn i) w = new_conn i w"
| "file_step (OpenBody fd content n) w = open_body fd content n w"
| "file_step (AnswerFile i j head headOnly rs) w = answer_file i j head headOnly rs w"
| "file_step (DropResponse j) w = drop_response j w"
| "file_step (ConnEvent i x) w = conn_event i x w"
| "file_step (DestroyConn i) w = destroy_conn i w"

definition file_history :: "file_event list \<Rightarrow> file_world" where
  "file_history evs = fold file_step evs file_world_new"

text \<open>The connection part of \<^const>\<open>respond\<close> is \<^const>\<open>respond_file\<close>.\<close>

lemma respond_is_respond_file:
  assumes "rs_fileBody response = Some f"
  shows "ss_conn (respond e headOnly True t response s) =
    fst (respond_file (se_files e)
      (serialize (se_date e (ss_readings s)) (\<not> headOnly) (setCloseConnection False response))
      headOnly f (ss_conn s) (ss_io s))"
  using assms
  by (simp add: respond_def respond_file_def on_conn_def on_metrics_def tick_def
      setCloseConnection_def Let_def split: prod.split)

end
