(* ===== verification/File_Bodies_Props.thy ===== *)
theory File_Bodies_Props
  imports File_Bodies
begin

text \<open>
  Shared ownership of file bodies: every open descriptor has exactly one owner in every reachable
  state, so none is closed twice and none is left open, and the bytes of a file go to the connection
  that asked for it although the kernel uses descriptor numbers again.
\<close>

section \<open>Owners\<close>

text \<open>
  The owners of a set of open descriptors: the numbers held by responses, and at most one number
  per connection. No number has two owners.
\<close>

definition exclusive :: "int set \<Rightarrow> (nat \<Rightarrow> int option) \<Rightarrow> int set \<Rightarrow> bool" where
  "exclusive F N S \<longleftrightarrow> S = F \<union> {fd. \<exists>i. N i = Some fd} \<and> (\<forall>i fd. N i = Some fd \<longrightarrow> fd \<notin> F) \<and>
     (\<forall>i j fd. N i = Some fd \<longrightarrow> N j = Some fd \<longrightarrow> i = j)"

lemma exclusive_drop: "exclusive (insert x F) N S \<Longrightarrow> x \<notin> F \<Longrightarrow> exclusive F N (S - {x})"
  unfolding exclusive_def by blast

lemma exclusive_clear: "exclusive F N S \<Longrightarrow> N i = Some x \<Longrightarrow> exclusive F (N(i := None)) (S - {x})"
  unfolding exclusive_def by (auto split: if_splits) (metis option.inject)

lemma exclusive_move: "exclusive (insert x F) N S \<Longrightarrow> x \<notin> F \<Longrightarrow> N i = None \<Longrightarrow> exclusive F (N(i := Some x)) S"
  unfolding exclusive_def by (auto split: if_splits) (metis option.distinct(1))

lemma exclusive_new: "exclusive F N S \<Longrightarrow> x \<notin> S \<Longrightarrow> exclusive (insert x F) N (insert x S)"
  unfolding exclusive_def by blast

definition owned :: "file_body list \<Rightarrow> (nat \<Rightarrow> file_body option) \<Rightarrow> file_kernel \<Rightarrow> bool" where
  "owned R P k \<longleftrightarrow> fk_badCloses k = 0 \<and> distinct (fk_open k) \<and> distinct (map fb_fd R) \<and>
     (\<forall>fd \<in> set (fk_open k). 0 \<le> fd) \<and>
     exclusive (fb_fd ` set R) (\<lambda>i. map_option fb_fd (P i)) (set (fk_open k))"

lemma owned_destroy:
  assumes "owned R P k" "fb_fd f \<in> set (fk_open k)"
  shows "fk_badCloses (FileBody_destroy f k) = 0" "distinct (fk_open (FileBody_destroy f k))"
    "set (fk_open (FileBody_destroy f k)) = set (fk_open k) - {fb_fd f}"
  using assms by (auto simp: owned_def FileBody_destroy_def fk_close_def)

lemma owned_upd: "(\<lambda>j. map_option fb_fd ((P(i := p)) j)) = (\<lambda>j. map_option fb_fd (P j))(i := map_option fb_fd p)"
  by auto

lemma owned_drop:
  assumes "owned (R1 @ f # R2) P k"
  shows "owned (R1 @ R2) P (FileBody_destroy f k)"
proof -
  have "fb_fd f \<in> set (fk_open k)" using assms by (simp add: owned_def exclusive_def)
  note d = owned_destroy [OF assms this]
  have "fb_fd f \<notin> fb_fd ` set (R1 @ R2)" using assms by (auto simp: owned_def)
  moreover have "fb_fd ` set (R1 @ f # R2) = insert (fb_fd f) (fb_fd ` set (R1 @ R2))" by auto
  ultimately show ?thesis using assms d exclusive_drop unfolding owned_def by auto
qed

lemma owned_clear:
  assumes "owned R P k" "P i = Some g"
  shows "owned R (P(i := None)) (FileBody_destroy g k)"
proof -
  have "fb_fd g \<in> set (fk_open k)" using assms by (auto simp: owned_def exclusive_def)
  note d = owned_destroy [OF assms(1) this]
  have "exclusive (fb_fd ` set R) (\<lambda>j. map_option fb_fd ((P(i := None)) j)) (set (fk_open k) - {fb_fd g})"
    unfolding owned_upd option.map
    by (rule exclusive_clear) (use assms in \<open>simp_all add: owned_def\<close>)
  then show ?thesis using assms(1) d unfolding owned_def by auto
qed

lemma owned_move:
  assumes "owned (R1 @ f # R2) P k" "P i = None"
  shows "owned (R1 @ R2) (P(i := Some f)) k"
proof -
  have "fb_fd f \<notin> fb_fd ` set (R1 @ R2)" using assms by (auto simp: owned_def)
  moreover have "insert (fb_fd f) (fb_fd ` set (R1 @ R2)) = fb_fd ` set (R1 @ f # R2)" by auto
  ultimately have "exclusive (fb_fd ` set (R1 @ R2)) (\<lambda>j. map_option fb_fd ((P(i := Some f)) j)) (set (fk_open k))"
    unfolding owned_upd option.map
    by (intro exclusive_move) (use assms in \<open>simp_all add: owned_def\<close>)
  then show ?thesis using assms unfolding owned_def by auto
qed

lemma owned_open:
  assumes "owned R P k" "0 \<le> fb_fd f" "fb_fd f \<notin> set (fk_open k)"
  shows "owned (R @ [f]) P (k\<lparr>fk_open := fb_fd f # fk_open k, fk_files := fs\<rparr>)"
  using assms exclusive_new [OF _ assms(3)] unfolding owned_def by (auto simp: exclusive_def)

text \<open>A change of a connection's pointer, with or without a response that goes away.\<close>

lemma owned_settle:
  assumes "owned (R1 @ f # R2) P k" "p' = None \<or> p' = P i \<or> p' = Some f"
  shows "owned (R1 @ R2) (P(i := p')) (release (Some f) [p'] (release (P i) [p', Some f] k))"
proof -
  have ne: "P i \<noteq> Some f" using assms(1) by (fastforce simp: owned_def exclusive_def)
  show ?thesis
  proof (cases "P i")
    case None
    then have "P(i := None) = P" by (simp add: fun_upd_idem)
    then show ?thesis
      using assms None owned_move [OF assms(1) None] owned_drop [OF assms(1)]
      by (auto simp: release_def)
  next
    case (Some g)
    note c = owned_clear [OF assms(1) Some]
    have "P(i := Some g) = P" using Some by (simp add: fun_upd_idem)
    then show ?thesis
      using assms Some ne c owned_drop [OF c] owned_drop [OF assms(1)] owned_move [OF c, where i = i]
      by (auto simp: release_def)
  qed
qed

lemma owned_settle_None:
  assumes "owned R P k" "p' = None \<or> p' = P i"
  shows "owned R (P(i := p')) (release None [p'] (release (P i) [p', None] k))"
  using assms owned_clear [OF assms(1)]
  by (cases "P i") (auto simp: release_def fun_upd_idem)

lemma release_files [simp]: "fk_files (release old hs k) = fk_files k"
  by (simp add: release_def FileBody_destroy_def fk_close_def split: option.split)

section \<open>What an answer does to the file of a connection\<close>

lemma respond_file_pending:
  "cn_pendingFile (fst (respond_file files head headOnly f c rs)) \<in> {None, cn_pendingFile c, Some f}"
proof -
  have 1: "lets_go c (fst (send head c rs))" by (rule lets_go_send)
  show ?thesis
    using 1 sendFile_pending [of "fst (send head c rs)" files f "snd (send head c rs)"]
    by (auto simp: respond_file_def lets_go_def split: prod.split)
qed

section \<open>Reachable states\<close>

definition fw_pending :: "file_world \<Rightarrow> nat \<Rightarrow> file_body option" where
  "fw_pending w i = (case fw_conns w i of None \<Rightarrow> None | Some c \<Rightarrow> cn_pendingFile c)"

definition conn_ok :: "(int \<Rightarrow> string) \<Rightarrow> string \<Rightarrow> conn \<Rightarrow> bool" where
  "conn_ok files handed c \<longleftrightarrow> conn_inv c \<and> (\<exists>rest. handed = cn_sent c @ rest) \<and>
     (\<not> cn_closed c \<longrightarrow> handed = out_stream files c)"

definition file_world_inv :: "file_world \<Rightarrow> bool" where
  "file_world_inv w \<longleftrightarrow> owned (fw_responses w) (fw_pending w) (fw_kernel w) \<and>
     (\<forall>i c. fw_conns w i = Some c \<longrightarrow> conn_ok (fk_files (fw_kernel w)) (fw_handed w i) c)"

lemma conn_ok_steps:
  assumes "conn_ok files h c"
  shows "conn_ok files (h @ concat (map (op_bytes files) xs)) (fold (conn_step files) xs c)"
proof -
  obtain rest where "h = cn_sent c @ rest" using assms by (auto simp: conn_ok_def)
  then show ?thesis
    using conn_run_props [of c h rest files xs] assms by (simp add: conn_ok_def)
qed

text \<open>\<^const>\<open>respond_file\<close> is one or two steps of the connection.\<close>

lemma respond_file_steps:
  "\<exists>xs. fst (respond_file files head headOnly f c rs) = fold (conn_step files) xs c \<and>
     concat (map (op_bytes files) xs) = head @ (if headOnly then [] else file_region files f)"
proof (cases headOnly)
  case True
  then show ?thesis
    by (intro exI [where x = "[(OpSend head, rs)]"])
      (simp add: respond_file_def conn_step_def op_bytes_def split: prod.split)
next
  case False
  then show ?thesis
    by (intro exI [where x = "[(OpSend head, rs), (OpFile f, snd (send head c rs))]"])
      (simp add: respond_file_def conn_step_def op_bytes_def split: prod.split)
qed

lemma fw_pending_put:
  "(\<lambda>j. case ((fw_conns w)(i := x)) j of None \<Rightarrow> None | Some c \<Rightarrow> cn_pendingFile c) =
     (fw_pending w)(i := (case x of None \<Rightarrow> None | Some c \<Rightarrow> cn_pendingFile c))"
  by (auto simp: fw_pending_def)

lemma fw_pending_of: "fw_conns w i = Some c \<Longrightarrow> fw_pending w i = cn_pendingFile c"
  by (simp add: fw_pending_def)

lemma settle_conn_inv:
  assumes o: "owned R' ((fw_pending w)(i := cn_pendingFile c'))
      (release body [cn_pendingFile c'] (release (cn_pendingFile c) [cn_pendingFile c', body] (fw_kernel w)))"
    and w: "\<forall>j d. fw_conns w j = Some d \<longrightarrow> conn_ok (fk_files (fw_kernel w)) (fw_handed w j) d"
    and c: "conn_ok (fk_files (fw_kernel w)) (fw_handed w i @ bytes) c'"
    and R: "fw_responses w = R'"
  shows "file_world_inv (settle_conn i c c' body bytes w)"
proof -
  have "fw_pending (settle_conn i c c' body bytes w) = (fw_pending w)(i := cn_pendingFile c')"
    by (rule ext) (simp add: fw_pending_def settle_conn_def)
  then show ?thesis using assms by (simp add: file_world_inv_def settle_conn_def)
qed

lemma list_split_nth: "j < length xs \<Longrightarrow> xs = take j xs @ xs ! j # drop (Suc j) xs"
  by (simp add: id_take_nth_drop)

lemma answer_file_inv:
  assumes "file_world_inv w"
  shows "file_world_inv (answer_file i j head headOnly rs w)"
proof (cases "\<exists>c. fw_conns w i = Some c \<and> j < length (fw_responses w)")
  case True
  then obtain c where c: "fw_conns w i = Some c" and j: "j < length (fw_responses w)" by blast
  let ?R = "take j (fw_responses w) @ drop (Suc j) (fw_responses w)"
  let ?f = "fw_responses w ! j" and ?files = "fk_files (fw_kernel w)"
  let ?c = "fst (respond_file ?files head headOnly ?f c rs)"
  let ?w = "w\<lparr>fw_responses := ?R\<rparr>"
  have ok: "conn_ok ?files (fw_handed w i) c" using assms c by (simp add: file_world_inv_def)
  obtain xs where xs: "?c = fold (conn_step ?files) xs c"
    "concat (map (op_bytes ?files) xs) = head @ (if headOnly then [] else file_region ?files ?f)"
    using respond_file_steps by blast
  have o: "owned (take j (fw_responses w) @ ?f # drop (Suc j) (fw_responses w)) (fw_pending w) (fw_kernel w)"
    using assms list_split_nth [OF j] by (simp add: file_world_inv_def)
  have p: "cn_pendingFile ?c = None \<or> cn_pendingFile ?c = fw_pending w i \<or> cn_pendingFile ?c = Some ?f"
    using respond_file_pending [of ?files head headOnly ?f c rs] c by (simp add: fw_pending_of)
  have "file_world_inv (settle_conn i c ?c (Some ?f) (head @ (if headOnly then [] else file_region ?files ?f)) ?w)"
  proof (rule settle_conn_inv [where R' = ?R])
    have "fw_pending ?w = fw_pending w" by (rule ext) (simp add: fw_pending_def)
    then show "owned ?R ((fw_pending ?w)(i := cn_pendingFile ?c)) (release (Some ?f) [cn_pendingFile ?c]
        (release (cn_pendingFile c) [cn_pendingFile ?c, Some ?f] (fw_kernel ?w)))"
      using owned_settle [OF o p] c by (simp add: fw_pending_of)
    show "conn_ok (fk_files (fw_kernel ?w))
        (fw_handed ?w i @ head @ (if headOnly then [] else file_region ?files ?f)) ?c"
      using conn_ok_steps [OF ok, of xs] unfolding xs by simp
  qed (use assms in \<open>simp_all add: file_world_inv_def\<close>)
  then show ?thesis using c j by (simp add: answer_file_def Let_def)
qed (use assms in \<open>auto simp: answer_file_def split: option.split\<close>)

lemma conn_event_inv:
  assumes "file_world_inv w"
  shows "file_world_inv (conn_event i x w)"
proof (cases "\<exists>c. fw_conns w i = Some c \<and> (\<forall>f. fst x \<noteq> OpFile f)")
  case True
  then obtain c where c: "fw_conns w i = Some c" and x: "\<forall>f. fst x \<noteq> OpFile f" by blast
  let ?files = "fk_files (fw_kernel w)"
  let ?c = "conn_step ?files x c"
  have ok: "conn_ok ?files (fw_handed w i) c" using assms c by (simp add: file_world_inv_def)
  have p: "cn_pendingFile ?c = None \<or> cn_pendingFile ?c = fw_pending w i"
    using conn_step_lets_go [OF x, of c ?files] c by (simp add: fw_pending_of lets_go_def)
  have "file_world_inv (settle_conn i c ?c None (op_bytes ?files x) w)"
  proof (rule settle_conn_inv [where R' = "fw_responses w"])
    show "owned (fw_responses w) ((fw_pending w)(i := cn_pendingFile ?c)) (release None [cn_pendingFile ?c]
        (release (cn_pendingFile c) [cn_pendingFile ?c, None] (fw_kernel w)))"
      using owned_settle_None [of _ "fw_pending w" _ "cn_pendingFile ?c" i] assms p c
      by (simp add: fw_pending_of file_world_inv_def)
    show "conn_ok ?files (fw_handed w i @ op_bytes ?files x) ?c"
      using conn_ok_steps [OF ok, of "[x]"] by simp
  qed (use assms in \<open>simp_all add: file_world_inv_def\<close>)
  then show ?thesis using c x by (auto simp: conn_event_def Let_def split: conn_op.split)
qed (use assms in \<open>auto simp: conn_event_def split: option.split conn_op.split\<close>)

lemma conn_ok_new: "conn_ok files [] (cn_start TcpConnection_new)"
  using TcpConnection_new_inv by (simp add: conn_ok_def)

lemma conn_ok_cong: "file_rest files' c = file_rest files c \<Longrightarrow> conn_ok files h c \<Longrightarrow> conn_ok files' h c"
  by (simp add: conn_ok_def out_stream_def backlog_def)

lemma open_body_inv:
  assumes "file_world_inv w"
  shows "file_world_inv (open_body fd content n w)"
proof (cases "fd < 0 \<or> fd \<in> set (fk_open (fw_kernel w))")
  case False
  let ?w = "open_body fd content n w"
  have p: "fw_pending ?w = fw_pending w"
    using False by (intro ext) (simp add: open_body_def fw_pending_def Let_def)
  have "owned (fw_responses ?w) (fw_pending ?w) (fw_kernel ?w)"
    using assms False owned_open [of "fw_responses w" "fw_pending w" "fw_kernel w" "\<lparr>fb_fd = fd, fb_offset = 0, fb_length = n\<rparr>"]
    unfolding p by (simp add: open_body_def file_world_inv_def Let_def)
  moreover have "conn_ok (fk_files (fw_kernel ?w)) (fw_handed ?w i) c" if c: "fw_conns ?w i = Some c" for i c
  proof -
    have c': "fw_conns w i = Some c" using c False by (simp add: open_body_def Let_def)
    have "fb_fd f \<noteq> fd" if "cn_pendingFile c = Some f" for f
    proof -
      have "fb_fd f \<in> set (fk_open (fw_kernel w))"
        using assms fw_pending_of [OF c'] that by (fastforce simp: file_world_inv_def owned_def exclusive_def)
      then show ?thesis using False by auto
    qed
    then have "file_rest ((fk_files (fw_kernel w))(fd := content)) c = file_rest (fk_files (fw_kernel w)) c"
      by (simp add: file_rest_def split: option.split)
    moreover have "conn_ok (fk_files (fw_kernel w)) (fw_handed w i) c"
      using assms c' by (simp add: file_world_inv_def)
    ultimately show ?thesis using conn_ok_cong False by (simp add: open_body_def Let_def)
  qed
  ultimately show ?thesis by (simp add: file_world_inv_def)
qed (use assms in \<open>auto simp: open_body_def\<close>)

lemma drop_response_inv:
  assumes "file_world_inv w"
  shows "file_world_inv (drop_response j w)"
proof (cases "j < length (fw_responses w)")
  case True
  let ?w = "drop_response j w"
  have p: "fw_pending ?w = fw_pending w"
    by (intro ext) (simp add: drop_response_def fw_pending_def)
  have "owned (take j (fw_responses w) @ fw_responses w ! j # drop (Suc j) (fw_responses w)) (fw_pending w) (fw_kernel w)"
    using assms list_split_nth [OF True] by (simp add: file_world_inv_def)
  from owned_drop [OF this] have "owned (fw_responses ?w) (fw_pending ?w) (fw_kernel ?w)"
    using True unfolding p by (simp add: drop_response_def release_def)
  then show ?thesis using assms True by (simp add: file_world_inv_def drop_response_def)
qed (use assms in \<open>simp add: drop_response_def\<close>)

lemma destroy_conn_inv:
  assumes "file_world_inv w"
  shows "file_world_inv (destroy_conn i w)"
proof (cases "fw_conns w i")
  case (Some c)
  let ?w = "destroy_conn i w"
  have d: "cn_pendingFile (conn_destroy c) = cn_pendingFile c" by (simp add: conn_destroy_def)
  have p: "fw_pending ?w = (fw_pending w)(i := None)"
    using Some by (intro ext) (simp add: destroy_conn_def fw_pending_def)
  have "owned (fw_responses w) ((fw_pending w)(i := None)) (release None [None]
      (release (fw_pending w i) [None, None] (fw_kernel w)))"
    using assms owned_settle_None by (simp add: file_world_inv_def)
  moreover have "release (fw_pending w i) [None, None] k = release (fw_pending w i) [] k" for k
    by (simp add: release_def split: option.split)
  ultimately have "owned (fw_responses ?w) (fw_pending ?w) (fw_kernel ?w)"
    using Some d unfolding p by (simp add: destroy_conn_def fw_pending_of release_def [of None])
  then show ?thesis using assms Some by (auto simp: file_world_inv_def destroy_conn_def)
qed (use assms in \<open>simp add: destroy_conn_def\<close>)

lemma new_conn_inv:
  assumes "file_world_inv w"
  shows "file_world_inv (new_conn i w)"
proof -
  have "fw_pending (new_conn i w) = fw_pending w"
    by (intro ext) (simp add: new_conn_def fw_pending_def cn_start_def TcpConnection_new_def)
  then show ?thesis using assms conn_ok_new by (auto simp: file_world_inv_def new_conn_def)
qed

lemma file_step_inv: "file_world_inv w \<Longrightarrow> file_world_inv (file_step ev w)"
  by (cases ev) (simp_all add: new_conn_inv open_body_inv answer_file_inv drop_response_inv
      conn_event_inv destroy_conn_inv)

lemma file_history_inv: "file_world_inv (file_history evs)"
proof -
  have "file_world_inv file_world_new"
    by (simp add: file_world_inv_def file_world_new_def owned_def exclusive_def fw_pending_def)
  moreover have "file_world_inv w \<Longrightarrow> file_world_inv (fold file_step evs w)" for w
    by (induction evs arbitrary: w) (simp_all add: file_step_inv)
  ultimately show ?thesis by (simp add: file_history_def)
qed

section \<open>One owner for every descriptor\<close>

datatype file_holder = ByResponse nat | ByConn nat

fun held_fd :: "file_world \<Rightarrow> file_holder \<Rightarrow> int option" where
  "held_fd w (ByResponse j) = (if j < length (fw_responses w) then Some (fb_fd (fw_responses w ! j)) else None)"
| "held_fd w (ByConn i) = map_option fb_fd (fw_pending w i)"

lemma held_fd_unique:
  assumes "file_world_inv w" "held_fd w h = Some fd" "held_fd w h' = Some fd"
  shows "h = h'"
proof -
  let ?R = "fw_responses w" and ?N = "\<lambda>i. map_option fb_fd (fw_pending w i)"
  have d: "distinct (map fb_fd ?R)" using assms(1) by (simp add: file_world_inv_def owned_def)
  have "exclusive (fb_fd ` set ?R) ?N (set (fk_open (fw_kernel w)))"
    using assms(1) by (simp add: file_world_inv_def owned_def)
  then have n: "?N i = Some fd \<Longrightarrow> fd \<notin> fb_fd ` set ?R" "?N i = Some fd \<Longrightarrow> ?N j = Some fd \<Longrightarrow> i = j" for i j
    unfolding exclusive_def by blast+
  have r: "j < length ?R \<and> fb_fd (?R ! j) = fd" "fd \<in> fb_fd ` set ?R"
    if "held_fd w (ByResponse j) = Some fd" for j
    using that by (auto split: if_splits)
  have u: "j = j'" if "held_fd w (ByResponse j) = Some fd" "held_fd w (ByResponse j') = Some fd" for j j'
    using r(1) [OF that(1)] r(1) [OF that(2)] nth_eq_iff_index_eq [OF d, of j j'] by simp
  show ?thesis
  proof (cases h)
    case (ByResponse j)
    then show ?thesis
    proof (cases h')
      case ByResponse': (ByResponse j')
      show ?thesis using u assms(2,3) unfolding ByResponse ByResponse' by blast
    next
      case (ByConn i)
      then show ?thesis using n(1) [of i] r(2) [of j] assms(2,3) ByResponse by simp
    qed
  next
    case (ByConn i)
    then show ?thesis
    proof (cases h')
      case (ByResponse j)
      then show ?thesis using n(1) [of i] r(2) [of j] assms(2,3) ByConn by simp
    next
      case ByConn': (ByConn i')
      then show ?thesis using n(2) [of i i'] assms(2,3) ByConn by simp
    qed
  qed
qed

lemma held_by_response: "(\<exists>j. held_fd w (ByResponse j) = Some fd) \<longleftrightarrow> fd \<in> fb_fd ` set (fw_responses w)"
proof
  assume "fd \<in> fb_fd ` set (fw_responses w)"
  then obtain f where "f \<in> set (fw_responses w)" "fd = fb_fd f" by blast
  then obtain j where "j < length (fw_responses w)" "fb_fd (fw_responses w ! j) = fd"
    by (metis in_set_conv_nth)
  then show "\<exists>j. held_fd w (ByResponse j) = Some fd" by (intro exI [of _ j]) simp
qed (auto split: if_splits)

lemma held_fd_open:
  assumes "file_world_inv w"
  shows "fd \<in> set (fk_open (fw_kernel w)) \<longleftrightarrow> (\<exists>h. held_fd w h = Some fd)"
proof -
  have "exclusive (fb_fd ` set (fw_responses w)) (\<lambda>i. map_option fb_fd (fw_pending w i))
      (set (fk_open (fw_kernel w)))"
    using assms by (simp add: file_world_inv_def owned_def)
  then have "fd \<in> set (fk_open (fw_kernel w)) \<longleftrightarrow>
      (\<exists>j. held_fd w (ByResponse j) = Some fd) \<or> (\<exists>i. held_fd w (ByConn i) = Some fd)"
    unfolding exclusive_def held_by_response held_fd.simps(2) by blast
  also have "\<dots> \<longleftrightarrow> (\<exists>h. held_fd w h = Some fd)"
  proof
    assume "\<exists>h. held_fd w h = Some fd"
    then obtain h where "held_fd w h = Some fd" by blast
    then show "(\<exists>j. held_fd w (ByResponse j) = Some fd) \<or> (\<exists>i. held_fd w (ByConn i) = Some fd)"
      by (cases h) (simp_all only:, blast+)
  qed blast
  finally show ?thesis .
qed

text \<open>
  C30: a file is closed exactly once, when nothing needs it any more. After any sequence of opened
  files, answers, dropped responses and operations, closes and destructions of connections, no
  descriptor has been closed that was not open, even though numbers are used again; a descriptor is
  open exactly if one response or one connection holds it, and never two; and a connection that is
  closed holds none.
\<close>

theorem file_descriptors_have_one_owner:
  "fk_badCloses (fw_kernel (file_history evs)) = 0 \<and>
   (fd \<in> set (fk_open (fw_kernel (file_history evs))) \<longleftrightarrow> (\<exists>!h. held_fd (file_history evs) h = Some fd)) \<and>
   (fd \<notin> set (fk_open (fw_kernel (file_history evs))) \<longleftrightarrow> (\<nexists>h. held_fd (file_history evs) h = Some fd)) \<and>
   (\<nexists>i c. fw_conns (file_history evs) i = Some c \<and> cn_closed c \<and> held_fd (file_history evs) (ByConn i) \<noteq> None)"
proof -
  note i = file_history_inv [of evs]
  have "fk_badCloses (fw_kernel (file_history evs)) = 0"
    using i by (simp add: file_world_inv_def owned_def)
  moreover have "\<nexists>j c. fw_conns (file_history evs) j = Some c \<and> cn_closed c \<and>
      held_fd (file_history evs) (ByConn j) \<noteq> None"
    using i by (auto simp: fw_pending_of file_world_inv_def conn_ok_def conn_inv_def)
  moreover have "(\<exists>h. held_fd (file_history evs) h = Some fd) \<longleftrightarrow> (\<exists>!h. held_fd (file_history evs) h = Some fd)"
    using held_fd_unique [OF i] by blast
  ultimately show ?thesis using held_fd_open [OF i, of fd] by simp
qed

text \<open>When the responses are gone and every connection is closed or destroyed, nothing is open.\<close>

lemma no_descriptor_left:
  assumes "fw_responses (file_history evs) = []"
    and "\<And>i c. fw_conns (file_history evs) i = Some c \<Longrightarrow> cn_closed c"
  shows "fk_open (fw_kernel (file_history evs)) = []"
proof -
  note i = file_history_inv [of evs]
  have "held_fd (file_history evs) h = None" for h
  proof (cases h)
    case (ByConn j)
    show ?thesis
    proof (cases "fw_conns (file_history evs) j")
      case (Some c)
      then have "cn_pendingFile c = None"
        using i assms(2) by (auto simp: file_world_inv_def conn_ok_def conn_inv_def)
      then show ?thesis using ByConn Some by (simp add: fw_pending_of)
    qed (simp add: ByConn fw_pending_def)
  qed (use assms(1) in simp)
  then have "fd \<notin> set (fk_open (fw_kernel (file_history evs)))" for fd
    using held_fd_open [OF i] by simp
  then show ?thesis by (meson last_in_set)
qed

text \<open>
  The bytes of a file go to the connection it was handed to: whatever the other connections do and
  whatever numbers the kernel gives to later files, a connection sends a prefix of what was handed
  to it, with the content each file had when it was opened, and holds the rest while it is open.
\<close>

lemma files_reach_their_connection:
  assumes "fw_conns (file_history evs) i = Some c"
  shows "\<exists>rest. fw_handed (file_history evs) i = cn_sent c @ rest \<and>
    (cn_closed c \<or> rest = backlog (fk_files (fw_kernel (file_history evs))) c)"
  using file_history_inv [of evs] assms
  by (fastforce simp: file_world_inv_def conn_ok_def out_stream_def)

text \<open>
  Two connections and one number: the file on descriptor 5 is sent on the first connection, its
  number goes to the next file, which waits on the second one.
\<close>

lemma descriptor_reuse_demo:
  fixes evs
  defines "evs \<equiv> [NewConn 0, NewConn 1, OpenBody 5 ''old'' 3, AnswerFile 0 0 ''h'' False [IoBytes 1, IoBytes 3],
    OpenBody 5 ''new'' 3, AnswerFile 1 0 ''k'' False [IoBytes 1]]"
  shows "fk_open (fw_kernel (file_history evs)) = [5]"
    "map_option cn_sent (fw_conns (file_history evs) 0) = Some ''hold''"
    "held_fd (file_history evs) (ByConn 1) = Some 5"
  unfolding evs_def by code_simp+

end
