(* ===== verification/Server_Download.thy ===== *)
theory Server_Download
  imports Server_Stream Router_Props Http_Date_Props
begin

text \<open>
  From a browser and back: a client that asks for files over one connection, writes its requests
  one after another and reads the answers by their announced lengths, gets the files. The parser,
  the limiter, the router, the two ways of sending a file and the connection of the other theories
  meet here, and the reader below knows nothing of the server.
\<close>

section \<open>The client's reader\<close>

definition content_length :: "string list \<Rightarrow> nat option" where
  "content_length ls = map_option (\<lambda>l. nat_of_digits (drop 16 l)) (find (starts_with ''Content-Length: '') ls)"

text \<open>One answer: the lines of the head, as many bytes as the head announces, and the rest.\<close>

definition read_response :: "string \<Rightarrow> ((string list \<times> string) \<times> string) option" where
  "read_response s = (case read_head s of
     None \<Rightarrow> None
   | Some (ls, r) \<Rightarrow> (case content_length ls of
       None \<Rightarrow> None
     | Some n \<Rightarrow> if n \<le> length r then Some ((ls, take n r), drop n r) else None))"

fun read_responses :: "nat \<Rightarrow> string \<Rightarrow> (string list \<times> string) list option" where
  "read_responses 0 s = Some []"
| "read_responses (Suc k) s = (case read_response s of
     None \<Rightarrow> None
   | Some (a, r) \<Rightarrow> map_option (Cons a) (read_responses k r))"

lemma read_response_lines:
  assumes "one_line date" "response_one_line r" "content_length (response_lines date r) = Some (length (rs_body r @ f))"
  shows "read_response (serialize date True r @ f @ t) = Some ((response_lines date r, rs_body r @ f), t)"
proof -
  have "read_head (serialize date True r @ f @ t) = Some (response_lines date r, rs_body r @ f @ t)"
    using read_head_lines [of "response_lines date r" "rs_body r @ f @ t"] response_lines_ok [OF assms(1,2)]
    by (simp add: serialize_lines)
  then show ?thesis using assms(3) by (simp add: read_response_def)
qed

section \<open>Heads without line ends\<close>

lemma one_line_parts [simp]:
  "one_line (a @ b) \<longleftrightarrow> one_line a \<and> one_line b" "one_line (c # b) \<longleftrightarrow> c \<noteq> CHR 0x0D \<and> one_line b" "one_line []"
  by (auto simp: one_line_def)

lemma one_line_nth: "list_all one_line xs \<Longrightarrow> i < length xs \<Longrightarrow> one_line (xs ! i)"
  by (simp add: list_all_length)

lemma formatHttpDate_one_line:
  assumes "0 \<le> t" "t < 2 ^ 55"
  shows "one_line (formatHttpDate t)"
proof -
  have p: "one_line (pad2 n)" if "n < 100" for n
    using digits_one_line pad2_digits [OF that] by blast
  have "one_line (dayNames ! tm_wday (utcTm t))" "one_line (kMonths ! tm_mon (utcTm t))"
    using utcTm_props(5,11) [OF assms] by (simp_all add: one_line_nth dayNames_def kMonths_def del: nth_Cons_numeral)
  then show ?thesis
    using p utcTm_props(7-10) [OF assms] by (simp add: formatHttpDate_def Let_def)
qed

lemma makeETag_one_line: "one_line (makeETag t s)"
  using makeETag_chars [of "CHR 0x0D" t s] by (auto simp: one_line_def hex_digit_def is_digit_def)

lemma contentTypeFor_one_line: "one_line (contentTypeFor path)"
  by (simp add: contentTypeFor_def Let_def)

section \<open>The answer to a request for a file\<close>

text \<open>
  The request is a plain GET, no route or proxy prefix takes its path, and the document root has a
  regular file of that name, which keeps its content while it is served.
\<close>

definition requests_file :: "server_env \<Rightarrow> http_request \<Rightarrow> string \<Rightarrow> bool" where
  "requests_file e q content \<longleftrightarrow>
     (let proxy = proxy_of_options (se_options e);
          path = (if rq_path q = ''/'' then ''/index.html'' else rq_path q);
          full = op_wwwRoot (se_options e) @ path in
      rq_method q = kGet \<and> isPathSafe (rq_path q) \<and> \<not> isManagement q \<and>
      \<not> (po_enabled proxy \<and> starts_with (po_prefix proxy) (rq_path q)) \<and>
      getHeader q ''If-None-Match'' = [] \<and> getHeader q ''If-Modified-Since'' = [] \<and>
      (case fs_stat (se_fs e) full of
         None \<Rightarrow> False
       | Some st \<Rightarrow> st_regular st \<and> st_size st = length content \<and> 0 \<le> st_mtime st \<and> st_mtime st < 2 ^ 55) \<and>
      fs_content (se_fs e) full = Some content \<and>
      0 \<le> fs_open (se_fs e) full \<and> se_files e (fs_open (se_fs e) full) = content)"

text \<open>What the client may get: the file, or the refusal of the limiter.\<close>

definition file_or_refusal :: "string \<Rightarrow> string list \<times> string \<Rightarrow> bool" where
  "file_or_refusal content a \<longleftrightarrow>
     fst a \<noteq> [] \<and> (hd (fst a) = ''HTTP/1.1 200 OK'' \<and> snd a = content \<or>
       hd (fst a) = ''HTTP/1.1 429 Too Many Requests'')"

lemma server_router_static:
  assumes "requests_file e q content"
  shows "handle (se_fs e) (server_router e k m) q ip =
    serveStaticFile (se_fs e) (server_router e k m) (if rq_path q = ''/'' then ''/index.html'' else rq_path q) q"
proof -
  have h: "om_get (rt_handlers (server_router e k m)) (rq_path q) = None"
    using assms
    by (auto simp: requests_file_def isManagement_def server_router_def registerHandler_def registerPrefixHandler_def
        setZeroCopyThreshold_def Router_new_def om_get_put om.get_empty Let_def)
  have "match_prefix (rq_path q) (rt_prefixHandlers (server_router e k m)) = None"
    using assms
    by (auto simp: requests_file_def server_router_def registerHandler_def registerPrefixHandler_def
        setZeroCopyThreshold_def Router_new_def om_empty_def Let_def)
  with h assms show ?thesis by (simp add: handle_def requests_file_def Let_def)
qed

lemma server_router_root: "rt_wwwRoot (server_router e k m) = op_wwwRoot (se_options e)"
  by (simp add: server_router_def registerHandler_def registerPrefixHandler_def setZeroCopyThreshold_def
      Router_new_def Let_def)

lemma content_length_simps [simp]:
  "content_length (l # ls) = (if starts_with ''Content-Length: '' l then Some (nat_of_digits (drop 16 l))
     else content_length ls)"
  by (simp add: content_length_def)

text \<open>A response of 200 with a file as \<^const>\<open>serveStaticFile\<close> makes it, its body in one of two places.\<close>

lemma static_response:
  fixes b :: bool
  assumes "fs_stat fs (rt_wwwRoot rt @ path) = Some st" "st_regular st" "st_size st = length content"
    and "0 \<le> st_mtime st" "st_mtime st < 2 ^ 55"
    and "fs_content fs (rt_wwwRoot rt @ path) = Some content" "0 \<le> fs_open fs (rt_wwwRoot rt @ path)"
    and "getHeader q ''If-None-Match'' = []" "getHeader q ''If-Modified-Since'' = []"
  defines "r \<equiv> setCloseConnection b (serveStaticFile fs rt path q)"
  shows "response_one_line r \<and> rs_statusCode r = 200 \<and> rs_statusMessage r = ''OK'' \<and>
    content_length (response_lines date r) = Some (length content) \<and>
    (rs_fileBody r = None \<and> rs_body r = content \<or>
     rs_fileBody r = Some \<lparr>fb_fd = fs_open fs (rt_wwwRoot rt @ path), fb_offset = 0, fb_length = length content\<rparr> \<and>
     rs_body r = [])"
proof -
  have m: "\<not> isNotModified q etag (st_mtime st)" for etag using assms(8,9) by (simp add: isNotModified_def)
  have o: "one_line (formatHttpDate (st_mtime st))" using assms(4,5) by (rule formatHttpDate_one_line)
  show ?thesis
  proof (cases "0 < rt_zeroCopyThreshold rt \<and> rt_zeroCopyThreshold rt \<le> length content")
    case True
    then show ?thesis
      using assms(1-7) m o makeETag_one_line contentTypeFor_one_line
      by (simp add: r_def serveStaticFile_def serveFileBody_def response_setters HttpResponse_new_def om_empty_def
          response_one_line_def response_lines_def starts_with_def Let_def)
  next
    case False
    then show ?thesis
      using assms(1-7) m o makeETag_one_line contentTypeFor_one_line
      by (auto simp add: r_def serveStaticFile_def read_body_def response_setters HttpResponse_new_def om_empty_def
          response_one_line_def response_lines_def starts_with_def om_get_def Let_def)
  qed
qed

lemma refusal_response:
  "response_one_line (setCloseConnection b (tooManyRequests 1))"
  "content_length (response_lines date (setCloseConnection b (tooManyRequests 1))) =
     Some (length (rs_body (setCloseConnection b (tooManyRequests 1))))"
  "rs_fileBody (tooManyRequests 1) = None"
  using tooManyRequests_one_line [of 1]
  by (simp_all add: tooManyRequests_def response_setters HttpResponse_new_def om_empty_def
      response_one_line_def response_lines_def starts_with_def om_get_def Let_def)

lemma status_texts [simp]: "string_of_int 200 = ''200''" "string_of_int 429 = ''429''"
  by code_simp+

text \<open>One answer, read back, whatever comes after it.\<close>

lemma answer_read_back:
  assumes "requests_file e q content" "op_workerThreads (se_options e) = 0"
    and d: "\<And>k. one_line (se_date e k)" and a: "answers e q s"
  shows "\<exists>a. read_response (s @ t) = Some (a, t) \<and> file_or_refusal content a"
proof -
  obtain s0 where s: "s = reply_to e q s0" using a by (auto simp: answers_def)
  have g: "rq_method q = kGet" using assms(1) by (simp add: requests_file_def Let_def)
  obtain ok s1 where ad: "admit e q (start_request q s0) = (ok, s1)" by (cases "admit e q (start_request q s0)")
  show ?thesis
  proof (cases ok)
    case False
    let ?r = "setCloseConnection (\<not> rq_keepAlive q) (tooManyRequests 1)"
    obtain k where "s = serialize (se_date e k) True ?r @ []"
      using s ad False g by (auto simp: reply_to_def decide_def reply_bytes_def refusal_response(3))
    then have "read_response (s @ t) = Some ((response_lines (se_date e k) ?r, rs_body ?r @ []), t)"
      using read_response_lines [OF d refusal_response(1), of k _ "[]" t] refusal_response(2) by simp
    then show ?thesis
      by (auto simp: file_or_refusal_def response_lines_def tooManyRequests_def response_setters)
  next
    case True
    let ?path = "if rq_path q = ''/'' then ''/index.html'' else rq_path q"
    let ?rt = "server_router e (ss_readings s1) (ss_metrics s1)"
    let ?r = "setCloseConnection (\<not> rq_keepAlive q) (serveStaticFile (se_fs e) ?rt ?path q)"
    obtain s2 where h: "server_handle e q s1 = (serveStaticFile (se_fs e) ?rt ?path q, s2)"
      using server_router_static [OF assms(1)] by (simp add: server_handle_def Let_def)
    have "decide e q (start_request q s0) = (Some (serveStaticFile (se_fs e) ?rt ?path q), s2)"
      using ad True h assms(2) by (simp add: decide_def offloaded_def Let_def)
    then have "s = reply_bytes e q (serveStaticFile (se_fs e) ?rt ?path q) (ss_readings s2)"
      using s by (simp add: reply_to_def)
    then obtain k where k: "s = serialize (se_date e k) True ?r @
        (case rs_fileBody ?r of None \<Rightarrow> [] | Some f \<Rightarrow> file_region (se_files e) f)"
      by (simp add: reply_bytes_def setCloseConnection_def g cong: option.case_cong)
    obtain st where st: "fs_stat (se_fs e) (rt_wwwRoot ?rt @ ?path) = Some st" "st_regular st"
      "st_size st = length content" "0 \<le> st_mtime st" "st_mtime st < 2 ^ 55"
      using assms(1) by (auto simp: requests_file_def Let_def server_router_root split: option.splits)
    have f: "fs_content (se_fs e) (rt_wwwRoot ?rt @ ?path) = Some content"
      "0 \<le> fs_open (se_fs e) (rt_wwwRoot ?rt @ ?path)" "getHeader q ''If-None-Match'' = []"
      "getHeader q ''If-Modified-Since'' = []" "se_files e (fs_open (se_fs e) (rt_wwwRoot ?rt @ ?path)) = content"
      using assms(1) by (simp_all add: requests_file_def Let_def server_router_root)
    note r = static_response [OF st f(1-4), of "\<not> rq_keepAlive q" "se_date e k"]
    let ?f = "case rs_fileBody ?r of None \<Rightarrow> [] | Some f \<Rightarrow> file_region (se_files e) f"
    have b: "rs_body ?r @ ?f = content" using r f(5) by (auto simp: file_region_def)
    have "read_response (s @ t) = Some ((response_lines (se_date e k) ?r, rs_body ?r @ ?f), t)"
      using read_response_lines [OF d, of ?r k ?f t] r b k by simp
    moreover have "hd (response_lines (se_date e k) ?r) = ''HTTP/1.1 200 OK''" "response_lines (se_date e k) ?r \<noteq> []"
      using r by (simp_all add: response_lines_def)
    ultimately show ?thesis using b by (auto simp: file_or_refusal_def)
  qed
qed

lemma answers_read_back:
  assumes "list_all2 (requests_file e) qs cs" "list_all2 (answers e) qs ss" "op_workerThreads (se_options e) = 0"
    and "\<And>k. one_line (se_date e k)"
  shows "\<exists>as. read_responses (length qs) (concat ss) = Some as \<and> list_all2 file_or_refusal cs as"
  using assms(1,2)
proof (induction qs arbitrary: cs ss)
  case (Cons q qs)
  then obtain c cs' s ss' where c: "cs = c # cs'" "ss = s # ss'" "requests_file e q c" "answers e q s"
    "list_all2 (requests_file e) qs cs'" "list_all2 (answers e) qs ss'"
    by (auto simp: list_all2_Cons1)
  obtain a where "read_response (s @ concat ss') = Some (a, concat ss')" "file_or_refusal c a"
    using answer_read_back [OF c(3) assms(3,4) c(4)] by blast
  moreover obtain as where "read_responses (length qs) (concat ss') = Some as" "list_all2 file_or_refusal cs' as"
    using Cons.IH [OF c(5,6)] by blast
  ultimately show ?case by (simp add: c)
qed simp

section \<open>Downloads\<close>

text \<open>
  C2: files arrive. A client pipelines GET requests for files over a connection handled without worker
  threads. However its bytes are cut into readable events and reads, with writable events and
  timeouts in between, and however little the socket takes at a time, the client that reads the
  answers by their announced lengths gets, for each request in turn, the whole file and nothing
  else, or the refusal of the rate limiter: from memory or by \<open>sendfile\<close>, and none is mixed with
  another. While the connection is open no request is left out, and what has not been sent is what
  the connection still holds.
\<close>

theorem files_downloaded:
  assumes "tracks (se_files e) [] (ss_conn s)" "buffer_valid (cn_input (ss_conn s))"
    and "contents (cn_input (ss_conn s)) = []" "ss_parser s = defaultParser"
    and "list_all wire_ok rs" "list_all2 (requests_file e) (map read_request rs) cs"
    and "\<forall>k. \<exists>now. 0 \<le> now \<and> now < 2 ^ 55 \<and> se_date e k = httpDate now"
    and "op_workerThreads (se_options e) = 0"
    and "list_all event_ok evs" "concat (map event_bytes evs) = concat (map wire rs)"
    and "s' = fold (session_event_step e) evs s"
  shows "\<exists>n T as. n \<le> length rs \<and> read_responses n T = Some as \<and>
    list_all2 file_or_refusal (take n cs) as \<and>
    (\<exists>rest. T = cn_sent (ss_conn s') @ rest \<and>
      (cn_closed (ss_conn s') \<or> n = length rs \<and> rest = backlog (se_files e) (ss_conn s')))"
proof -
  have d: "one_line (se_date e k)" for k
    using assms(7) formatHttpDate_one_line by (metis httpDate_def)
  obtain qs where qs: "length qs \<le> length rs"
    "list_all2 (answers e) (map read_request (take (length qs) rs)) qs"
    "tracks (se_files e) (concat qs) (ss_conn s')"
    "\<not> cn_closed (ss_conn s') \<longrightarrow> length qs = length rs"
    using stream_answered [OF assms(1,2,4,3,5) spec_parse_Nil assms(9) _ assms(8,11)] assms(10) by auto
  let ?n = "length qs"
  have "list_all2 (requests_file e) (map read_request (take ?n rs)) (take ?n cs)"
    using assms(6) by (simp add: list_all2_takeI flip: take_map)
  from answers_read_back [OF this qs(2) assms(8) d] qs(1)
  obtain as where "read_responses ?n (concat qs) = Some as" "list_all2 file_or_refusal (take ?n cs) as"
    by auto
  moreover obtain rest where "concat qs = cn_sent (ss_conn s') @ rest"
    using qs(3) by (auto simp: tracks_def)
  moreover have "rest = backlog (se_files e) (ss_conn s')" if "\<not> cn_closed (ss_conn s')"
    using qs(3) that calculation(3) by (simp add: tracks_def out_stream_def)
  ultimately show ?thesis using qs(1,4) by blast
qed

section \<open>Input\<close>

text \<open>One file, sent by \<open>sendfile\<close>, asked for twice.\<close>

definition file_env :: server_env where
  "file_env = (demo_env 0)
     \<lparr>se_files := (\<lambda>fd. ''abc''),
      se_fs := \<lparr>fs_stat = (\<lambda>f. if f = ''www/index.html'' then Some \<lparr>st_regular = True, st_mtime = 784111777,
        st_size = 3\<rparr> else None), fs_content = (\<lambda>f. Some ''abc''), fs_open = (\<lambda>f. 5)\<rparr>,
      se_options := ServerOptions_new\<lparr>op_workerThreads := 0, op_proxyPass := ''none'',
        op_wwwRoot := ''www'', op_zeroCopyThreshold := 2\<rparr>,
      se_date := (\<lambda>k. httpDate (784111777 + int (min k 1000)))\<rparr>"

lemma file_env_request: "requests_file file_env (read_request demo_wire) ''abc''"
proof -
  have r: "rq_method (read_request demo_wire) = kGet" "rq_path (read_request demo_wire) = ''/index.html''"
    "rq_headers (read_request demo_wire) = om_empty"
    by (simp_all add: read_request_def demo_wire_def built_request_def length_header_def setPath_def HttpRequest_new_def)
  have "\<not> po_enabled (proxy_of_options (se_options file_env))"
    by (simp add: file_env_def proxy_of_options_def Let_def)
  moreover have "isPathSafe ''/index.html''" by code_simp
  ultimately show ?thesis
    using r by (simp add: requests_file_def isManagement_def getHeader_def om_get_def om_empty_def file_env_def
        ServerOptions_new_def)
qed

theorem files_downloaded_witness:
  "\<exists>n T as. n \<le> 2 \<and> read_responses n T = Some as \<and> list_all2 file_or_refusal (take n [''abc'', ''abc'']) as \<and>
    (\<exists>rest. T = cn_sent (ss_conn (fold (session_event_step file_env) demo_events demo_new)) @ rest)"
proof -
  have w: "wire demo_wire = ''GET /index.html HTTP/1.1'' @ CRLF @ CRLF"
    by (simp add: wire_def demo_wire_def write_request_def write_head_def length_header_def write_headers_def
        methodToString_def)
  have "list_all event_ok demo_events"
    by (simp add: demo_events_def data_read_def w CRLF_def extraSize_def)
  moreover have "concat (map event_bytes demo_events) = concat (map wire [demo_wire, demo_wire])"
    by (simp add: demo_events_def)
  moreover have "tracks (se_files file_env) [] (ss_conn demo_new)"
    "buffer_valid (cn_input (ss_conn demo_new))" "contents (cn_input (ss_conn demo_new)) = []"
    "ss_parser demo_new = defaultParser"
    using tracks_start buffer_new_valid
    by (simp_all add: demo_new_def demo_session_def) (simp_all add: cn_start_def TcpConnection_new_def)
  moreover have "list_all wire_ok [demo_wire, demo_wire]" using demo_wire_ok by simp
  moreover have "list_all2 (requests_file file_env) (map read_request [demo_wire, demo_wire]) [''abc'', ''abc'']"
    using file_env_request by simp
  moreover have "\<forall>k. \<exists>now. 0 \<le> now \<and> now < 2 ^ 55 \<and> se_date file_env k = httpDate now"
  proof
    fix k show "\<exists>now. 0 \<le> now \<and> now < 2 ^ 55 \<and> se_date file_env k = httpDate now"
      by (rule exI [of _ "784111777 + int (min k 1000)"]) (simp add: file_env_def)
  qed
  moreover have "op_workerThreads (se_options file_env) = 0" by (simp add: file_env_def)
  ultimately obtain n T as rest where n: "n \<le> length [demo_wire, demo_wire]" "read_responses n T = Some as \<and>
      list_all2 file_or_refusal (take n [''abc'', ''abc'']) as \<and> T = cn_sent (ss_conn (fold (session_event_step file_env) demo_events demo_new)) @ rest"
    using files_downloaded [of file_env demo_new "[demo_wire, demo_wire]" "[''abc'', ''abc'']" demo_events, OF _ _ _ _ _ _ _ _ _ _ refl]
    by blast
  moreover have "n \<le> 2" using n by simp
  ultimately show ?thesis by blast
qed

end
