(* ===== verification/Connection_Drain.thy ===== *)
theory Connection_Drain
  imports Tcp_Connection_Props
begin

text \<open>
  A connection whose socket keeps accepting bytes gets rid of everything: after as many writable
  events as it has bytes, and two, nothing is queued, no file is held, the write interest is gone
  and a half-close that was put off has been made. Every event with room in the socket sends a byte
  or finishes the file.
\<close>

section \<open>Answers that are no errors\<close>

text \<open>A socket that takes bytes, has no room, or is interrupted by a signal.\<close>

definition benign :: "io \<Rightarrow> bool" where
  "benign r \<longleftrightarrow> (case r of IoBytes k \<Rightarrow> 0 < k | IoErr e \<Rightarrow> e = kEINTR \<or> e = kEAGAIN)"

lemma benign_simps [simp]: "benign (IoBytes k) \<longleftrightarrow> 0 < k" "benign (IoErr e) \<longleftrightarrow> e = kEINTR \<or> e = kEAGAIN"
  by (simp_all add: benign_def)

text \<open>What a stage of writing keeps, and that it sends when the first answer has room.\<close>

definition sends_on :: "io list \<Rightarrow> bool \<Rightarrow> conn \<Rightarrow> conn \<Rightarrow> io list \<Rightarrow> bool" where
  "sends_on rs more_to_send c c' rs' \<longleftrightarrow> \<not> cn_closed c' \<and> list_all benign rs' \<and>
     cn_shutdownAfterWrite c' = cn_shutdownAfterWrite c \<and> length (cn_sent c) \<le> length (cn_sent c') \<and>
     (more_to_send \<and> (\<exists>k rs1. rs = IoBytes k # rs1) \<longrightarrow> length (cn_sent c) < length (cn_sent c'))"

lemma sends_on_later:
  "sends_on rs2 m d c' rs' \<Longrightarrow> cn_shutdownAfterWrite d = cn_shutdownAfterWrite c \<Longrightarrow>
     length (cn_sent c) < length (cn_sent d) \<Longrightarrow>
     sends_on rs1 m' c c' rs' \<and> length (cn_sent c) < length (cn_sent c')"
  by (simp add: sends_on_def)

lemma took_longer:
  "0 < w \<Longrightarrow> w \<le> length s \<Longrightarrow> cn_sent d = cn_sent c \<Longrightarrow>
     length (cn_sent c) < length (cn_sent (took (take w s) d))"
  by simp

lemma flush_sends:
  "list_all benign rs \<Longrightarrow> \<not> cn_closed c \<Longrightarrow> buffer_valid (cn_output c) \<Longrightarrow>
     flushOutput limit c rs = (ok, c', rs') \<Longrightarrow>
     sends_on rs (0 < limit \<and> 0 < readableBytes (cn_output c)) c c' rs'"
proof (induction limit c rs arbitrary: ok c' rs' rule: flushOutput.induct)
  case (1 limit c)
  then show ?case by (auto simp: sends_on_def split: if_splits)
next
  case (2 limit c r rs)
  show ?case
  proof (cases "0 < limit \<and> 0 < readableBytes (cn_output c)")
    case False
    then have "c' = c" "rs' = r # rs" using "2.prems"(4) by auto
    then show ?thesis using False "2.prems" by (auto simp: sends_on_def)
  next
    case True
    show ?thesis
    proof (cases r)
      case (IoBytes n)
      let ?w = "min n (min limit (readableBytes (cn_output c)))"
      let ?c = "took (take ?w (contents (cn_output c)))
        (c\<lparr>cn_output := retrieve (cn_output c) ?w, cn_preFileBytes := cn_preFileBytes c - min (cn_preFileBytes c) ?w\<rparr>)"
      have w: "0 < ?w" using True "2.prems"(1) IoBytes by simp
      have rec: "flushOutput (limit - ?w) ?c rs = (ok, c', rs')"
        using True IoBytes w "2.prems"(4) by (simp add: Let_def)
      have "sends_on rs (0 < limit - ?w \<and> 0 < readableBytes (cn_output ?c)) ?c c' rs'"
        by (rule "2.IH"(1) [OF _ IoBytes refl refl w _ _ _ rec])
          (use True "2.prems"(1-3) in \<open>simp_all add: retrieve_valid\<close>)
      moreover have "cn_shutdownAfterWrite ?c = cn_shutdownAfterWrite c" by simp
      moreover have "length (cn_sent c) < length (cn_sent ?c)"
        by (rule took_longer [OF w]) (simp_all add: length_contents [OF "2.prems"(3)])
      ultimately show ?thesis by (rule conjunct1 [OF sends_on_later])
    next
      case (IoErr e)
      then show ?thesis
        using True "2.prems" "2.IH"(2) [OF _ IoErr]
        by (auto simp: sends_on_def split: if_splits)
    qed
  qed
qed

lemma file_sends:
  "list_all benign rs \<Longrightarrow> \<not> cn_closed c \<Longrightarrow> sendPendingFile files c rs = (ok, c', rs') \<Longrightarrow>
     sends_on rs False c c' rs' \<and> cn_output c' = cn_output c \<and>
     ((\<exists>k rs1. rs = IoBytes k # rs1) \<longrightarrow>
        cn_pendingFile c' = None \<or> length (cn_sent c) < length (cn_sent c'))"
proof (induction files c rs arbitrary: ok c' rs' rule: sendPendingFile.induct)
  case (1 files c)
  then show ?case by (auto simp: sends_on_def file_done_def split: if_splits)
next
  case (2 files c r rs)
  show ?case
  proof (cases "cn_fileRemaining c = 0")
    case True
    then show ?thesis using "2.prems" by (auto simp: sends_on_def file_done_def)
  next
    case False
    show ?thesis
    proof (cases r)
      case (IoBytes k)
      let ?rest = "file_rest files c"
      let ?n = "min (max 1 k) (length ?rest)"
      let ?c = "took (take ?n ?rest) (c\<lparr>cn_fileOffset := cn_fileOffset c + ?n, cn_fileRemaining := cn_fileRemaining c - ?n\<rparr>)"
      show ?thesis
      proof (cases "0 < ?n")
        case True
        have rec: "sendPendingFile files ?c rs = (ok, c', rs')"
          using True False IoBytes "2.prems"(3) by (simp add: Let_def)
        have "sends_on rs False ?c c' rs' \<and> cn_output c' = cn_output ?c"
          using "2.IH"(1) [OF False IoBytes refl refl True _ _ rec] "2.prems" by simp
        then have s: "sends_on rs False ?c c' rs'" "cn_output c' = cn_output c" by simp_all
        have "length (cn_sent c) < length (cn_sent ?c)" using True by simp
        from sends_on_later [OF s(1) _ this] show ?thesis using s(2) by simp
      next
        case n: False
        then show ?thesis
          using False IoBytes "2.prems" by (auto simp: sends_on_def file_done_def Let_def)
      qed
    next
      case (IoErr e)
      then show ?thesis
        using False "2.prems" "2.IH"(2) [OF False IoErr] by (auto simp: sends_on_def split: if_splits)
    qed
  qed
qed

section \<open>One writable event\<close>

definition idle :: "conn \<Rightarrow> bool" where
  "idle c \<longleftrightarrow> cn_pendingFile c = None \<and> readableBytes (cn_output c) = 0"

definition drained :: "conn \<Rightarrow> bool" where
  "drained c \<longleftrightarrow> \<not> cn_closed c \<and> idle c \<and> cn_events c AND EPOLLOUT = 0 \<and>
     (cn_shutdownAfterWrite c \<longrightarrow> cn_shut c)"

text \<open>An event that finds room sends a byte or is done with the file, unless there is nothing left.\<close>

definition moves_on :: "conn \<Rightarrow> conn \<Rightarrow> bool" where
  "moves_on c c' \<longleftrightarrow> length (cn_sent c) < length (cn_sent c') \<or> cn_pendingFile c \<noteq> None \<and> cn_pendingFile c' = None"

lemma moves_on_later:
  "moves_on c c' \<Longrightarrow> length (cn_sent c') \<le> length (cn_sent c'') \<Longrightarrow> lets_go c' c'' \<Longrightarrow> moves_on c c''"
  by (auto simp: moves_on_def lets_go_def)

lemma write_done_simps [simp]:
  "cn_sent (write_done c) = cn_sent c" "cn_pendingFile (write_done c) = cn_pendingFile c"
  "cn_closed (write_done c) = cn_closed c" "cn_shutdownAfterWrite (write_done c) = cn_shutdownAfterWrite c"
  "cn_output (write_done c) = cn_output c"
  by (simp_all add: write_done_def cn_disableWriting_def Let_def)

lemma write_stages:
  assumes i: "conn_inv c" "\<not> cn_closed c" and b: "list_all benign rs" "rs = IoBytes k # rs0"
    and s1: "write_stage1 c rs = (ok1, c1, rs1)"
  shows "sends_on rs (0 < cn_preFileBytes c) c c1 rs1" "buffer_valid (cn_output c1)" "lets_go c c1"
    "cn_preFileBytes c = 0 \<Longrightarrow> c1 = c \<and> rs1 = rs \<and> ok1"
proof -
  have v: "buffer_valid (cn_output c)" using i(1) by (simp add: conn_inv_def)
  show "cn_preFileBytes c = 0 \<Longrightarrow> c1 = c \<and> rs1 = rs \<and> ok1" using s1 by (simp add: write_stage1_def)
  have "sends_on rs (0 < cn_preFileBytes c) c c1 rs1 \<and> buffer_valid (cn_output c1) \<and> lets_go c c1"
  proof (cases "0 < cn_preFileBytes c")
    case True
    obtain ok d rs2 where f: "flushOutput (cn_preFileBytes c) c rs = (ok, d, rs2)"
      by (cases "flushOutput (cn_preFileBytes c) c rs") auto
    have l: "limit_ok (cn_preFileBytes c) c" "0 < readableBytes (cn_output c)"
      using i(1) True by (simp_all add: limit_ok_def conn_inv_def)
    have "buffer_valid (cn_output d)"
      using flushOutput_props [OF i(1) l(1) i(2) f] by (simp add: write_result_def conn_inv_def)
    moreover have "lets_go c d" using lets_go_flush [of c "cn_preFileBytes c" rs] f by simp
    ultimately show ?thesis
      using flush_sends [OF b(1) i(2) v f] True l(2) s1 f
      by (auto simp: write_stage1_def sends_on_def lets_go_def split: if_splits)
  next
    case False
    then show ?thesis using s1 v i b by (auto simp: write_stage1_def sends_on_def lets_go_def)
  qed
  then show "sends_on rs (0 < cn_preFileBytes c) c c1 rs1" "buffer_valid (cn_output c1)" "lets_go c c1" by simp_all
qed

lemma write_stage2_sends:
  assumes "list_all benign rs" "\<not> cn_closed c" "write_stage2 files c rs = (ok, c', rs')"
  shows "sends_on rs False c c' rs'" "cn_output c' = cn_output c" "lets_go c c'"
    "cn_pendingFile c = None \<Longrightarrow> c' = c \<and> rs' = rs \<and> ok"
    "cn_pendingFile c \<noteq> None \<Longrightarrow> rs = IoBytes k # rs0 \<Longrightarrow> moves_on c c'"
proof -
  show "cn_pendingFile c = None \<Longrightarrow> c' = c \<and> rs' = rs \<and> ok" using assms(3) by (simp add: write_stage2_def)
  show "lets_go c c'"
    using assms(3) lets_go_file [of c files rs] by (auto simp: write_stage2_def lets_go_def split: if_splits)
  have "sends_on rs False c c' rs' \<and> cn_output c' = cn_output c"
  proof (cases "cn_pendingFile c = None")
    case True
    then show ?thesis using assms by (simp add: write_stage2_def sends_on_def)
  next
    case False
    then show ?thesis using file_sends [OF assms(1,2)] assms(3) by (simp add: write_stage2_def)
  qed
  then show "sends_on rs False c c' rs'" "cn_output c' = cn_output c" by simp_all
  show "moves_on c c'" if f: "cn_pendingFile c \<noteq> None" and r: "rs = IoBytes k # rs0"
  proof -
    have "sendPendingFile files c rs = (ok, c', rs')" using assms(3) f by (simp add: write_stage2_def)
    from file_sends [OF assms(1,2) this] f r show ?thesis unfolding moves_on_def by blast
  qed
qed

lemma write_stage3_sends:
  assumes "list_all benign rs" "\<not> cn_closed c" "buffer_valid (cn_output c)" "write_stage3 c rs = (ok, c', rs')"
  shows "sends_on rs (0 < readableBytes (cn_output c)) c c' rs'" "lets_go c c'"
proof -
  show "lets_go c c'"
    using assms(4) lets_go_flush [of c "readableBytes (cn_output c)" rs]
    by (auto simp: write_stage3_def lets_go_def split: if_splits)
  show "sends_on rs (0 < readableBytes (cn_output c)) c c' rs'"
  proof (cases "0 < readableBytes (cn_output c)")
    case True
    then have "flushOutput (readableBytes (cn_output c)) c rs = (ok, c', rs')"
      using assms(4) by (simp add: write_stage3_def)
    from flush_sends [OF assms(1-3) this] show ?thesis by simp
  next
    case False
    then show ?thesis using assms by (simp add: write_stage3_def sends_on_def)
  qed
qed

text \<open>What one event changes, whatever its stages do.\<close>

lemma sends_on_trans:
  "sends_on rs m c c1 rs1 \<Longrightarrow> sends_on rs1 m' c1 c2 rs2 \<Longrightarrow> sends_on rs False c c2 rs2"
  by (simp add: sends_on_def)

lemma handleWrite_moves:
  assumes i: "conn_inv c" "\<not> cn_closed c" and b: "list_all benign rs" "rs = IoBytes k # rs0"
    and h: "handleWrite files c rs = (c', rs')"
  shows "sends_on rs False c c' rs'" "\<not> idle c \<Longrightarrow> moves_on c c'"
proof -
  obtain ok1 c1 rs1 where s1: "write_stage1 c rs = (ok1, c1, rs1)" by (cases "write_stage1 c rs") auto
  obtain ok2 c2 rs2 where s2: "write_stage2 files c1 rs1 = (ok2, c2, rs2)"
    by (cases "write_stage2 files c1 rs1") auto
  obtain ok3 c3 rs3 where s3: "write_stage3 c2 rs2 = (ok3, c3, rs3)" by (cases "write_stage3 c2 rs2") auto
  note p1 = write_stages [OF i b s1]
  have b1: "list_all benign rs1" "\<not> cn_closed c1" using p1(1) by (simp_all add: sends_on_def)
  note p2 = write_stage2_sends [OF b1 s2]
  have b2: "list_all benign rs2" "\<not> cn_closed c2" "buffer_valid (cn_output c2)"
    using p2(1,2) p1(2) by (simp_all add: sends_on_def)
  note p3 = write_stage3_sends [OF b2 s3]
  have c': "(c', rs') \<in> {(c1, rs1), (c2, rs2), (c3, rs3), (write_done c3, rs3)}"
    using h s1 s2 s3 i(2) by (auto simp: handleWrite_def split: if_splits)
  have t1: "sends_on rs False c c1 rs1" using p1(1) by (simp add: sends_on_def)
  have t2: "sends_on rs False c c2 rs2" by (rule sends_on_trans [OF p1(1) p2(1)])
  have t3: "sends_on rs False c c3 rs3" by (rule sends_on_trans [OF t2 p3(1)])
  then have "sends_on rs False c (write_done c3) rs3" by (simp add: sends_on_def)
  with c' t1 t2 t3 show "sends_on rs False c c' rs'" by auto
  have l: "length (cn_sent c1) \<le> length (cn_sent c2)" "length (cn_sent c2) \<le> length (cn_sent c3)"
    using p2(1) p3(1) by (simp_all add: sends_on_def)
  have w: "lets_go c3 (write_done c3)" by (simp add: lets_go_def)
  assume n: "\<not> idle c"
  show "moves_on c c'"
  proof (cases "0 < cn_preFileBytes c")
    case True
    then have "length (cn_sent c) < length (cn_sent c1)" using p1(1) b(2) by (simp add: sends_on_def)
    then show ?thesis using c' l by (auto simp: moves_on_def)
  next
    case False
    then have e1: "c1 = c" "rs1 = rs" "ok1" using p1(4) by simp_all
    show ?thesis
    proof (cases "cn_pendingFile c = None")
      case True
      then have e2: "c2 = c" "rs2 = rs" "ok2" using p2(4) e1 by simp_all
      then have "length (cn_sent c) < length (cn_sent c3)"
        using p3(1) True n b(2) by (simp add: idle_def sends_on_def)
      moreover have "c' = c3 \<or> c' = write_done c3" using h s1 s2 s3 e1 e2 i(2) by (auto simp: handleWrite_def split: if_splits)
      ultimately show ?thesis by (auto simp: moves_on_def)
    next
      case f: False
      have m: "moves_on c c2" using p2(5) f e1 b(2) by simp
      have "c' = c2 \<or> c' = c3 \<or> c' = write_done c3"
        using h s1 s2 s3 e1 i(2) by (auto simp: handleWrite_def split: if_splits)
      then show ?thesis using m moves_on_later [OF m l(2) p3(2)] by (auto simp: moves_on_def)
    qed
  qed
qed

text \<open>With nothing left the event turns the write interest off and makes the half-close.\<close>

lemma no_write_interest: "(ev AND NOT kWriteEvent) AND EPOLLOUT = 0"
proof -
  have "EPOLLOUT = kWriteEvent AND EPOLLOUT" by (simp add: kWriteEvent_def epoll_defs)
  then have "(ev AND NOT kWriteEvent) AND EPOLLOUT = ev AND (NOT kWriteEvent AND (kWriteEvent AND EPOLLOUT))"
    by (metis and.assoc)
  then show ?thesis by (simp flip: and.assoc)
qed

lemma handleWrite_idle:
  assumes "conn_inv c" "\<not> cn_closed c" "idle c"
  shows "handleWrite files c rs = (write_done c, rs)" "drained (write_done c)" "cn_sent (write_done c) = cn_sent c"
proof -
  have "cn_preFileBytes c = 0" using assms(1,3) by (simp add: conn_inv_def idle_def)
  then show "handleWrite files c rs = (write_done c, rs)"
    using assms(2,3) by (simp add: handleWrite_def write_stage1_def write_stage2_def write_stage3_def idle_def)
  show "drained (write_done c)"
    using assms(2,3) no_write_interest
    by (simp add: drained_def idle_def write_done_def cn_disableWriting_def Let_def)
qed simp

section \<open>Enough writable events\<close>

text \<open>A writable event of a socket that has room, and fails in no other way than running out of it.\<close>

definition has_room :: "conn_op \<times> io list \<Rightarrow> bool" where
  "has_room x \<longleftrightarrow> fst x = OpWritable \<and> list_all benign (snd x) \<and>
     (case snd x of IoBytes k # rs \<Rightarrow> True | _ \<Rightarrow> False)"

definition left_to_do :: "(int \<Rightarrow> string) \<Rightarrow> conn \<Rightarrow> nat" where
  "left_to_do files c = length (backlog files c) + (if cn_pendingFile c = None then 0 else 1)"

lemma nothing_left: "conn_inv c \<Longrightarrow> left_to_do files c = 0 \<Longrightarrow> idle c"
  using readable_Nil by (auto simp: left_to_do_def idle_def backlog_def conn_inv_def file_rest_def split: if_splits)

lemma idle_backlog: "conn_inv c \<Longrightarrow> idle c \<Longrightarrow> backlog files c = []"
  using readable_Nil by (simp add: idle_def backlog_def conn_inv_def file_rest_def)

lemma room_step:
  fixes files :: "int \<Rightarrow> string"
  assumes i: "conn_inv c" "\<not> cn_closed c" and x: "has_room x"
  defines "c' \<equiv> conn_step files x c"
  shows "conn_inv c'" "\<not> cn_closed c'" "out_stream files c' = out_stream files c"
    "cn_shutdownAfterWrite c' = cn_shutdownAfterWrite c"
    "idle c \<Longrightarrow> drained c'" "\<not> idle c \<Longrightarrow> left_to_do files c' < left_to_do files c"
proof -
  obtain k rs0 where r: "x = (OpWritable, IoBytes k # rs0)" "list_all benign (IoBytes k # rs0)"
    using x by (cases x) (auto simp: has_room_def split: list.splits io.splits)
  obtain rs' where h: "handleWrite files c (IoBytes k # rs0) = (c', rs')"
    by (cases "handleWrite files c (IoBytes k # rs0)") (simp add: c'_def r conn_step_def)
  note m = handleWrite_moves [OF i r(2) refl h]
  show n: "\<not> cn_closed c'" "cn_shutdownAfterWrite c' = cn_shutdownAfterWrite c"
    using m(1) by (simp_all add: sends_on_def)
  have a: "conn_inv c' \<and> advances files [] c c'" using handleWrite_props [OF i h] by blast
  then show "conn_inv c'" by simp
  show o: "out_stream files c' = out_stream files c" using a n(1) by (simp add: advances_def)
  show "idle c \<Longrightarrow> drained c'" using handleWrite_idle(1) [OF i, of files "IoBytes k # rs0"] handleWrite_idle(2) [OF i] h by simp
  have len: "length (cn_sent c') + length (backlog files c') = length (cn_sent c) + length (backlog files c)"
    using arg_cong [OF o, of length] by (simp add: out_stream_def)
  have l: "lets_go c c'" using lets_go_write [of c files "IoBytes k # rs0"] h by simp
  have s: "length (cn_sent c) \<le> length (cn_sent c')" using m(1) by (simp add: sends_on_def)
  show "left_to_do files c' < left_to_do files c" if "\<not> idle c"
    using m(2) [OF that] len l s by (auto simp: left_to_do_def moves_on_def lets_go_def)
qed

lemma drained_stays:
  assumes "list_all has_room ws" "conn_inv c" "drained c"
  shows "drained (fold (conn_step files) ws c) \<and> cn_sent (fold (conn_step files) ws c) = cn_sent c"
  using assms
proof (induction ws arbitrary: c)
  case (Cons x ws)
  let ?c = "conn_step files x c"
  have d: "\<not> cn_closed c" "idle c" using Cons.prems(3) by (simp_all add: drained_def)
  have x: "has_room x" using Cons.prems(1) by simp
  note r = room_step [OF Cons.prems(2) d(1) x, of files]
  have dr: "drained ?c" by (rule r(5) [OF d(2)])
  then have "idle ?c" by (simp add: drained_def)
  then have "cn_sent ?c = cn_sent c"
    using r(3) idle_backlog [OF r(1)] idle_backlog [OF Cons.prems(2) d(2)] by (simp add: out_stream_def)
  then show ?case using Cons.IH [OF _ r(1) dr] Cons.prems(1) by simp
qed simp

lemma drains:
  assumes "list_all has_room ws" "conn_inv c" "\<not> cn_closed c" "left_to_do files c < length ws"
  shows "drained (fold (conn_step files) ws c) \<and> cn_sent (fold (conn_step files) ws c) = out_stream files c \<and>
    cn_shutdownAfterWrite (fold (conn_step files) ws c) = cn_shutdownAfterWrite c"
  using assms
proof (induction ws arbitrary: c)
  case (Cons x ws)
  let ?c = "conn_step files x c"
  have x: "has_room x" and ws: "list_all has_room ws" using Cons.prems(1) by simp_all
  note r = room_step [OF Cons.prems(2,3) x, of files]
  have keeps: "cn_shutdownAfterWrite (fold (conn_step files) ws d) = cn_shutdownAfterWrite d"
    if "conn_inv d" "\<not> cn_closed d" for d
    using ws that
  proof (induction ws arbitrary: d)
    case (Cons y ys)
    then show ?case using room_step(1,2,4) [OF Cons.prems(2,3), of y files] by simp
  qed simp
  show ?case
  proof (cases "idle c")
    case True
    have d: "drained ?c" by (rule r(5) [OF True])
    then have "cn_sent ?c = out_stream files c"
      using r(3) idle_backlog [OF r(1), of files] by (simp add: out_stream_def drained_def)
    then show ?thesis using drained_stays [OF ws r(1) d, of files] keeps [OF r(1,2)] r(4) by simp
  next
    case False
    then have "left_to_do files ?c < length ws" using r(6) Cons.prems(4) by simp
    then show ?thesis using Cons.IH [OF ws r(1,2)] r(3,4) by simp
  qed
qed simp

text \<open>
  C29: everything is sent in the end. Take a connection in any state it can reach, with whatever is
  queued, a file in progress, or a half-close put off. If its socket then becomes writable again and
  again, taking at least one byte each time and failing in no other way than running out of room,
  after as many events as there are bytes left, and two, the peer has been sent everything that was
  handed over; no file is held any more, the connection is open and has given up its write interest,
  so no further event is needed, and the half-close has been made.
\<close>

theorem writable_events_drain:
  assumes "c = conn_run files xs" "\<not> cn_closed c" "list_all has_room ws"
    and "length (backlog files c) + 2 \<le> length ws" and "c' = fold (conn_step files) ws c"
  shows "\<not> cn_closed c' \<and> cn_sent c' = concat (map (op_bytes files) xs) \<and> cn_pendingFile c' = None \<and>
    readableBytes (cn_output c') = 0 \<and> cn_events c' AND EPOLLOUT = 0 \<and>
    (cn_shutdownAfterWrite c \<longrightarrow> cn_shut c')"
proof -
  have i: "conn_inv c" "concat (map (op_bytes files) xs) = out_stream files c"
    using conn_run_inv [of files xs] assms(1,2) by (simp_all add: out_stream_def)
  have "left_to_do files c < length ws" using assms(4) by (simp add: left_to_do_def)
  from drains [OF assms(3) i(1) assms(2) this] show ?thesis
    unfolding assms(5) i(2) drained_def idle_def by metis
qed

section \<open>Input\<close>

definition room_events :: "(conn_op \<times> io list) list" where
  "room_events = replicate 6 (OpWritable, [IoBytes 1, IoErr kEAGAIN])"

text \<open>The file of four bytes and the half-close of \<^const>\<open>demo_run\<close>, one byte at a time.\<close>

theorem writable_events_drain_witness:
  "cn_sent (fold (conn_step (\<lambda>fd. ''body'')) room_events (conn_run (\<lambda>fd. ''body'') demo_run)) = ''body'' \<and>
   cn_shut (fold (conn_step (\<lambda>fd. ''body'')) room_events (conn_run (\<lambda>fd. ''body'') demo_run))"
proof -
  let ?c = "conn_run (\<lambda>fd. ''body'') demo_run"
  have "\<not> cn_closed ?c" "cn_shutdownAfterWrite ?c" "length (backlog (\<lambda>fd. ''body'') ?c) = 4"
    unfolding demo_run_state
    using readable_Nil [OF buffer_new_valid, of kInitialSize]
    by (simp_all add: TcpConnection_new_def backlog_def file_rest_def)
  moreover have "list_all has_room room_events" "length room_events = 6"
    by (simp_all add: room_events_def has_room_def list_all_iff)
  ultimately show ?thesis
    using writable_events_drain [OF refl, of "\<lambda>fd. ''body''" demo_run room_events, OF _ _ _ refl]
    by (simp add: demo_run_def op_bytes_def file_region_def)
qed

end
