(* ===== verification/Channel_Runs.thy ===== *)
theory Channel_Runs
  imports Channel_Props
begin

text \<open>
  Whole lives of channels: any sequence of operations on the channels of a loop, with objects that
  are built and destroyed and descriptor numbers that are used again, and any answers of the kernel
  to \<open>epoll_ctl\<close>; and what a batch of events invokes when its callbacks do such operations.
\<close>

section \<open>Operations\<close>

datatype chan_op =
    MakeOp nat int
  | ReadOp nat
  | WriteOp nat
  | NoWriteOp nat
  | NoneOp nat
  | RemoveOp nat
  | DestroyOp nat

fun reg_op :: "chan_op \<Rightarrow> loop_reg \<Rightarrow> loop_reg" where
  "reg_op (MakeOp c fd) s = set_object c (Channel_new fd) s"
| "reg_op (ReadOp c) s = enableReading c s"
| "reg_op (WriteOp c) s = enableWriting c s"
| "reg_op (NoWriteOp c) s = disableWriting c s"
| "reg_op (NoneOp c) s = disableAll c s"
| "reg_op (RemoveOp c) s = channel_remove c s"
| "reg_op (DestroyOp c) s = owner_destroy c s"

text \<open>
  Which operations a program can do: a channel is built at a free address, with a descriptor that no
  living channel has, since the owner of each keeps its descriptor open; the others need a living
  channel. The state is the set of living channels and the loop.
\<close>

fun chan_step :: "chan_op \<Rightarrow> nat set \<times> loop_reg \<Rightarrow> (nat set \<times> loop_reg) option" where
  "chan_step (MakeOp c fd) (live, s) =
     (if c \<in> live \<or> fd \<in> (\<lambda>d. ch_fd (lr_objects s d)) ` live then None
      else Some (insert c live, reg_op (MakeOp c fd) s))"
| "chan_step (DestroyOp c) (live, s) =
     (if c \<in> live then Some (live - {c}, reg_op (DestroyOp c) s) else None)"
| "chan_step (ReadOp c) (live, s) = (if c \<in> live then Some (live, reg_op (ReadOp c) s) else None)"
| "chan_step (WriteOp c) (live, s) = (if c \<in> live then Some (live, reg_op (WriteOp c) s) else None)"
| "chan_step (NoWriteOp c) (live, s) = (if c \<in> live then Some (live, reg_op (NoWriteOp c) s) else None)"
| "chan_step (NoneOp c) (live, s) = (if c \<in> live then Some (live, reg_op (NoneOp c) s) else None)"
| "chan_step (RemoveOp c) (live, s) = (if c \<in> live then Some (live, reg_op (RemoveOp c) s) else None)"

fun chan_run :: "chan_op list \<Rightarrow> nat set \<times> loop_reg \<Rightarrow> (nat set \<times> loop_reg) option" where
  "chan_run [] w = Some w"
| "chan_run (x # xs) w = (case chan_step x w of None \<Rightarrow> None | Some w' \<Rightarrow> chan_run xs w')"

section \<open>What every operation keeps\<close>

text \<open>Whatever the kernel answers: the descriptor of a channel and the soundness of the registry.\<close>

lemma removeChannel_objects [simp]: "lr_objects (removeChannel c s) = lr_objects s"
  by (simp add: removeChannel_def Let_def)

lemma updateChannel_objects [simp]: "lr_objects (updateChannel c s) = lr_objects s"
  by (simp add: updateChannel_def Let_def)

lemma set_events_objects [simp]:
  "lr_objects (set_events c ev s) = (lr_objects s)(c := (lr_objects s c)\<lparr>ch_events := ev\<rparr>)"
  by (simp add: set_events_def channel_update_def)

lemma channel_remove_objects [simp]:
  "lr_objects (channel_remove c s) = (lr_objects s)(c := (lr_objects s c)\<lparr>ch_removed := True\<rparr>)"
  by (auto simp: channel_remove_def)

lemma removeChannel_channels:
  "om_valid (lr_channels s) \<Longrightarrow> om_get (lr_channels (removeChannel c s)) =
     (om_get (lr_channels s))(ch_fd (lr_objects s c) := None)"
  by (auto simp: removeChannel_def Let_def om_get_erase)

lemma removeChannel_ok:
  assumes "om_valid (lr_channels s)" "lr_channelCount s = length (lr_channels s)"
    and "\<And>fd d. om_get (lr_channels s) fd = Some d \<Longrightarrow> fd \<noteq> ch_fd (lr_objects s c) \<Longrightarrow>
      ch_fd (lr_objects s d) = fd \<and> ch_events (lr_objects s d) \<noteq> 0 \<and> \<not> ch_removed (lr_objects s d)"
  shows "reg_ok (removeChannel c s)"
proof -
  let ?fd = "ch_fd (lr_objects s c)"
  have "om_valid (lr_channels (removeChannel c s)) \<and>
      lr_channelCount (removeChannel c s) = length (lr_channels (removeChannel c s))"
    using assms(1,2) om_erase_length [of "lr_channels s" ?fd]
    by (auto simp: removeChannel_def Let_def om_valid_erase)
  then show ?thesis
    using assms(3) by (auto simp: reg_ok_def removeChannel_channels [OF assms(1)] split: if_splits)
qed

lemma set_events_ok:
  assumes "reg_ok s"
  shows "reg_ok (set_events c ev s)"
proof (cases "ch_removed (lr_objects s c)")
  case True
  then show ?thesis using assms by (auto simp: reg_ok_def set_events_def channel_update_def)
next
  case False
  let ?s = "set_object c ((lr_objects s c)\<lparr>ch_events := ev\<rparr>) s" and ?fd = "ch_fd (lr_objects s c)"
  have up: "set_events c ev s = updateChannel c ?s" using False by (simp add: set_events_def channel_update_def)
  have rem: "reg_ok (removeChannel c ?s)"
    using assms by (intro removeChannel_ok) (auto simp: reg_ok_def)
  show ?thesis
  proof (cases "ev = 0")
    case True
    then have "updateChannel c ?s = removeChannel c ?s"
      by (simp add: updateChannel_def removeChannel_def isNoneEvent_def Let_def)
    then show ?thesis using rem up by simp
  next
    case nz: False
    show ?thesis
    proof (cases "om_get (lr_channels s) ?fd")
      case None
      then show ?thesis
        unfolding up using assms nz False om_put_absent_length [OF None]
        by (auto simp: reg_ok_def updateChannel_def isNoneEvent_def Let_def om_valid_put om_get_put)
    next
      case (Some d)
      then show ?thesis
        unfolding up using assms nz
        by (auto simp: reg_ok_def updateChannel_def isNoneEvent_def Let_def)
    qed
  qed
qed

lemma channel_remove_ok:
  assumes "reg_ok s"
  shows "reg_ok (channel_remove c s)"
proof (cases "ch_removed (lr_objects s c)")
  case True
  then show ?thesis using assms by (simp add: channel_remove_def)
next
  case False
  have "reg_ok (removeChannel c (set_object c ((lr_objects s c)\<lparr>ch_removed := True\<rparr>) s))"
    using assms by (intro removeChannel_ok) (auto simp: reg_ok_def)
  then show ?thesis using False by (simp add: channel_remove_def)
qed

text \<open>Only the channel that an operation is about can enter the registry by it.\<close>

definition holders :: "loop_reg \<Rightarrow> nat set" where
  "holders s = ran (om_get (lr_channels s))"

lemma removeChannel_holders: "om_valid (lr_channels s) \<Longrightarrow> holders (removeChannel c s) \<subseteq> holders s"
  unfolding holders_def by (auto simp: removeChannel_channels ran_def split: if_splits)

lemma set_events_holders:
  assumes "om_valid (lr_channels s)"
  shows "holders (set_events c ev s) \<subseteq> insert c (holders s)"
proof -
  let ?s = "set_object c ((lr_objects s c)\<lparr>ch_events := ev\<rparr>) s"
  have h: "holders ?s = holders s" by (simp add: holders_def)
  have "holders (removeChannel c ?s) \<subseteq> holders s" using removeChannel_holders [of ?s c] assms h by simp
  then show ?thesis
    using h by (auto simp: set_events_def channel_update_def updateChannel_def Let_def)
      (auto simp: holders_def om_get_put ran_def split: if_splits)
qed

lemma channel_remove_holders:
  assumes "om_valid (lr_channels s)"
  shows "holders (channel_remove c s) \<subseteq> holders s"
proof -
  let ?s = "set_object c ((lr_objects s c)\<lparr>ch_removed := True\<rparr>) s"
  have "holders (removeChannel c ?s) \<subseteq> holders ?s" using assms by (intro removeChannel_holders) simp
  then show ?thesis by (simp add: channel_remove_def) (simp add: holders_def)
qed

text \<open>A removed channel holds no entry.\<close>

lemma channel_remove_gone:
  assumes "reg_ok s"
  shows "c \<notin> holders (channel_remove c s)"
proof
  assume "c \<in> holders (channel_remove c s)"
  then obtain fd where "om_get (lr_channels (channel_remove c s)) fd = Some c" by (auto simp: holders_def ran_def)
  then have "\<not> ch_removed (lr_objects (channel_remove c s) c)"
    using channel_remove_ok [OF assms, of c] unfolding reg_ok_def by blast
  then show False by simp
qed

section \<open>Runs\<close>

text \<open>
  What holds of every state of a run: living channels have distinct descriptors, only they are
  registered, the registry is sound, and a kernel that refuses nothing watches what is wanted.
\<close>

definition world_inv :: "nat set \<Rightarrow> loop_reg \<Rightarrow> bool" where
  "world_inv live s \<longleftrightarrow> inj_on (\<lambda>c. ch_fd (lr_objects s c)) live \<and> holders s \<subseteq> live \<and> reg_ok s \<and>
     ((\<forall>n. \<not> ep_refuses (lr_epoll s) n) \<longrightarrow> ep.mirrors (lr_epoll s) (wanted s))"

lemma world_invD:
  assumes "world_inv live s"
  shows "inj_on (\<lambda>c. ch_fd (lr_objects s c)) live" "holders s \<subseteq> live" "reg_ok s" "om_valid (lr_channels s)"
    "(\<forall>n. \<not> ep_refuses (lr_epoll s) n) \<Longrightarrow> reg_valid s"
  using assms by (auto simp: world_inv_def reg_valid_iff reg_ok_def)

lemma world_sole:
  assumes "world_inv live s" "c \<in> live"
  shows "sole c s"
proof -
  note w = world_invD [OF assms(1)]
  have "d = c" if "om_get (lr_channels s) (ch_fd (lr_objects s c)) = Some d" for d
  proof -
    have "d \<in> live" using that w(2) by (auto simp: holders_def ran_def)
    moreover have "ch_fd (lr_objects s d) = ch_fd (lr_objects s c)" using that w(3) by (simp add: reg_ok_def)
    ultimately show ?thesis using w(1) assms(2) by (auto dest: inj_onD)
  qed
  then show ?thesis by (cases "om_get (lr_channels s) (ch_fd (lr_objects s c))") (auto simp: sole_def)
qed

lemma epoller_refuses [simp]:
  "ep_refuses (snd (epoller_add fd ev p)) = ep_refuses p"
  "ep_refuses (snd (epoller_modify fd ev p)) = ep_refuses p"
  "ep_refuses (snd (epoller_remove fd p)) = ep_refuses p" "ep_refuses (epoll_forget fd p) = ep_refuses p"
  by (simp_all add: epoller_defs epoll_forget_def Let_def)

lemma reg_op_refuses [simp]: "ep_refuses (lr_epoll (reg_op x s)) = ep_refuses (lr_epoll s)"
proof -
  have r: "ep_refuses (lr_epoll (removeChannel c t)) = ep_refuses (lr_epoll t)" for c t
    by (simp add: removeChannel_def Let_def)
  have e: "ep_refuses (lr_epoll (set_events c ev t)) = ep_refuses (lr_epoll t)" for c ev t
    by (simp add: set_events_def channel_update_def updateChannel_def r Let_def)
  have m: "ep_refuses (lr_epoll (channel_remove c t)) = ep_refuses (lr_epoll t)" for c t
    by (simp add: channel_remove_def r)
  show ?thesis
    by (cases x) (simp_all add: e m enableReading_def enableWriting_def disableWriting_def
        disableAll_def owner_destroy_def channel_destroy_def Let_def)
qed

lemma removed_set_events:
  assumes "ch_removed (lr_objects s c)" "reg_valid s"
  shows "reg_valid (set_events c ev s)"
proof -
  have "\<And>fd. om_get (lr_channels s) fd \<noteq> Some c" using assms by (auto simp: reg_valid_def)
  then have "wanted (set_events c ev s) = wanted s"
    using assms(1) by (auto simp: wanted_def set_events_def channel_update_def fun_eq_iff map_option_case
        split: option.split)
  then show ?thesis using assms by (auto simp: reg_valid_def set_events_def channel_update_def)
qed

lemma fd_kept:
  "ch_fd (lr_objects (set_events c ev s) d) = ch_fd (lr_objects s d)"
  "ch_fd (lr_objects (channel_remove c s) d) = ch_fd (lr_objects s d)"
  by simp_all

lemma set_events_world:
  assumes "world_inv live s" "c \<in> live"
  shows "world_inv live (set_events c ev s)"
proof -
  note w = world_invD [OF assms(1)] and so = world_sole [OF assms]
  have "reg_valid (set_events c ev s)" if "\<forall>n. \<not> ep_refuses (lr_epoll s) n"
    using set_events_valid(1) [OF w(5) [OF that] so] removed_set_events [OF _ w(5) [OF that]] by blast
  moreover have "ep_refuses (lr_epoll (set_events c ev s)) = ep_refuses (lr_epoll s)"
    by (simp add: set_events_def channel_update_def updateChannel_def removeChannel_def Let_def)
  moreover have "holders (set_events c ev s) \<subseteq> live" using set_events_holders [OF w(4)] w(2) assms(2) by blast
  moreover have "inj_on (\<lambda>d. ch_fd (lr_objects (set_events c ev s) d)) live" using w(1) unfolding fd_kept .
  ultimately show ?thesis using set_events_ok [OF w(3)] unfolding world_inv_def reg_valid_iff by metis
qed

lemma channel_remove_world:
  assumes "world_inv live s" "c \<in> live"
  shows "world_inv live (channel_remove c s)"
proof -
  note w = world_invD [OF assms(1)] and so = world_sole [OF assms]
  have "reg_valid (channel_remove c s)" if "\<forall>n. \<not> ep_refuses (lr_epoll s) n"
    using channel_remove_valid(1) [OF w(5) [OF that] so] w(5) [OF that] by (cases "ch_removed (lr_objects s c)")
      (simp_all add: channel_remove_def)
  moreover have "ep_refuses (lr_epoll (channel_remove c s)) = ep_refuses (lr_epoll s)"
    using reg_op_refuses [of "RemoveOp c" s] by simp
  moreover have "holders (channel_remove c s) \<subseteq> live" using channel_remove_holders [OF w(4)] w(2) by blast
  moreover have "inj_on (\<lambda>d. ch_fd (lr_objects (channel_remove c s) d)) live" using w(1) unfolding fd_kept .
  ultimately show ?thesis using channel_remove_ok [OF w(3)] unfolding world_inv_def reg_valid_iff by metis
qed

lemma make_world:
  assumes "world_inv live s" "c \<notin> live" "fd \<notin> (\<lambda>d. ch_fd (lr_objects s d)) ` live"
  shows "world_inv (insert c live) (set_object c (Channel_new fd) s)"
proof -
  note w = world_invD [OF assms(1)]
  let ?s = "set_object c (Channel_new fd) s"
  have o: "lr_objects ?s d = lr_objects s d" if "d \<in> live" for d using that assms(2) by auto
  have h: "d \<in> live" if "om_get (lr_channels s) x = Some d" for x d
    using that w(2) by (auto simp: holders_def ran_def)
  have ok: "reg_ok ?s"
    unfolding reg_ok_def set_object_simps(2,4)
    using w(3) h o by (metis reg_ok_def)
  have "wanted ?s = wanted s"
    using h o by (auto simp: wanted_def fun_eq_iff map_option_case split: option.split)
  then have m: "ep.mirrors (lr_epoll ?s) (wanted ?s)" if "\<forall>n. \<not> ep_refuses (lr_epoll ?s) n"
    using w(5) that by (simp add: reg_valid_iff)
  have "inj_on (\<lambda>d. ch_fd (lr_objects ?s d)) live" using w(1) o by (simp cong: inj_on_cong)
  moreover have "(\<lambda>d. ch_fd (lr_objects ?s d)) ` live = (\<lambda>d. ch_fd (lr_objects s d)) ` live"
    using o by (intro image_cong) simp_all
  ultimately have "inj_on (\<lambda>d. ch_fd (lr_objects ?s d)) (insert c live)"
    using assms(2,3) by (simp add: inj_on_insert Channel_new_def)
  moreover have "holders ?s \<subseteq> insert c live" using w(2) by (auto simp: holders_def)
  ultimately show ?thesis using ok m by (simp add: world_inv_def)
qed

lemma destroy_world:
  assumes "world_inv live s" "c \<in> live"
  shows "world_inv (live - {c}) (owner_destroy c s)"
proof -
  let ?s = "channel_remove c s" and ?fd = "ch_fd (lr_objects s c)"
  note i = channel_remove_world [OF assms]
  note w = world_invD [OF i] and so = world_sole [OF i assms(2)]
  have gone: "c \<notin> holders ?s" by (rule channel_remove_gone [OF world_invD(3) [OF assms(1)]])
  then have fd: "om_get (lr_channels ?s) ?fd = None"
    using so by (auto simp: sole_def holders_def ran_def)
  have e: "owner_destroy c s = ?s\<lparr>lr_epoll := epoll_forget ?fd (lr_epoll ?s)\<rparr>"
    by (simp add: owner_destroy_def channel_destroy_def Let_def)
  have wa: "wanted (owner_destroy c s) = wanted ?s" by (simp add: e wanted_def fun_eq_iff)
  have "ep.mirrors (lr_epoll (owner_destroy c s)) (wanted ?s)" if "\<forall>n. \<not> ep_refuses (lr_epoll ?s) n"
  proof -
    have m: "epoll_ok (lr_epoll ?s)" "watched (lr_epoll ?s) = wanted ?s"
      using w(5) [OF that] by (simp_all add: reg_valid_iff ep.mirrors_def)
    have "watched (epoll_forget ?fd (lr_epoll ?s)) = (watched (lr_epoll ?s))(?fd := None)"
      using m(1) by (simp add: watched_def epoll_forget_def epoll_ok_def om_get_erase)
    then have "watched (epoll_forget ?fd (lr_epoll ?s)) = wanted ?s"
      using fd m(2) by (simp add: wanted_def fun_eq_iff)
    moreover have "epoll_ok (epoll_forget ?fd (lr_epoll ?s))"
      using m(1) by (simp add: epoll_ok_def epoll_forget_def om_valid_erase)
    ultimately show ?thesis by (simp add: e ep.mirrors_def)
  qed
  moreover have "inj_on (\<lambda>d. ch_fd (lr_objects (owner_destroy c s) d)) (live - {c})"
    using w(1) unfolding e by (auto intro: inj_on_subset)
  moreover have "holders (owner_destroy c s) \<subseteq> live - {c}"
    using w(2) gone by (auto simp: e holders_def)
  moreover have "reg_ok (owner_destroy c s)" using w(3) by (simp add: e reg_ok_def)
  ultimately show ?thesis using e wa by (simp add: world_inv_def)
qed

lemma chan_step_world: "world_inv live s \<Longrightarrow> chan_step x (live, s) = Some (live', s') \<Longrightarrow> world_inv live' s'"
  by (cases x)
    (auto simp: make_world destroy_world channel_remove_world set_events_world enableReading_def
      enableWriting_def disableWriting_def disableAll_def split: if_splits)

lemma chan_run_world: "world_inv live s \<Longrightarrow> chan_run xs (live, s) = Some (live', s') \<Longrightarrow> world_inv live' s'"
proof (induction xs arbitrary: live s)
  case (Cons x xs)
  then show ?case using chan_step_world [of live s x] by (auto split: option.splits)
qed simp



lemma new_world: "world_inv {} (loop_reg_new objs refuses)"
proof -
  have "ep_refuses (lr_epoll (loop_reg_new objs refuses)) = refuses" by (simp add: loop_reg_new_def epoll_new_def)
  moreover have "holders (loop_reg_new objs refuses) = {}"
    by (simp add: holders_def loop_reg_new_def om.get_empty ran_def)
  ultimately show ?thesis
    using loop_reg_new_valid [of refuses objs] loop_reg_new_ok [of objs refuses]
    by (simp add: world_inv_def reg_valid_iff)
qed


text \<open>
  When the kernel refuses to add a descriptor, the channel is entered and counted all the same, and
  nothing watches it: its callbacks never run.
\<close>

lemma refused_add_is_silent:
  assumes "om_get (lr_channels s) fd = None" "lr_objects s c = Channel_new fd"
    and "watched (lr_epoll s) fd = None" "ep_refuses (lr_epoll s) (ep_calls (lr_epoll s))"
  shows "om_get (lr_channels (enableReading c s)) fd = Some c"
    "lr_channelCount (enableReading c s) = lr_channelCount s + 1"
    "watched (lr_epoll (enableReading c s)) fd = None"
proof -
  have "ch_fd (lr_objects s c) = fd" "ch_events (lr_objects s c) = 0" "\<not> ch_removed (lr_objects s c)"
    using assms(2) by (simp_all add: Channel_new_def)
  then have "enableReading c s = set_object c ((lr_objects s c)\<lparr>ch_events := kReadEvent\<rparr>)
      (s\<lparr>lr_channels := om_put fd c (lr_channels s), lr_epoll := snd (epoller_add fd kReadEvent (lr_epoll s)),
         lr_channelCount := lr_channelCount s + 1\<rparr>)"
    using assms(1) by (simp add: enableReading_def set_events_def channel_update_def updateChannel_def
        isNoneEvent_def mask_values set_object_def Let_def)
  then show "om_get (lr_channels (enableReading c s)) fd = Some c"
    "lr_channelCount (enableReading c s) = lr_channelCount s + 1"
    "watched (lr_epoll (enableReading c s)) fd = None"
    using assms(3,4) by (simp_all add: om_get_put epoller_defs Let_def)
qed

section \<open>Dispatching\<close>

lemma dispatch_append:
  "dispatch effect has (evs @ evs') s =
     (let (l, s1) = dispatch effect has evs s; (l', s2) = dispatch effect has evs' s1 in (l @ l', s2))"
  by (induction effect has evs s rule: dispatch.induct)
    (auto simp: Let_def split: option.split prod.splits)

text \<open>Callbacks that do channel operations: which ones may depend on the state.\<close>

definition ops_effect ::
  "(nat \<Rightarrow> callback \<Rightarrow> loop_reg \<Rightarrow> chan_op list) \<Rightarrow> nat \<Rightarrow> callback \<Rightarrow> loop_reg \<Rightarrow> loop_reg" where
  "ops_effect acts d cb s = fold reg_op (acts d cb s) s"

text \<open>The object \<open>c\<close> is not built anew by one of the operations.\<close>

definition keeps_object :: "nat \<Rightarrow> chan_op list \<Rightarrow> bool" where
  "keeps_object c ops \<longleftrightarrow> (\<forall>fd. MakeOp c fd \<notin> set ops)"

text \<open>The registration of \<open>c\<close> alone: under its own descriptor only, and gone once it is removed.\<close>

definition tidy :: "nat \<Rightarrow> loop_reg \<Rightarrow> bool" where
  "tidy c s \<longleftrightarrow> om_valid (lr_channels s) \<and> (\<forall>fd. om_get (lr_channels s) fd = Some c \<longrightarrow>
     fd = ch_fd (lr_objects s c) \<and> \<not> ch_removed (lr_objects s c))"

lemma reg_ok_tidy: "reg_ok s \<Longrightarrow> tidy c s"
  by (auto simp: reg_ok_def tidy_def)

lemma removeChannel_tidy: "tidy c s \<Longrightarrow> tidy c (removeChannel d s)"
  by (auto simp: tidy_def removeChannel_channels)
    (simp add: removeChannel_def Let_def om_valid_erase)

lemma set_events_tidy:
  assumes "tidy c s"
  shows "tidy c (set_events d ev s)"
proof -
  let ?s = "set_object d ((lr_objects s d)\<lparr>ch_events := ev\<rparr>) s"
  have t: "tidy c ?s" using assms by (auto simp: tidy_def)
  show ?thesis
    using t removeChannel_tidy [OF t, of d]
    by (auto simp: set_events_def channel_update_def updateChannel_def Let_def)
      (auto simp: tidy_def om_get_put om_valid_put split: if_splits)
qed

lemma channel_remove_tidy:
  assumes "tidy c s"
  shows "tidy c (channel_remove d s)"
proof (cases "ch_removed (lr_objects s d)")
  case True
  then show ?thesis using assms by (simp add: channel_remove_def)
next
  case False
  let ?s = "set_object d ((lr_objects s d)\<lparr>ch_removed := True\<rparr>) s"
  have v: "om_valid (lr_channels ?s)" using assms by (simp add: tidy_def)
  have "om_valid (lr_channels (removeChannel d ?s))"
    using v by (simp add: removeChannel_def Let_def om_valid_erase)
  then have "tidy c (removeChannel d ?s)"
    using assms by (auto simp: tidy_def removeChannel_channels [OF v] split: if_splits)
  then show ?thesis using False by (simp add: channel_remove_def)
qed

text \<open>\<open>gone\<close>: removed, and so not registered.\<close>

definition gone :: "nat \<Rightarrow> loop_reg \<Rightarrow> bool" where
  "gone c s \<longleftrightarrow> tidy c s \<and> ch_removed (lr_objects s c)"

lemma gone_unregistered: "gone c s \<Longrightarrow> om_get (lr_channels s) fd \<noteq> Some c"
  by (auto simp: gone_def tidy_def)

lemma reg_op_tidy:
  assumes "keeps_object c (x # xs)" "tidy c s"
  shows "tidy c (reg_op x s)"
  using assms channel_remove_tidy [OF assms(2)]
  by (cases x) (auto simp: keeps_object_def set_events_tidy enableReading_def enableWriting_def
      disableWriting_def disableAll_def owner_destroy_def channel_destroy_def Let_def,
      auto simp: tidy_def)

lemma reg_op_removed:
  "keeps_object c (x # xs) \<Longrightarrow> ch_removed (lr_objects s c) \<Longrightarrow> ch_removed (lr_objects (reg_op x s) c)"
  by (cases x) (auto simp: keeps_object_def enableReading_def enableWriting_def
      disableWriting_def disableAll_def owner_destroy_def channel_destroy_def Let_def)

lemma ops_tidy: "keeps_object c ops \<Longrightarrow> tidy c s \<Longrightarrow> tidy c (fold reg_op ops s)"
proof (induction ops arbitrary: s)
  case (Cons x xs)
  then show ?case using reg_op_tidy [OF Cons.prems] by (simp add: keeps_object_def)
qed simp

lemma ops_removed:
  "keeps_object c ops \<Longrightarrow> RemoveOp c \<in> set ops \<or> ch_removed (lr_objects s c) \<Longrightarrow>
     ch_removed (lr_objects (fold reg_op ops s) c)"
proof (induction ops arbitrary: s)
  case (Cons x xs)
  have "RemoveOp c \<in> set xs \<or> ch_removed (lr_objects (reg_op x s) c)"
    using Cons.prems reg_op_removed [OF Cons.prems(1)] by auto
  moreover have "keeps_object c xs" using Cons.prems(1) by (simp add: keeps_object_def)
  ultimately show ?case using Cons.IH by simp
qed simp

text \<open>The callbacks of one event, and a batch.\<close>

lemma callbacks_gone:
  assumes "\<And>d cb t. keeps_object c (acts d cb t)"
  shows "tidy c s \<Longrightarrow> tidy c (run_callbacks (ops_effect acts) d cbs s)"
    and "(\<exists>cb \<in> set cbs. \<forall>t. RemoveOp c \<in> set (acts d cb t)) \<or> ch_removed (lr_objects s c) \<Longrightarrow>
      ch_removed (lr_objects (run_callbacks (ops_effect acts) d cbs s) c)"
proof (induction cbs arbitrary: s)
  case (Cons cb cbs)
  case 1
  then show ?case using Cons.IH(1) ops_tidy [OF assms] by (simp add: run_callbacks_def ops_effect_def)
next
  case (Cons cb cbs)
  case 2
  then show ?case
    using Cons.IH(2) [of "ops_effect acts d cb s"] ops_removed [where s = s and ops = "acts d cb s", OF assms]
    by (auto simp: run_callbacks_def ops_effect_def)
qed (simp_all add: run_callbacks_def)

lemma revents_tidy: "tidy c (set_object d (setRevents ev (lr_objects s d)) s) \<longleftrightarrow> tidy c s"
  by (auto simp: tidy_def setRevents_def)

lemma dispatch_gone:
  assumes keep: "\<And>d cb t. keeps_object c (acts d cb t)"
  shows "tidy c s \<Longrightarrow> dispatch (ops_effect acts) has evs s = (l, s1) \<Longrightarrow>
    tidy c s1 \<and> ((\<exists>(d, cb) \<in> set l. \<forall>t. RemoveOp c \<in> set (acts d cb t)) \<or> ch_removed (lr_objects s c) \<longrightarrow>
      ch_removed (lr_objects s1 c))"
proof (induction evs arbitrary: s l)
  case (Cons e evs)
  obtain fd ev where e: "e = (fd, ev)" by (cases e)
  show ?case
  proof (cases "om_get (lr_channels s) fd")
    case None
    then show ?thesis using Cons e by simp
  next
    case (Some d)
    let ?s1 = "set_object d (setRevents ev (lr_objects s d)) s"
    let ?cbs = "handleEvent (has d) (lr_objects ?s1 d)"
    let ?s2 = "run_callbacks (ops_effect acts) d ?cbs ?s1"
    obtain l2 where l: "dispatch (ops_effect acts) has evs ?s2 = (l2, s1)" "l = map (Pair d) ?cbs @ l2"
      using Cons.prems(2) Some by (auto simp: e Let_def split: prod.splits)
    have t: "tidy c ?s2"
      using callbacks_gone(1) [where acts = acts, OF keep] Cons.prems(1) revents_tidy by blast
    have r: "ch_removed (lr_objects ?s1 c) = ch_removed (lr_objects s c)" by (simp add: setRevents_def)
    have "(\<exists>cb \<in> set ?cbs. \<forall>t. RemoveOp c \<in> set (acts d cb t)) \<or> ch_removed (lr_objects s c) \<longrightarrow>
        ch_removed (lr_objects ?s2 c)"
      using callbacks_gone(2) [where acts = acts, OF keep, of ?cbs d ?s1] r by blast
    then show ?thesis using Cons.IH [OF t l(1)] unfolding l(2) by fastforce
  qed
qed simp

lemma dispatch_skips_gone:
  assumes keep: "\<And>d cb t. keeps_object c (acts d cb t)"
  shows "gone c s \<Longrightarrow> dispatch (ops_effect acts) has evs s = (l, s1) \<Longrightarrow> c \<notin> fst ` set l"
proof (induction evs arbitrary: s l)
  case (Cons e evs)
  obtain fd ev where e: "e = (fd, ev)" by (cases e)
  show ?case
  proof (cases "om_get (lr_channels s) fd")
    case None
    then show ?thesis using Cons e by simp
  next
    case (Some d)
    let ?s1 = "set_object d (setRevents ev (lr_objects s d)) s"
    let ?cbs = "handleEvent (has d) (lr_objects ?s1 d)"
    let ?s2 = "run_callbacks (ops_effect acts) d ?cbs ?s1"
    obtain l2 where l: "dispatch (ops_effect acts) has evs ?s2 = (l2, s1)" "l = map (Pair d) ?cbs @ l2"
      using Cons.prems(2) Some by (auto simp: e Let_def split: prod.splits)
    have "d \<noteq> c" using gone_unregistered [OF Cons.prems(1), of fd] Some by auto
    have g: "tidy c ?s1" "ch_removed (lr_objects ?s1 c)"
      using Cons.prems(1) by (auto simp: gone_def revents_tidy) (simp add: setRevents_def)
    have "gone c ?s2"
      using callbacks_gone(1) [where acts = acts, OF keep, of ?s1 d ?cbs]
        callbacks_gone(2) [where acts = acts, OF keep, of ?cbs d ?s1] g unfolding gone_def by blast
    from Cons.IH [OF this l(1)] \<open>d \<noteq> c\<close> show ?thesis unfolding l(2) by auto
  qed
qed simp

text \<open>
  C22: no callback after removal. The callbacks of a batch may do any operations on any channels.
  Once one of them has removed a channel \<open>c\<close>, no later event of the batch invokes a callback of
  \<open>c\<close>, although the kernel had reported events for its descriptor, and nothing (short of building
  the object anew) registers it again: the flag \<open>removed_\<close> makes \<open>enableReading\<close> and the like
  void. The guard is per event: of the two callbacks of one event the second still runs when the
  first removes the channel (\<open>one_event_runs_both\<close>).
\<close>

theorem no_callback_after_removal:
  assumes "reg_ok s" "\<forall>d cb t. keeps_object c (acts d cb t)"
    and "dispatch (ops_effect acts) has evs s = (l, s1)"
    and "(d, cb) \<in> set l" "\<forall>t. RemoveOp c \<in> set (acts d cb t)"
  shows "\<exists>l' s2. dispatch (ops_effect acts) has (evs @ evs') s = (l @ l', s2) \<and>
    c \<notin> fst ` set l' \<and> (\<forall>fd. om_get (lr_channels s2) fd \<noteq> Some c)"
proof -
  have k: "keeps_object c (acts d cb t)" for d cb t using assms(2) by blast
  obtain l' s2 where d: "dispatch (ops_effect acts) has evs' s1 = (l', s2)" by fastforce
  have g: "gone c s1"
    using dispatch_gone [where acts = acts, OF k reg_ok_tidy [OF assms(1)] assms(3)] assms(4,5)
    unfolding gone_def by blast
  have "gone c s2"
    using dispatch_gone [where acts = acts, OF k _ d] g unfolding gone_def by blast
  then show ?thesis
    using dispatch_skips_gone [where acts = acts, OF k g d] gone_unregistered [of c s2] assms(3) d
    by (simp add: dispatch_append)
qed

lemma one_event_runs_both:
  assumes "om_get (lr_channels s) fd = Some c" "ch_tie (lr_objects s c) \<noteq> TiedGone"
    and "ev AND EPOLLHUP = 0" "ev AND (EPOLLERR OR EPOLLRDHUP) = 0"
    and "ev AND kReadEvent \<noteq> 0" "ev AND kWriteEvent \<noteq> 0" "has c ReadCallback" "has c WriteCallback"
  shows "fst (dispatch effect has [(fd, ev)] s) = [(c, ReadCallback), (c, WriteCallback)]"
  using assms by (simp add: handleEvent_def setRevents_def)

section \<open>Inputs\<close>

text \<open>Two channels that read, on descriptors 5 and 6.\<close>

definition demo_ops :: "chan_op list" where
  "demo_ops = [MakeOp 0 5, ReadOp 0, MakeOp 1 6, ReadOp 1]"

definition demo_reg :: loop_reg where
  "demo_reg = fold reg_op demo_ops (loop_reg_new (\<lambda>n. Channel_new 0) (\<lambda>n. False))"

lemma two_channels_run: "chan_run demo_ops ({}, loop_reg_new (\<lambda>n. Channel_new 0) (\<lambda>n. False)) = Some ({0, 1}, demo_reg)"
  by (simp add: demo_ops_def demo_reg_def enableReading_def loop_reg_new_def Channel_new_def insert_commute)

lemma demo_channels:
  "lr_channels demo_reg = [(5, 0), (6, 1)]" "ch_fd (lr_objects demo_reg 1) = 6" "\<not> ch_removed (lr_objects demo_reg 1)"
  "ch_tie (lr_objects demo_reg 0) = Untied" "ch_tie (lr_objects demo_reg 1) = Untied"
  by (simp_all add: demo_ops_def demo_reg_def enableReading_def set_events_def channel_update_def
      updateChannel_def loop_reg_new_def Channel_new_def isNoneEvent_def mask_values om_get_def om_empty_def Let_def)


text \<open>The read callback of channel 0 removes channel 1 and then tries to enable it again.\<close>

definition removing_acts :: "nat \<Rightarrow> callback \<Rightarrow> loop_reg \<Rightarrow> chan_op list" where
  "removing_acts d cb t = (if d = 0 then [RemoveOp 1, ReadOp 1] else [])"

theorem no_callback_after_removal_witness:
  "(\<exists>l' s2. dispatch (ops_effect removing_acts) (\<lambda>c cb. True) ([(5, EPOLLIN)] @ [(6, EPOLLIN)]) demo_reg =
       ([(0, ReadCallback)] @ l', s2) \<and> 1 \<notin> fst ` set l' \<and> (\<forall>fd. om_get (lr_channels s2) fd \<noteq> Some 1)) \<and>
   fst (dispatch (ops_effect (\<lambda>d cb t. [])) (\<lambda>c cb. True) [(5, EPOLLIN), (6, EPOLLIN)] demo_reg) =
     [(0, ReadCallback), (1, ReadCallback)]"
proof
  have "reg_ok demo_reg" using chan_run_world [OF new_world two_channels_run] by (simp add: world_inv_def)
  moreover have "\<forall>d cb t. keeps_object 1 (removing_acts d cb t)" by (simp add: keeps_object_def removing_acts_def)
  moreover have "dispatch (ops_effect removing_acts) (\<lambda>c cb. True) [(5, EPOLLIN)] demo_reg =
      ([(0, ReadCallback)], snd (dispatch (ops_effect removing_acts) (\<lambda>c cb. True) [(5, EPOLLIN)] demo_reg))"
    by (simp add: demo_channels om_get_def handleEvent_def setRevents_def mask_values epoll_defs)
  moreover have "(0, ReadCallback) \<in> set [(0, ReadCallback)]" by simp
  moreover have "\<forall>t. RemoveOp 1 \<in> set (removing_acts 0 ReadCallback t)" by (simp add: removing_acts_def)
  ultimately show "\<exists>l' s2. dispatch (ops_effect removing_acts) (\<lambda>c cb. True) ([(5, EPOLLIN)] @ [(6, EPOLLIN)]) demo_reg =
      ([(0, ReadCallback)] @ l', s2) \<and> 1 \<notin> fst ` set l' \<and> (\<forall>fd. om_get (lr_channels s2) fd \<noteq> Some 1)"
    by (rule no_callback_after_removal)
  show "fst (dispatch (ops_effect (\<lambda>d cb t. [])) (\<lambda>c cb. True) [(5, EPOLLIN), (6, EPOLLIN)] demo_reg) =
      [(0, ReadCallback), (1, ReadCallback)]"
    by (simp add: demo_channels demo_channels(5) [unfolded One_nat_def] om_get_def handleEvent_def
        setRevents_def mask_values epoll_defs run_callbacks_def ops_effect_def Let_def)
qed

end
