(* ===== verification/Spec2Isabelle.thy ===== *)
theory Spec2Isabelle
  imports Http_Roundtrip Router_Props Reverse_Proxy_Props Idle_Timers_Props Loop_Thread
    Prometheus_Props Session_Wf Multi_Loop Server_Life Thread_Pool Log_Pipeline
    File_Bodies_Props Server_Download Connection_Drain Channel_Runs
begin

text \<open>
  MyselfWebServer: a static file server, reverse proxy and metrics endpoint over a multi-threaded
  epoll reactor, in C++17. Paths below are relative to \<open>src/src\<close> and \<open>src/include/myself\<close>; every
  definition has the name of the function or type it models, or one close to it where the name
  is taken.

  \<^bold>\<open>How the program fits together.\<close> \<open>main\<close> parses the options, creates the base event loop, the IO loop
  threads and the worker pool, and an acceptor. The acceptor takes connections until the kernel
  has no more, refuses those over the limit, and hands each one to the next IO loop, where a
  \<open>TcpConnection\<close> is made, entered in the connection table and started. Its channel is registered
  with the loop's poller; readable events fill its \<open>Buffer\<close> and call the message callback, which runs
  \<open>HttpParser\<close> over it, asks the rate limiter, and answers every complete request through \<open>Router\<close>:
  a handler, the reverse proxy, or a static file, directly or on a worker thread. Responses go out
  through \<open>send\<close> and \<open>sendFile\<close>. Timers run in the loop; logging goes through a double-buffered
  backend to rolling files.

  \<^bold>\<open>Theories.\<close>
  \<^item> \<open>Prelude\<close>: byte strings, numbers and their texts, C++ integer division, the \<open>strtoul\<close> family, UTF-8.
    \<open>Ordered_Map\<close>: \<open>std::map\<close> as a strictly sorted association list, with the locale \<open>kv_map\<close>.
  \<^item> \<open>Net_Buffer\<close> (\<open>net/Buffer\<close>): the vector and its two indexes, with growth and compaction. The locale
    \<open>byte_fifo\<close> is what the parser and the connection rely on; \<open>nb\<close> interprets it on the buffer.
  \<^item> \<open>Http_Request\<close>, \<open>Http_Parser\<close>, \<open>Http_Parser_Spec\<close>, \<open>Http_Parser_Props\<close>, \<open>Http_Framing\<close>,
    \<open>Http_Parser_Wf\<close>, \<open>Http_Roundtrip\<close> (\<open>http/HttpRequest\<close>, \<open>http/HttpParser\<close>): the incremental parser on the buffer, a
    buffer-free specification it implements, independence of how the bytes arrive, framing measured
    by a line reader that knows nothing of the parser, limits, its well-formed states, and the round
    trip with a request writer.
  \<^item> \<open>Http_Response\<close> (\<open>http/HttpResponse\<close>, \<open>util/FileBody\<close>): the response and its wire format.
  \<^item> \<open>Http_Date\<close>, \<open>Http_Date_Props\<close>, \<open>Router\<close>, \<open>Router_Props\<close> (\<open>http/Router\<close>): the dates of conditional
    requests against the calendar, the order of routes, confinement to the document root, content and
    revalidation of static answers.
  \<^item> \<open>Reverse_Proxy\<close>, \<open>Reverse_Proxy_Props\<close> (\<open>http/ReverseProxy\<close>): the upstream request, what is relayed of
    the answer, and the system calls of one exchange, of which the last closes the socket.
  \<^item> \<open>Token_Bucket\<close> (\<open>util/TokenBucket\<close>): the limiter; the locale \<open>credit_source\<close> states the accounting
    that bounds admission, and \<open>tb\<close> interprets it on the bucket.
  \<^item> \<open>Timer_Queue\<close>, \<open>Timer_Queue_Props\<close> (\<open>timer/\<close>, \<open>util/Timestamp.h\<close>): the two indexes of the queue, a
    batch of expirations with callbacks that add and cancel, the wait of the loop. \<open>Idle_Timers\<close>,
    \<open>Idle_Timers_Props\<close>: the timer interface of \<open>net/EventLoop\<close>, and the connections of one loop with
    their idle timers in its queue.
  \<^item> \<open>Channel\<close>, \<open>Channel_Props\<close>, \<open>Channel_Runs\<close> (\<open>net/Channel\<close>, \<open>net/Epoller\<close>, the registry of
    \<open>net/EventLoop\<close>): event masks, registration, dispatch, with a kernel that may refuse calls;
    sequences of operations on channels. The locale \<open>poller\<close> is the contract of an \<open>epoll_ctl\<close> that
    refuses nothing and \<open>ep\<close> its interpretation.
  \<^item> \<open>Event_Loop\<close> (\<open>net/EventLoop\<close>), \<open>Loop_Thread\<close> (\<open>net/EventLoopThread\<close>) and \<open>Multi_Loop\<close>: the loop
    thread and the threads that post to it, as steps; the thread around a loop, its start, quit and
    join; the accept thread dealing connections to several loops.
  \<^item> \<open>Tcp_Connection\<close>, \<open>Tcp_Connection_Props\<close> (\<open>net/TcpConnection\<close>): reading, writing, the pending file
    and the bytes in front of it, half close, close and error. \<open>Connection_Drain\<close>: how
    writable events empty it. \<open>File_Bodies\<close>, \<open>File_Bodies_Props\<close>
    (\<open>util/FileBody.h\<close>): who owns the descriptor of a file that is being sent, over all connections and
    unanswered responses, with a kernel that uses descriptor numbers again.
  \<^item> \<open>Metrics\<close>, \<open>Metrics_Props\<close>, \<open>Format_Double\<close>, \<open>Format_Double_Props\<close>, \<open>Prometheus\<close>,
    \<open>Prometheus_Props\<close> (\<open>util/Metrics\<close>): counters as 64-bit words, histogram, quantiles, snapshot and the
    race for the maximum; how a double is printed and read back; the page of the metrics and what a
    scraper makes of it.
  \<^item> \<open>Log_Stream\<close> (\<open>log/LogStream\<close>, \<open>log/Logger\<close>), \<open>Log_File\<close> (\<open>log/LogFile\<close>), \<open>Async_Logging\<close>
    (\<open>log/AsyncLogging\<close>): formatting a line, appending and rolling, and the backend, which refines a
    plain queue of bytes. \<open>Log_Pipeline\<close>: the backend writing through the log file, and where bytes
    can be lost.
  \<^item> \<open>Thread_Pool\<close> (\<open>thread/ThreadPool\<close>), \<open>Acceptor\<close> (\<open>net/Socket\<close>, \<open>net/Acceptor\<close>, round robin of
    \<open>net/EventLoopThreadPool\<close>), \<open>Descriptors\<close>, \<open>Descriptors_Props\<close>: the listening socket, and the
    descriptors opened and closed by the objects of \<open>net/\<close>.
  \<^item> \<open>Server_Options\<close>, \<open>Server\<close>, \<open>Server_Props\<close>, \<open>Server_Stream\<close>, \<open>Server_Download\<close>,
    \<open>Session_Wf\<close>, \<open>Connection_Table_Props\<close>, \<open>Server_Main\<close>, \<open>Server_Life\<close>
    (\<open>main.cpp\<close>): the options and the usage; the routes, the message callback and the events of one connection over the parser, the limiter, the
    router, the connection and the metrics; the whole conversation of a client; files
    downloaded by a client that knows only the framing of HTTP; the well-formed states of a session;
    the accept callback and the connection table with the task queue of the IO threads; the log output, the signal and the shutdown; the base loop and the acceptor around the run, and the end of \<open>main\<close>.

  \<^bold>\<open>What the theorems show.\<close> In the order of the claims: the requests of a connection are answered in
  order, end to end and without worker threads, a client that reads the answers gets whole files, and
  the state of a session stays well formed (C1 to C3); the parser gives the same verdict however its
  bytes are cut, takes exactly the head and the announced body of one request, keeps little while it
  waits, and reads back every request a writer makes (C4 to C7); responses are framed, dates survive printing and parsing (C8, C9); the router cannot leave
  its root and its validators are right (C10, C11); what the proxy relays of any answer; it closes
  its socket on every path and returns once the upstream does (C12 to C14); the limiter's bound over
  any window (C15); the timers,
  and the idle timeouts of the connections built on them (C16 to C20); registry, callbacks, posted
  tasks, wake-ups, the end of the loop and the dealing of connections (C21 to C26); the byte order and
  write interest of a connection, which empties itself while the socket takes bytes, and the owners of
  the files being sent (C27 to C30); the metrics page (C31); replies out of order with worker threads (C32); the connection
  table, exact on one thread and not with IO threads (C33, C34); the shutdown, the acceptor that
  waits in \<open>accept4\<close>, the descriptors of the base loop and the acceptor (C35 to C37); the log
  backend, down to the disk, and the worker pool (C38 to C40). C12, C18, C25, C32, C34, C36 and C39 include what the code does where it does not
  do what it means to. Further results are lemmas: the order of the routes, the date
  validators, the headers of a static answer, the framing of upstream requests, a cancelled timer that
  does not fire, the recovery of the limiter, the wait that never oversleeps, half close and close of a connection, the
  histogram, the quantiles and the published maximum, and the outcomes of \<open>listenOn\<close>.

  \<^bold>\<open>Conventions.\<close> There is no fuel. A loop that consumes its input terminates by a measure (the unread
  bytes and the parser's state for the message loop), and a loop over system calls is a recursion on the
  list of the kernel's answers; where that list can end before the loop does, the result is an option or
  a state of its own, and a theorem says when it is reached. Threads are transition systems whose steps
  are the critical sections, and invariants are proved over the reachable states. \<open>size_t\<close> is \<open>nat\<close> where
  lengths of data in memory are counted and a 64-bit word where the code lets it wrap (the
  counters); \<open>int\<close> results that a cast narrows are written out with \<open>mod\<close>. Doubles are exact
  rationals, so a bound on them leaves out rounding.

  \<^bold>\<open>Parameters.\<close> The kernel and the C library are arguments of the definitions that use them: the
  answers of \<open>readv\<close>, \<open>write\<close>, \<open>sendfile\<close>, \<open>accept4\<close>, \<open>epoll_wait\<close>, \<open>socket\<close>, \<open>bind\<close>, \<open>listen\<close> and
  \<open>fcntl\<close>; which calls of \<open>epoll_ctl\<close> are refused; \<open>stat\<close>, \<open>fopen\<close>, \<open>fwrite\<close> and the content of
  files; the resolver, \<open>connect\<close> and \<open>strerror\<close> of the
  upstream; the clocks; \<open>strtod\<close>, \<open>snprintf\<close> and \<open>strftime\<close>. Handlers of the router and callbacks of
  timers, channels and connections are functions.

  \<^bold>\<open>Not modelled.\<close> The init callback of the loop threads, which the program never sets; restarting the
  log backend after \<open>stop\<close>; reference counts as numbers (the last owner of a file body is found by
  looking at all of its owners, and connections stay alive by their place in the table); memory ordering of
  the atomics, which are read and written in one global order; rounding of doubles. The pages under
  \<open>www\<close>, the scripts, the tests and the documents hold no server logic.

  \<^bold>\<open>Seams.\<close> Three compositions are stated apart and not in one state: the session of \<open>Server\<close> has the
  idle timer as a flag, which \<open>Idle_Timers\<close> refines by the timer queue; the connection table has its
  own task list, of which \<open>Multi_Loop\<close> shows how the loops run it; the files of a session are fixed
  while it runs, which \<open>File_Bodies\<close> justifies for the descriptors in use.
\<close>

end
